(* ===== verification/Prelude.thy ===== *)
theory Prelude
  imports Main "HOL-Library.Word" "HOL-Library.Sublist"
begin

text \<open>
  What the component theories share: the names of the model's basic types (identifiers, bytes,
  times, results), the propagation of errors (Rust's \<open>?\<close>), the string operations of the Rust
  standard library that the sources call, facts about lists and association lists that several
  components need, and the two interfaces most components implement: a keyed store (a SQL table
  with a primary key, a \<open>HashMap\<close>) and a system whose steps keep an invariant.
\<close>

section \<open>Names of the basic types\<close>

text \<open>
  A \<open>Uuid\<close> is a 128-bit value that the code only compares, stores and prints. A fresh one
  (\<open>Uuid::now_v7\<close>) is an argument of the operation that mints it. A \<open>DateTime<Utc>\<close> or
  an \<open>Instant\<close> is a number of nanoseconds; the clock is an argument as well.
\<close>

type_synonym uuid = "128 word"
type_synonym byte = "8 word"
type_synonym time = int
type_synonym blake3_hash = string

named_theorems res_simps \<open>unfolding of error propagation\<close>
named_theorems db_defs \<open>definitions of the table operations\<close>

section \<open>Results\<close>

text \<open>A \<open>Result<T, E>\<close> is \<open>'e + 't\<close>, the error on the left.\<close>

definition bind_res :: "'e + 'a \<Rightarrow> ('a \<Rightarrow> 'e + 'b) \<Rightarrow> 'e + 'b" where
  "bind_res r f = (case r of Inl e \<Rightarrow> Inl e | Inr x \<Rightarrow> f x)"

definition ok_or :: "'a option \<Rightarrow> 'e \<Rightarrow> 'e + 'a" where
  "ok_or x e = (case x of None \<Rightarrow> Inl e | Some v \<Rightarrow> Inr v)"

definition is_ok :: "'e + 'a \<Rightarrow> bool" where
  "is_ok r = (case r of Inl _ \<Rightarrow> False | Inr _ \<Rightarrow> True)"

definition res_ok :: "'e + 'a \<Rightarrow> 'a option" where
  "res_ok r = (case r of Inl _ \<Rightarrow> None | Inr x \<Rightarrow> Some x)"

lemma bind_res_simps [simp, res_simps]:
  "bind_res (Inl e) f = Inl e" "bind_res (Inr x) f = f x"
  by (simp_all add: bind_res_def)

lemma ok_or_simps [simp, res_simps]:
  "ok_or None e = Inl e" "ok_or (Some v) e = Inr v"
  by (simp_all add: ok_or_def)

lemma is_ok_simps [simp, res_simps]: "\<not> is_ok (Inl e)" "is_ok (Inr x)"
  by (simp_all add: is_ok_def)

lemma res_ok_simps [simp, res_simps]: "res_ok (Inl e) = None" "res_ok (Inr x) = Some x"
  by (simp_all add: res_ok_def)

lemma bind_res_Inr_iff:
  "bind_res r f = Inr y \<longleftrightarrow> (\<exists>x. r = Inr x \<and> f x = Inr y)"
  by (cases r) auto

lemma ok_or_Inr_iff [simp]: "ok_or x e = Inr v \<longleftrightarrow> x = Some v"
  by (cases x) auto

lemma is_ok_iff: "is_ok r \<longleftrightarrow> (\<exists>x. r = Inr x)"
  by (cases r) auto

section \<open>Strings\<close>

text \<open>
  The \<open>str\<close> methods the sources call. A Rust string is UTF-8 and a HOL string is a list of
  bytes, so each of these, which compares and cuts at whole substrings, is the same on both.
\<close>

definition starts_with :: "string \<Rightarrow> string \<Rightarrow> bool" where
  "starts_with s p = (take (length p) s = p)"

definition strip_prefix :: "string \<Rightarrow> string \<Rightarrow> string option" where
  "strip_prefix s p = (if starts_with s p then Some (drop (length p) s) else None)"

fun contains :: "string \<Rightarrow> string \<Rightarrow> bool" where
  "contains [] p = (p = [])"
| "contains (c # cs) p = (starts_with (c # cs) p \<or> contains cs p)"

definition trim_start_matches :: "char \<Rightarrow> string \<Rightarrow> string" where
  "trim_start_matches c s = dropWhile (\<lambda>x. x = c) s"

definition trim_end_matches :: "char \<Rightarrow> string \<Rightarrow> string" where
  "trim_end_matches c s = rev (dropWhile (\<lambda>x. x = c) (rev s))"

definition replace_char :: "char \<Rightarrow> char \<Rightarrow> string \<Rightarrow> string" where
  "replace_char a b s = map (\<lambda>c. if c = a then b else c) s"

fun split_on :: "char \<Rightarrow> string \<Rightarrow> string list" where
  "split_on c [] = [[]]"
| "split_on c (x # xs) =
     (if x = c then [] # split_on c xs
      else (case split_on c xs of [] \<Rightarrow> [[x]] | w # ws \<Rightarrow> (x # w) # ws))"

fun join_with :: "string \<Rightarrow> string list \<Rightarrow> string" where
  "join_with sep [] = []"
| "join_with sep [w] = w"
| "join_with sep (w # v # ws) = w @ sep @ join_with sep (v # ws)"

lemma starts_with_prefix: "starts_with s p \<longleftrightarrow> prefix p s"
  by (auto simp: starts_with_def prefix_def) (metis append_take_drop_id)

lemma starts_with_append [simp]: "starts_with (p @ s) p"
  by (simp add: starts_with_def)

lemma strip_prefix_Some_iff: "strip_prefix s p = Some r \<longleftrightarrow> s = p @ r"
  by (auto simp: strip_prefix_def starts_with_def) (metis append_take_drop_id)

lemma strip_prefix_append [simp]: "strip_prefix (p @ r) p = Some r"
  by (simp add: strip_prefix_Some_iff)

lemma trim_end_no_match: "trim_end_matches c s = [] \<or> last (trim_end_matches c s) \<noteq> c"
  unfolding trim_end_matches_def
  using hd_dropWhile [of "\<lambda>x. x = c" "rev s"]
  by (cases "dropWhile (\<lambda>x. x = c) (rev s) = []") (simp_all only: last_rev, simp_all)

lemma split_on_not_Nil [simp]: "split_on c s \<noteq> []"
  by (induction s) (auto split: list.splits)

lemma join_split_on: "join_with [c] (split_on c s) = s"
proof (induction s)
  case Nil
  then show ?case by simp
next
  case (Cons x xs)
  obtain w ws where ws: "split_on c xs = w # ws" by (cases "split_on c xs") auto
  with Cons show ?case by (cases ws) auto
qed

lemma split_on_no_sep: "w \<in> set (split_on c s) \<Longrightarrow> c \<notin> set w"
  by (induction s arbitrary: w) (auto split: if_splits list.splits)

lemma split_on_plain: "c \<notin> set s \<Longrightarrow> split_on c s = [s]"
  by (induction s) auto

lemma split_on_append_sep: "c \<notin> set w \<Longrightarrow> split_on c (w @ c # s) = w # split_on c s"
  by (induction w) auto

lemma split_join_on:
  "\<forall>w \<in> set ws. c \<notin> set w \<Longrightarrow> ws \<noteq> [] \<Longrightarrow> split_on c (join_with [c] ws) = ws"
proof (induction "[c]" ws rule: join_with.induct)
  case 1
  then show ?case by simp
next
  case (2 w)
  then show ?case by (simp add: split_on_plain)
next
  case (3 w v ws)
  then show ?case by (simp add: split_on_append_sep)
qed

section \<open>Lists\<close>

lemma find_Some_set: "List.find P xs = Some x \<Longrightarrow> x \<in> set xs \<and> P x"
  by (induction xs) (auto split: if_splits)

lemma find_None_set: "List.find P xs = None \<longleftrightarrow> (\<forall>x \<in> set xs. \<not> P x)"
  by (induction xs) auto

lemma find_distinct_key:
  assumes "distinct (map f xs)" and "x \<in> set xs"
  shows "List.find (\<lambda>y. f y = f x) xs = Some x"
  using assms by (induction xs) force+

lemma list_ex_key: "list_ex (\<lambda>x. f x = c) xs \<longleftrightarrow> c \<in> f ` set xs"
  by (auto simp: list_ex_iff)

text \<open>A predicate that fixes the value of a key finds at most one row of a table.\<close>

lemma find_key_iff:
  assumes "distinct (map k xs)" and "\<And>y. y \<in> set xs \<Longrightarrow> P y \<Longrightarrow> k y = c"
  shows "List.find P xs = Some x \<longleftrightarrow> x \<in> set xs \<and> P x"
  using assms by (induction xs) (auto simp: image_iff dest: find_Some_set)

lemma filter_key_singleton:
  assumes "distinct (map k xs)" and "\<And>y. y \<in> set xs \<Longrightarrow> P y \<Longrightarrow> k y = c" and "x \<in> set xs" and "P x"
  shows "filter P xs = [x]"
  using assms
proof (induction xs)
  case Nil
  then show ?case by simp
next
  case (Cons y ys)
  have "filter P ys = []" if "P y"
    using Cons.prems that by (auto simp: filter_empty_conv image_iff)
  with Cons show ?case by (auto simp: image_iff)
qed

lemma distinct_map_inj: "distinct (map f xs) \<Longrightarrow> x \<in> set xs \<Longrightarrow> y \<in> set xs \<Longrightarrow> f x = f y \<Longrightarrow> x = y"
  by (simp add: distinct_map inj_on_def)

lemma distinct_map_filter_key: "distinct (map f xs) \<Longrightarrow> distinct (map f (filter P xs))"
  by (induction xs) auto

lemma sorted_map_filter_key:
  fixes f :: "'a \<Rightarrow> 'b::linorder"
  shows "sorted (map f xs) \<Longrightarrow> sorted (map f (filter P xs))"
  by (rule sorted_filter)

lemma distinct_map_update:
  "(\<And>x. x \<in> set xs \<Longrightarrow> k (f x) = k x) \<Longrightarrow> distinct (map k xs) \<Longrightarrow> distinct (map k (map f xs))"
  by (metis (no_types, lifting) list.map_comp comp_apply map_eq_conv)

lemma Max_insert_ge:
  fixes S :: "nat set"
  shows "finite S \<Longrightarrow> x \<in> S \<Longrightarrow> x < Max (insert 0 S) + 1"
  by (metis Max_ge add.commute finite_insert insertCI le_imp_less_Suc plus_1_eq_Suc)

lemma nth_update_if: "xs[i := v] ! j = (if i = j \<and> j < length xs then v else xs ! j)"
  by (cases "i < length xs") (auto simp: nth_list_update list_update_beyond)

lemma ex_list_Cons: "\<not> P [] \<Longrightarrow> (\<exists>q. P q) \<longleftrightarrow> (\<exists>x q. P (x # q))"
  by (metis list.exhaust)

lemma map_of_functional:
  "(\<And>k v w. (k, v) \<in> set xs \<Longrightarrow> (k, w) \<in> set xs \<Longrightarrow> v = w) \<Longrightarrow>
   map_of xs k = Some v \<longleftrightarrow> (k, v) \<in> set xs"
proof (induction xs)
  case (Cons x xs)
  from Cons have "map_of xs k = Some v \<longleftrightarrow> (k, v) \<in> set xs" by (metis list.set_intros(2))
  with Cons.prems [of k v "snd x"] show ?case by (cases x) auto
qed simp

lemma map_of_rev_distinct: "distinct (map fst xs) \<Longrightarrow> map_of (rev xs) = map_of xs"
  by (simp add: map_of_inject_set rev_map [symmetric])

section \<open>Sorted association lists\<close>

text \<open>A \<open>BTreeMap\<close>: its entries in the order of the keys, each key once.\<close>

fun bt_insert :: "'k::linorder \<Rightarrow> 'v \<Rightarrow> ('k \<times> 'v) list \<Rightarrow> ('k \<times> 'v) list" where
  "bt_insert k v [] = [(k, v)]"
| "bt_insert k v ((k', v') # xs) =
     (if k < k' then (k, v) # (k', v') # xs
      else if k = k' then (k, v) # xs
      else (k', v') # bt_insert k v xs)"

definition bt_sorted :: "('k::linorder \<times> 'v) list \<Rightarrow> bool" where
  "bt_sorted xs = sorted_wrt (<) (map fst xs)"

lemma bt_sorted_Nil [simp]: "bt_sorted []"
  by (simp add: bt_sorted_def)

lemma bt_insert_keys: "fst ` set (bt_insert k v xs) = insert k (fst ` set xs)"
  by (induction k v xs rule: bt_insert.induct) (simp_all add: insert_commute)

lemma bt_insert_sorted: "bt_sorted xs \<Longrightarrow> bt_sorted (bt_insert k v xs)"
proof (induction xs)
  case Nil
  then show ?case by (simp add: bt_sorted_def)
next
  case (Cons x xs)
  obtain k' v' where x: "x = (k', v')" by (cases x)
  from Cons have IH: "bt_sorted (bt_insert k v xs)" by (simp add: bt_sorted_def)
  have "\<forall>y \<in> fst ` set (bt_insert k v xs). k' < y" if "k' < k"
    using Cons.prems x that by (auto simp: bt_insert_keys bt_sorted_def)
  with Cons.prems IH x show ?case by (auto simp: bt_sorted_def)
qed

lemma map_of_bt_insert: "map_of (bt_insert k v xs) y = (if y = k then Some v else map_of xs y)"
  by (induction k v xs rule: bt_insert.induct) auto

lemma bt_sorted_distinct: "bt_sorted xs \<Longrightarrow> distinct (map fst xs)"
  unfolding bt_sorted_def using strict_sorted_iff by blast

section \<open>Two interfaces\<close>

text \<open>
  A keyed store: what a lookup returns after an update. \<open>get\<close> and \<open>put\<close> are the operations
  of a SQL table with a primary key (an upsert), or of a hash map behind a lock.
\<close>

locale keyed_store =
  fixes get :: "'s \<Rightarrow> 'k \<Rightarrow> 'v option"
    and put :: "'s \<Rightarrow> 'k \<Rightarrow> 'v \<Rightarrow> 's"
  assumes get_put: "get (put s k v) k' = (if k' = k then Some v else get s k')"
begin

lemma get_put_same: "get (put s k v) k = Some v"
  by (simp add: get_put)

lemma get_put_other: "k' \<noteq> k \<Longrightarrow> get (put s k v) k' = get s k'"
  by (simp add: get_put)

lemma get_put_put: "get (put (put s k v) k w) k' = get (put s k w) k'"
  by (simp add: get_put)

lemma get_put_commute:
  "k \<noteq> l \<Longrightarrow> get (put (put s k v) l w) k' = get (put (put s l w) k v) k'"
  by (simp add: get_put)

lemma get_fold_put:
  "distinct (map fst kvs) \<Longrightarrow> (k, v) \<in> set kvs \<Longrightarrow>
   get (fold (\<lambda>(k, v) s. put s k v) kvs s) k = Some v"
proof (induction kvs arbitrary: s rule: rev_induct)
  case Nil
  then show ?case by simp
next
  case (snoc kv kvs)
  then show ?case by (cases kv) (auto simp: get_put rev_image_eqI)
qed

end

text \<open>
  A system whose steps keep an invariant. The steps are a function of an event, so that a run is
  a list of events; the invariant then holds after every run from a good state.
\<close>

locale invariant_system =
  fixes step :: "'s \<Rightarrow> 'e \<Rightarrow> 's"
    and inv :: "'s \<Rightarrow> bool"
  assumes step_inv: "inv s \<Longrightarrow> inv (step s e)"
begin

lemma run_inv: "inv s \<Longrightarrow> inv (foldl step s es)"
  by (induction es arbitrary: s) (auto intro: step_inv)

lemma run_inv_prefix: "inv s \<Longrightarrow> prefix ds es \<Longrightarrow> inv (foldl step s ds)"
  by (rule run_inv)

end

text \<open>
  A system in which, besides, every step leaves a relation between the state before and the
  state after (an order, or \<open>nothing is lost\<close>); it then holds between the ends of a run.
\<close>

locale monotone_system = invariant_system +
  fixes le :: "'a \<Rightarrow> 'a \<Rightarrow> bool"
  assumes le_refl: "le s s"
    and le_trans: "le s t \<Longrightarrow> le t u \<Longrightarrow> le s u"
    and step_le: "inv s \<Longrightarrow> le s (step s e)"
begin

lemma run_le: "inv s \<Longrightarrow> le s (foldl step s es)"
proof (induction es arbitrary: s)
  case Nil
  then show ?case by (simp add: le_refl)
next
  case (Cons e es)
  from Cons.prems have "le s (step s e)" by (rule step_le)
  moreover have "le (step s e) (foldl step (step s e) es)"
    using Cons.prems by (intro Cons.IH step_inv)
  ultimately show ?case by (simp add: le_trans)
qed

end

end
