(* ===== verification/Core_Types.thy ===== *)
theory Core_Types
  imports Prelude
begin

text \<open>
  The wire types of \<open>savr-core\<close> (\<open>types.rs\<close>, \<open>protocol.rs\<close>): one definition for the REST
  bodies, the SQL rows and the IPC frames. A struct is a record whose fields carry a short prefix
  (\<open>v_\<close> for \<open>Version\<close>, \<open>fe_\<close> for \<open>FileEntry\<close>, \<dots>), an enum is a datatype with the
  source's constructors. A \<open>u64\<close> that the code only copies is a \<open>64 word\<close>; the per-game
  sequence number, which the server derives from the largest stored one, is a natural number.
\<close>

section \<open>Core wire types (types.rs)\<close>

datatype os = Windows | Linux | Macos

definition os_parse :: "string \<Rightarrow> os option" where
  "os_parse s =
     (if s = ''windows'' then Some Windows
      else if s = ''linux'' then Some Linux
      else if s = ''mac'' \<or> s = ''macos'' then Some Macos
      else None)"

datatype save_tag = Save | Config

definition save_tag_parse :: "string \<Rightarrow> save_tag option" where
  "save_tag_parse s =
     (if s = ''save'' then Some Save else if s = ''config'' then Some Config else None)"

datatype game_source = Manifest | Steam | Custom

record save_target =
  st_glob :: string
  st_tags :: "save_tag list"
  st_os_hint :: "os option"
  st_registry :: bool

record game =
  gm_id :: uuid
  gm_title :: string
  gm_source :: game_source
  gm_steam_appid :: "32 word option"
  gm_save_targets :: "save_target list"
  gm_running :: bool
  gm_last_played :: "time option"
  gm_last_session_secs :: "int option"
  gm_total_secs :: int

record file_entry =
  fe_rel_path :: string
  fe_size :: "64 word"
  fe_mtime :: int
  fe_hash :: blake3_hash

datatype version_kind = Full | Differential

record version =
  v_id :: uuid
  v_game_id :: uuid
  v_device_id :: uuid
  v_parent :: "uuid option"
  v_kind :: version_kind
  v_files :: "file_entry list"
  v_blob_hash :: blake3_hash
  v_bytes :: "64 word"
  v_seq :: nat
  v_created_at :: time

record create_version_req =
  cv_parent :: "uuid option"
  cv_kind :: version_kind
  cv_files :: "file_entry list"
  cv_blob_hash :: blake3_hash
  cv_bytes :: "64 word"
  cv_device_id :: uuid

record device =
  dv_id :: uuid
  dv_name :: string
  dv_os :: os
  dv_last_seen :: time

record path_override =
  po_game_id :: uuid
  po_globs :: "string list"

datatype conflict_policy = Manual | LatestWins | TheirsWins | MineWins

datatype autopull_policy = Ask | Auto

record retention =
  rt_full :: "32 word"
  rt_diff_per_full :: "32 word"

definition retention_default :: retention where
  "retention_default = \<lparr>rt_full = 5, rt_diff_per_full = 10\<rparr>"

record synced_config =
  sc_tag :: string
  sc_custom_games :: "game list"
  sc_overrides :: "path_override list"
  sc_conflict_policy :: conflict_policy
  sc_autopull_policy :: autopull_policy
  sc_retention :: retention

definition synced_config_default :: synced_config where
  "synced_config_default =
     \<lparr>sc_tag = [], sc_custom_games = [], sc_overrides = [], sc_conflict_policy = Manual,
      sc_autopull_policy = Ask, sc_retention = retention_default\<rparr>"

section \<open>Protocol messages (protocol.rs)\<close>

record login_response =
  lr_session_token :: string
  lr_expires_in :: nat

record pairing_code_response =
  pc_code :: string
  pc_expires_at :: time

record pair_request =
  pr_code :: string
  pr_device_name :: string
  pr_os :: os

record pair_response =
  pp_device_id :: uuid
  pp_account_id :: uuid
  pp_refresh_secret :: string
  pp_access_token :: string
  pp_expires_in :: nat

record refresh_request =
  rr_device_id :: uuid
  rr_refresh_secret :: string

record token_response =
  tr_access_token :: string
  tr_expires_in :: nat

record ensure_game_request =
  eg_title :: string
  eg_steam_appid :: "32 word option"

record head_response =
  hr_head :: "uuid option"
  hr_seq :: "nat option"

record resolve_request =
  rs_winner :: uuid
  rs_keep_both :: bool

datatype server_msg =
    VersionAvailable uuid uuid nat
  | ConflictMsg uuid "uuid list"
  | ConfigUpdated string
  | DeviceAdded uuid
  | Pong

datatype client_msg =
    Hello uuid "uuid \<rightharpoonup> nat"
  | Subscribe "string list"
  | Ping

section \<open>Facts about the wire types\<close>

lemma os_parse_Some_iff:
  "os_parse s = Some os \<longleftrightarrow>
     (os = Windows \<and> s = ''windows'' \<or> os = Linux \<and> s = ''linux'' \<or>
      os = Macos \<and> (s = ''mac'' \<or> s = ''macos''))"
  by (cases os) (auto simp: os_parse_def)

end
