(* ===== verification/Fs.thy ===== *)
theory Fs
  imports Prelude "HOL-Library.AList"
begin

text \<open>
  The part of Rust's standard library that the daemon and the archive code use to touch the disk:
  \<open>Path\<close> as its list of components, and a file system as a tree of directories. A path is looked
  up without following links; relative paths are taken from the top of the tree. An I/O operation
  fails when the tree says so (a missing entry, a file where a directory is needed, a directory
  where a file is needed); failures of the medium (a full disk, permissions) are not in the tree.

  The second half shows that a tree, seen as a map from paths to contents, is updated at one path
  by a write and by nothing else, and packages that as the interface \<open>file_system\<close> that the
  extraction of archives and the restore of saves rely on.
\<close>

section \<open>Paths\<close>

datatype component = RootDir | CurDir | ParentDir | Normal string

type_synonym path = "component list"

fun part_component :: "string \<Rightarrow> component list" where
  "part_component s =
     (if s = '''' \<or> s = ''.'' then [] else if s = ''..'' then [ParentDir] else [Normal s])"

text \<open>\<open>Path::components\<close> on Unix: repeated and trailing separators and inner dots vanish.\<close>

definition components :: "string \<Rightarrow> path" where
  "components s =
     (let parts = split_on (CHR ''/'') s in
      (if starts_with s ''/'' then [RootDir] else if hd parts = ''.'' then [CurDir] else [])
      @ concat (map part_component parts))"

fun as_os_str :: "component \<Rightarrow> string" where
  "as_os_str RootDir = ''/''"
| "as_os_str CurDir = ''.''"
| "as_os_str ParentDir = ''..''"
| "as_os_str (Normal s) = s"

definition is_absolute :: "path \<Rightarrow> bool" where
  "is_absolute p = (p \<noteq> [] \<and> hd p = RootDir)"

definition path_join :: "path \<Rightarrow> path \<Rightarrow> path" where
  "path_join p q =
     (if is_absolute q then q else if p = [] then q else p @ filter (\<lambda>c. c \<noteq> CurDir) q)"

definition path_strip_prefix :: "path \<Rightarrow> path \<Rightarrow> path option" where
  "path_strip_prefix p base = (if prefix base p then Some (drop (length base) p) else None)"

definition path_parent :: "path \<Rightarrow> path option" where
  "path_parent p = (if p = [] \<or> last p = RootDir then None else Some (butlast p))"

definition file_name :: "path \<Rightarrow> string option" where
  "file_name p =
     (if p = [] then None else case last p of Normal s \<Rightarrow> Some s | _ \<Rightarrow> None)"

text \<open>The components joined by slashes, as \<open>rel_path\<close> and \<open>walk_rel_inner\<close> print them.\<close>

definition slash_join :: "path \<Rightarrow> string" where
  "slash_join p = join_with ''/'' (map as_os_str p)"

section \<open>Trees\<close>

record file_meta =
  fm_mtime :: int
  fm_mode :: "32 word"

datatype node = File "byte list" file_meta | Dir "(string \<times> node) list" | Special

datatype fs_error = NotFound | NotADirectory | IsADirectory | Unsupported

text \<open>Where a path leads in the tree.\<close>

fun loc_from :: "string list \<Rightarrow> path \<Rightarrow> string list" where
  "loc_from d [] = d"
| "loc_from d (RootDir # p) = loc_from [] p"
| "loc_from d (CurDir # p) = loc_from d p"
| "loc_from d (ParentDir # p) = loc_from (butlast d) p"
| "loc_from d (Normal s # p) = loc_from (d @ [s]) p"

definition loc :: "path \<Rightarrow> string list" where
  "loc p = loc_from [] p"

fun lookup :: "node \<Rightarrow> string list \<Rightarrow> node option" where
  "lookup n [] = Some n"
| "lookup (Dir es) (x # p) = (case map_of es x of None \<Rightarrow> None | Some n \<Rightarrow> lookup n p)"
| "lookup _ (x # p) = None"

fun modify :: "(node option \<Rightarrow> fs_error + node option) \<Rightarrow> string list \<Rightarrow> node \<Rightarrow> fs_error + node" where
  "modify f [x] (Dir es) =
     (case f (map_of es x) of
        Inl e \<Rightarrow> Inl e
      | Inr None \<Rightarrow> Inr (Dir (AList.delete x es))
      | Inr (Some n) \<Rightarrow> Inr (Dir (AList.update x n es)))"
| "modify f (x # y # p) (Dir es) =
     (case map_of es x of
        None \<Rightarrow> Inl NotFound
      | Some n \<Rightarrow>
          (case modify f (y # p) n of
             Inl e \<Rightarrow> Inl e
           | Inr n' \<Rightarrow> Inr (Dir (AList.update x n' es))))"
| "modify f [] n = Inl IsADirectory"
| "modify f (x # p) n = Inl NotADirectory"

fun write_node :: "byte list \<Rightarrow> file_meta \<Rightarrow> node option \<Rightarrow> fs_error + node option" where
  "write_node bs m (Some (Dir es)) = Inl IsADirectory"
| "write_node bs m (Some Special) = Inl Unsupported"
| "write_node bs m _ = Inr (Some (File bs m))"

fun remove_node :: "node option \<Rightarrow> fs_error + node option" where
  "remove_node None = Inl NotFound"
| "remove_node (Some (Dir es)) = Inl IsADirectory"
| "remove_node (Some n) = Inr None"

text \<open>\<open>File::create\<close> followed by writing all the bytes; \<open>fs::remove_file\<close>; \<open>fs::read\<close>.\<close>

definition write_file :: "byte list \<Rightarrow> file_meta \<Rightarrow> string list \<Rightarrow> node \<Rightarrow> fs_error + node" where
  "write_file bs m = modify (write_node bs m)"

definition remove_file :: "string list \<Rightarrow> node \<Rightarrow> fs_error + node" where
  "remove_file = modify remove_node"

definition read_file :: "node \<Rightarrow> string list \<Rightarrow> fs_error + byte list" where
  "read_file n p =
     (case lookup n p of
        None \<Rightarrow> Inl NotFound
      | Some (File bs m) \<Rightarrow> Inr bs
      | Some (Dir es) \<Rightarrow> Inl IsADirectory
      | Some Special \<Rightarrow> Inl Unsupported)"

fun create_dir_all :: "string list \<Rightarrow> node \<Rightarrow> fs_error + node" where
  "create_dir_all [] (Dir es) = Inr (Dir es)"
| "create_dir_all (x # p) (Dir es) =
     (case create_dir_all p (case map_of es x of None \<Rightarrow> Dir [] | Some n \<Rightarrow> n) of
        Inl e \<Rightarrow> Inl e
      | Inr n' \<Rightarrow> Inr (Dir (AList.update x n' es)))"
| "create_dir_all p n = Inl NotADirectory"

text \<open>What \<open>unpack\<close> and \<open>run_restore\<close> do for one file: make its directories, then write it.\<close>

definition put_file :: "string list \<Rightarrow> byte list \<times> file_meta \<Rightarrow> node \<Rightarrow> fs_error + node" where
  "put_file p b n =
     bind_res (create_dir_all (butlast p) n) (write_file (fst b) (snd b) p)"

section \<open>A tree as a map from paths to contents\<close>

definition content :: "node option \<Rightarrow> (byte list \<times> file_meta) option" where
  "content n = (case n of Some (File bs m) \<Rightarrow> Some (bs, m) | _ \<Rightarrow> None)"

definition files :: "node \<Rightarrow> string list \<Rightarrow> (byte list \<times> file_meta) option" where
  "files n p = content (lookup n p)"

text \<open>\<open>put_file\<close> can succeed: every directory above is absent or a directory, and the path
  itself is free or a file.\<close>

fun writable :: "node \<Rightarrow> string list \<Rightarrow> bool" where
  "writable (Dir es) [x] =
     (case map_of es x of Some (Dir ds) \<Rightarrow> False | Some Special \<Rightarrow> False | _ \<Rightarrow> True)"
| "writable (Dir es) (x # y # p) =
     (case map_of es x of None \<Rightarrow> True | Some n \<Rightarrow> writable n (y # p))"
| "writable _ _ = False"

definition apart :: "string list \<Rightarrow> string list \<Rightarrow> bool" where
  "apart p q = (\<not> strict_prefix p q \<and> \<not> strict_prefix q p)"

lemma content_simps [simp]:
  "content None = None" "content (Some (Dir es)) = None" "content (Some Special) = None"
  "content (Some (File bs m)) = Some (bs, m)"
  by (simp_all add: content_def)

lemma files_simps [simp]:
  "files (Dir es) [] = None"
  "files (Dir es) (x # p) = (case map_of es x of None \<Rightarrow> None | Some n \<Rightarrow> files n p)"
  "files (File bs m) [] = Some (bs, m)"
  "files (File bs m) (x # p) = None"
  "files Special p = None"
  by (cases p; simp add: files_def split: option.splits)+

lemma content_Some_iff: "content n = Some b \<longleftrightarrow> n = Some (File (fst b) (snd b))"
  by (cases b) (auto simp: content_def split: option.splits node.splits)

lemma files_Some_iff: "files n p = Some b \<longleftrightarrow> lookup n p = Some (File (fst b) (snd b))"
  by (simp add: files_def content_Some_iff)

lemma read_file_Inr_iff: "read_file n p = Inr bs \<longleftrightarrow> (\<exists>m. files n p = Some (bs, m))"
  by (auto simp: read_file_def files_Some_iff split: option.splits node.splits)

lemma files_not_below: "files n p = Some b \<Longrightarrow> strict_prefix p q \<Longrightarrow> files n q = None"
proof (induction n p arbitrary: q rule: lookup.induct)
  case (1 n)
  then show ?case by (cases q; cases n) (auto simp: files_Some_iff)
next
  case (2 es x p)
  then show ?case by (cases q) (auto split: option.splits)
qed (auto simp: files_def)

lemma files_of_None: "map_of es x = None \<Longrightarrow> files (Dir es) (x # p) = None"
  by simp

text \<open>
  A change of one entry is a change at that path, when what lies below the entry has no files
  before or after: writing and removing a file are such changes.
\<close>

definition below :: "node option \<Rightarrow> string list \<Rightarrow> (byte list \<times> file_meta) option" where
  "below m q = (case m of None \<Rightarrow> None | Some k \<Rightarrow> files k q)"

lemma files_Dir_below: "files (Dir es) (x # p) = below (map_of es x) p"
  by (simp add: below_def)

lemma below_Nil: "below m [] = content m"
  by (cases m; cases "the m") (auto simp: below_def)

lemma modify_files:
  assumes "modify f p n = Inr n'"
    and f: "\<And>m v q. f m = Inr v \<Longrightarrow> q \<noteq> [] \<Longrightarrow> below v q = below m q"
  shows "\<exists>m v. f m = Inr v \<and> content m = files n p \<and> files n' = (files n)(p := content v)"
  using assms(1)
proof (induction p arbitrary: n n')
  case Nil
  then show ?case by simp
next
  case (Cons x p)
  then obtain es where n: "n = Dir es" by (cases n; cases p) auto
  show ?case
  proof (cases p)
    case Nil
    with Cons.prems n obtain v where v: "f (map_of es x) = Inr v"
      and n': "n' = (case v of None \<Rightarrow> Dir (AList.delete x es) | Some k \<Rightarrow> Dir (AList.update x k es))"
      by (auto split: sum.splits option.splits)
    have n'_at: "files n' (y # r) = (if y = x then below v r else files n (y # r))" for y r
      using n n' by (cases v) (auto simp: below_def update_conv' delete_conv' split: option.splits)
    have "files n' q = ((files n)([x] := content v)) q" for q
    proof (cases q)
      case Nil
      with n n' show ?thesis by (cases v) auto
    next
      case q: (Cons y r)
      with n'_at [of y r] f [OF v, of r] show ?thesis
        by (cases "r = []") (auto simp: n files_Dir_below below_Nil simp del: files_simps)
    qed
    with v Nil n show ?thesis
      by (intro exI [of _ "map_of es x"] exI [of _ v])
        (auto simp: files_Dir_below below_Nil fun_eq_iff simp del: files_simps)
  next
    case p: (Cons y p')
    with Cons.prems n obtain k k' where k: "map_of es x = Some k" and k': "modify f p k = Inr k'"
      and n': "n' = Dir (AList.update x k' es)"
      by (auto split: sum.splits option.splits)
    from Cons.IH [OF k'] obtain m v where mv: "f m = Inr v" "content m = files k p"
      "files k' = (files k)(p := content v)" by blast
    have "files n' q = ((files n)(x # p := content v)) q" for q
      using n n' k mv(3) by (cases q) (auto simp: update_conv' split: option.splits)
    with mv n k show ?thesis by (intro exI [of _ m] exI [of _ v]) (auto simp: fun_eq_iff)
  qed
qed

lemma write_node_below: "write_node bs m k = Inr v \<Longrightarrow> q \<noteq> [] \<Longrightarrow> below v q = below k q"
  by (cases q; cases "(bs, m, k)" rule: write_node.cases) (auto simp: below_def)

lemma remove_node_below: "remove_node k = Inr v \<Longrightarrow> q \<noteq> [] \<Longrightarrow> below v q = below k q"
  by (cases q; cases k; cases "the k") (auto simp: below_def)

lemma write_node_content: "write_node bs m k = Inr v \<Longrightarrow> content v = Some (bs, m)"
  by (cases "(bs, m, k)" rule: write_node.cases) auto

lemma remove_node_content: "remove_node k = Inr v \<Longrightarrow> content v = None"
  by (cases k; cases "the k") auto

lemma write_file_files: "write_file bs m p n = Inr n' \<Longrightarrow> files n' = (files n)(p \<mapsto> (bs, m))"
  unfolding write_file_def
  by (drule modify_files, erule (1) write_node_below) (auto dest: write_node_content)

lemma remove_file_files: "remove_file p n = Inr n' \<Longrightarrow> files n' = (files n)(p := None)"
  unfolding remove_file_def
  by (drule modify_files, erule (1) remove_node_below) (auto dest: remove_node_content)

lemma files_empty_dir: "files (Dir []) q = None"
  by (cases q) auto

lemma create_dir_all_files: "create_dir_all p n = Inr n' \<Longrightarrow> files n' = files n"
proof (induction p n arbitrary: n' rule: create_dir_all.induct)
  case (2 x p es)
  let ?k = "case map_of es x of None \<Rightarrow> Dir [] | Some n \<Rightarrow> n"
  from 2(2) obtain k' where k': "create_dir_all p ?k = Inr k'" and n': "n' = Dir (AList.update x k' es)"
    by (auto split: sum.splits)
  from 2(1) k' have "files k' = files ?k" by simp
  then have "files n' q = files (Dir es) q" for q
    using n' by (cases q) (auto simp: update_conv' files_empty_dir split: option.splits)
  then show ?case by (simp add: fun_eq_iff)
qed auto

lemma put_file_files: "put_file p b n = Inr n' \<Longrightarrow> files n' = (files n)(p \<mapsto> b)"
  unfolding put_file_def bind_res_Inr_iff
  by (elim exE conjE, drule create_dir_all_files, drule write_file_files) simp

text \<open>A write to a writable path succeeds, and leaves every path apart from it writable.\<close>

lemma put_file_Cons:
  "put_file (x # y # p) b (Dir es) =
     (case put_file (y # p) b (case map_of es x of None \<Rightarrow> Dir [] | Some n \<Rightarrow> n) of
        Inl e \<Rightarrow> Inl e
      | Inr k' \<Rightarrow> Inr (Dir (AList.update x k' es)))"
  by (cases "create_dir_all (butlast (y # p)) (case map_of es x of None \<Rightarrow> Dir [] | Some n \<Rightarrow> n)")
    (auto simp: put_file_def write_file_def update_conv' split: sum.splits)

lemma put_file_single:
  "put_file [x] b (Dir es) =
     (case map_of es x of
        Some (Dir ds) \<Rightarrow> Inl IsADirectory
      | Some Special \<Rightarrow> Inl Unsupported
      | _ \<Rightarrow> Inr (Dir (AList.update x (File (fst b) (snd b)) es)))"
  by (auto simp: put_file_def write_file_def split: option.splits node.splits)

lemma writable_empty_dir: "p \<noteq> [] \<Longrightarrow> writable (Dir []) p"
  by (cases p; cases "tl p") auto

lemma writable_not_dir: "writable n p \<Longrightarrow> \<exists>es. n = Dir es"
  by (cases n; cases p) auto

lemma put_file_ok: "writable n p \<Longrightarrow> \<exists>n'. put_file p b n = Inr n'"
proof (induction n p rule: writable.induct)
  case (1 es x)
  then show ?case by (auto simp: put_file_single split: option.splits node.splits)
next
  case (2 es x y p)
  have "\<exists>k'. put_file (y # p) b (Dir []) = Inr k'"
  proof (induction p arbitrary: y)
    case Nil
    then show ?case by (simp add: put_file_single)
  next
    case (Cons z p)
    then obtain k' where "put_file (z # p) b (Dir []) = Inr k'" by blast
    then show ?case by (simp add: put_file_Cons)
  qed
  with 2 show ?case by (fastforce simp: put_file_Cons split: option.splits)
qed auto

lemma writable_iff_put_file: "writable n p \<longleftrightarrow> is_ok (put_file p b n)"
proof
  assume "is_ok (put_file p b n)"
  then show "writable n p"
  proof (induction n p rule: writable.induct)
    case (1 es x)
    then show ?case by (auto simp: put_file_single split: option.splits node.splits)
  next
    case (2 es x y p)
    then show ?case by (auto simp: put_file_Cons split: option.splits sum.splits)
  qed (auto simp: put_file_def write_file_def bind_res_def split: sum.splits)
qed (use put_file_ok [of n p b] in \<open>auto simp: is_ok_iff\<close>)

lemma apart_Cons: "apart (x # p) (y # q) \<longleftrightarrow> x \<noteq> y \<or> apart p q"
  by (auto simp: apart_def strict_prefix_def)

lemma put_file_not_Nil: "put_file p b n = Inr n' \<Longrightarrow> p \<noteq> []"
  by (auto simp: put_file_def write_file_def bind_res_def split: sum.splits)

lemma put_file_writable:
  "put_file p b n = Inr n' \<Longrightarrow> writable n q \<Longrightarrow> apart p q \<Longrightarrow> writable n' q"
proof (induction q arbitrary: p n n')
  case Nil
  then show ?case by (cases n) auto
next
  case (Cons x q)
  from Cons.prems obtain es where n: "n = Dir es" using writable_not_dir by blast
  from put_file_not_Nil [OF Cons.prems(1)] obtain w p' where p: "p = w # p'" by (cases p) auto
  show ?case
  proof (cases p')
    case Nil
    with Cons.prems n p show ?thesis
      by (cases q) (auto simp: put_file_single update_conv' apart_Cons apart_def strict_prefix_def
        split: option.splits node.splits)
  next
    case p': (Cons z p'')
    let ?k = "case map_of es w of None \<Rightarrow> Dir [] | Some n \<Rightarrow> n"
    from Cons.prems n p p' obtain k' where k': "put_file p' b ?k = Inr k'"
      and n': "n' = Dir (AList.update w k' es)"
      by (auto simp: put_file_Cons split: sum.splits)
    show ?thesis
    proof (cases q)
      case Nil
      with Cons.prems p p' have "x \<noteq> w" by (auto simp: apart_def strict_prefix_def)
      with Cons.prems n n' Nil show ?thesis by (simp add: update_conv')
    next
      case q: (Cons y q')
      show ?thesis
      proof (cases "w = x")
        case True
        with Cons.prems q n have "writable ?k q"
          by (auto simp: writable_empty_dir split: option.splits)
        moreover from True Cons.prems p have "apart p' q" by (simp add: apart_Cons)
        ultimately have "writable k' q" by (rule Cons.IH [OF k'])
        with n' True q show ?thesis by (simp add: update_conv')
      next
        case False
        with Cons.prems n n' q show ?thesis by (simp add: update_conv')
      qed
    qed
  qed
qed

section \<open>The interface of a file system\<close>

text \<open>
  What the code that writes files relies on: a write sets the contents at one path, it succeeds
  where the path is writable, and it does not make a path apart from it unwritable. From this
  follows what a sequence of writes to pairwise apart paths does.
\<close>

fun put_all :: "('p \<Rightarrow> 'b \<Rightarrow> 'n \<Rightarrow> 'e + 'n) \<Rightarrow> ('p \<times> 'b) list \<Rightarrow> 'n \<Rightarrow> 'e + 'n" where
  "put_all put [] n = Inr n"
| "put_all put ((p, b) # ws) n = bind_res (put p b n) (put_all put ws)"

locale file_system =
  fixes get :: "'n \<Rightarrow> 'p \<Rightarrow> 'b option"
    and put :: "'p \<Rightarrow> 'b \<Rightarrow> 'n \<Rightarrow> 'e + 'n"
    and can :: "'n \<Rightarrow> 'p \<Rightarrow> bool"
    and sep :: "'p \<Rightarrow> 'p \<Rightarrow> bool"
  assumes put_get: "put p b n = Inr n' \<Longrightarrow> get n' = (get n)(p \<mapsto> b)"
    and put_can: "can n p \<Longrightarrow> \<exists>n'. put p b n = Inr n'"
    and put_keeps: "put p b n = Inr n' \<Longrightarrow> can n q \<Longrightarrow> sep p q \<Longrightarrow> can n' q"
begin

lemma put_all_get: "put_all put ws n = Inr n' \<Longrightarrow> get n' = get n ++ map_of (rev ws)"
proof (induction ws arbitrary: n)
  case Nil
  then show ?case by simp
next
  case (Cons w ws)
  obtain p b where w: "w = (p, b)" by (cases w)
  with Cons.prems obtain n1 where "put p b n = Inr n1" "put_all put ws n1 = Inr n'"
    by (auto simp: bind_res_Inr_iff)
  then have "get n' = (get n)(p \<mapsto> b) ++ map_of (rev ws)"
    using Cons.IH [of n1] put_get [of p b n n1] by metis
  then show ?case by (simp add: w map_add_def fun_eq_iff split: option.splits)
qed

lemma put_all_frame:
  "put_all put ws n = Inr n' \<Longrightarrow> p \<notin> fst ` set ws \<Longrightarrow> get n' p = get n p"
  by (auto simp: put_all_get map_add_def map_of_eq_None_iff split: option.splits dest: map_of_SomeD)
    (metis fst_conv image_eqI map_of_SomeD set_rev)

lemma put_all_ok:
  "\<forall>p \<in> fst ` set ws. can n p \<Longrightarrow> \<forall>p \<in> fst ` set ws. \<forall>q \<in> fst ` set ws. sep p q \<Longrightarrow>
   \<exists>n'. put_all put ws n = Inr n'"
proof (induction ws arbitrary: n)
  case Nil
  then show ?case by simp
next
  case (Cons w ws)
  obtain p b where w: "w = (p, b)" by (cases w)
  with Cons.prems put_can [of n p b] obtain n1 where n1: "put p b n = Inr n1" by auto
  have "\<forall>q \<in> fst ` set ws. can n1 q"
    using Cons.prems w put_keeps [OF n1] by auto
  with Cons n1 w show ?case by simp
qed

end

interpretation tree: file_system files put_file writable apart
  by unfold_locales (auto intro: put_file_files put_file_ok put_file_writable)

end
