(* ===== verification/Snapshot.thy ===== *)
theory Snapshot
  imports Core_Types Fs "HOL-Library.Char_ord" "HOL-Library.List_Lexorder"
begin

text \<open>
  Snapshots (\<open>savr-core/src/snapshot.rs\<close>): the state of a game's saves on disk, and the
  difference of two snapshots that decides whether and what to back up. The glob library is a
  pair of parameters (what a pattern matches in the file system, and whether a pattern matches a
  string), and so is BLAKE3. The walk of a directory is a recursion on the tree at the path.
\<close>

section \<open>Definitions\<close>

datatype core_error = IoErr fs_error | ManifestErr string | HashErr string | GlobErr string

record snapshot =
  sn_game_id :: uuid
  sn_files :: "file_entry list"
  sn_taken_at :: time

definition rel_path :: "path \<Rightarrow> path \<Rightarrow> string" where
  "rel_path p anchor =
     slash_join (case path_strip_prefix p anchor of Some r \<Rightarrow> r | None \<Rightarrow> p)"

text \<open>Milliseconds since the epoch, cut to an \<open>i64\<close>; a time before the epoch is zero.\<close>

definition mtime_millis :: "file_meta \<Rightarrow> int" where
  "mtime_millis m =
     (if fm_mtime m < 0 then 0 else sint (word_of_int (fm_mtime m div 1000000) :: 64 word))"

definition entry_of :: "(byte list \<Rightarrow> blake3_hash) \<Rightarrow> string \<Rightarrow> byte list \<Rightarrow> file_meta \<Rightarrow> file_entry" where
  "entry_of blake3 rel bs m =
     \<lparr>fe_rel_path = rel, fe_size = of_nat (length bs), fe_mtime = mtime_millis m,
      fe_hash = blake3 bs\<rparr>"

fun collect_node ::
  "(byte list \<Rightarrow> blake3_hash) \<Rightarrow> (string \<Rightarrow> bool) list \<Rightarrow> path \<Rightarrow> path \<Rightarrow> node \<Rightarrow>
   (string \<times> file_entry) list \<Rightarrow> (string \<times> file_entry) list"
and collect_entries ::
  "(byte list \<Rightarrow> blake3_hash) \<Rightarrow> (string \<Rightarrow> bool) list \<Rightarrow> path \<Rightarrow> path \<Rightarrow> (string \<times> node) list \<Rightarrow>
   (string \<times> file_entry) list \<Rightarrow> (string \<times> file_entry) list" where
  "collect_node blake3 excludes anchor p (Dir es) out =
     collect_entries blake3 excludes anchor p es out"
| "collect_node blake3 excludes anchor p (File bs m) out =
     (let rel = rel_path p anchor;
          rel_norm = replace_char (CHR 0x5C) (CHR ''/'') rel
      in if list_ex (\<lambda>g. g rel_norm) excludes then out
         else bt_insert rel (entry_of blake3 rel bs m) out)"
| "collect_node blake3 excludes anchor p Special out = out"
| "collect_entries blake3 excludes anchor p [] out = out"
| "collect_entries blake3 excludes anchor p ((x, n) # es) out =
     collect_entries blake3 excludes anchor p es
       (collect_node blake3 excludes anchor (path_join p [Normal x]) n out)"

definition collect ::
  "(byte list \<Rightarrow> blake3_hash) \<Rightarrow> node \<Rightarrow> (string \<Rightarrow> bool) list \<Rightarrow> path \<Rightarrow> path \<Rightarrow>
   (string \<times> file_entry) list \<Rightarrow> core_error + (string \<times> file_entry) list" where
  "collect blake3 fs excludes anchor p out =
     (case lookup fs (loc p) of
        None \<Rightarrow> Inl (IoErr NotFound)
      | Some n \<Rightarrow> Inr (collect_node blake3 excludes anchor p n out))"

fun collect_all ::
  "(byte list \<Rightarrow> blake3_hash) \<Rightarrow> node \<Rightarrow> (string \<Rightarrow> bool) list \<Rightarrow> path \<Rightarrow> path list \<Rightarrow>
   (string \<times> file_entry) list \<Rightarrow> core_error + (string \<times> file_entry) list" where
  "collect_all blake3 fs excludes anchor [] out = Inr out"
| "collect_all blake3 fs excludes anchor (p # ps) out =
     bind_res (collect blake3 fs excludes anchor p out) (collect_all blake3 fs excludes anchor ps)"

fun collect_patterns ::
  "(byte list \<Rightarrow> blake3_hash) \<Rightarrow> (node \<Rightarrow> string \<Rightarrow> string + path list) \<Rightarrow> node \<Rightarrow>
   (string \<Rightarrow> bool) list \<Rightarrow> path \<Rightarrow> string list \<Rightarrow>
   (string \<times> file_entry) list \<Rightarrow> core_error + (string \<times> file_entry) list" where
  "collect_patterns blake3 glob fs excludes anchor [] out = Inr out"
| "collect_patterns blake3 glob fs excludes anchor (pat # pats) out =
     (case glob fs pat of
        Inl e \<Rightarrow> Inl (GlobErr e)
      | Inr ps \<Rightarrow>
          bind_res (collect_all blake3 fs excludes anchor ps out)
            (collect_patterns blake3 glob fs excludes anchor pats))"

text \<open>An exclude that is not a pattern is dropped (\<open>filter_map(.. .ok())\<close>).\<close>

definition build ::
  "(byte list \<Rightarrow> blake3_hash) \<Rightarrow> (node \<Rightarrow> string \<Rightarrow> string + path list) \<Rightarrow>
   (string \<Rightarrow> (string \<Rightarrow> bool) option) \<Rightarrow> node \<Rightarrow> time \<Rightarrow> uuid \<Rightarrow> string list \<Rightarrow> string list \<Rightarrow> path \<Rightarrow>
   core_error + snapshot" where
  "build blake3 glob pattern fs now game_id patterns excludes anchor =
     bind_res
       (collect_patterns blake3 glob fs (List.map_filter pattern excludes) anchor patterns [])
       (\<lambda>files. Inr \<lparr>sn_game_id = game_id, sn_files = map snd files, sn_taken_at = now\<rparr>)"

record diff =
  df_changed :: "file_entry list"
  df_deleted :: "string list"

definition diff_is_empty :: "diff \<Rightarrow> bool" where
  "diff_is_empty d = (df_changed d = [] \<and> df_deleted d = [])"

text \<open>The index of a file list by path; \<open>collect()\<close> into a map keeps the last of two equal keys.\<close>

definition by_path :: "file_entry list \<Rightarrow> string \<Rightarrow> file_entry option" where
  "by_path fs = map_of (rev (map (\<lambda>f. (fe_rel_path f, f)) fs))"

definition snapshot_diff :: "snapshot \<Rightarrow> snapshot \<Rightarrow> diff" where
  "snapshot_diff old new =
     \<lparr>df_changed =
        filter (\<lambda>f. case by_path (sn_files old) (fe_rel_path f) of
                      Some o' \<Rightarrow> fe_hash o' \<noteq> fe_hash f | None \<Rightarrow> True) (sn_files new),
      df_deleted =
        map fe_rel_path
          (filter (\<lambda>f. by_path (sn_files new) (fe_rel_path f) = None) (sn_files old))\<rparr>"

section \<open>What a snapshot contains\<close>

text \<open>The regular files at and below a path, in the order of the walk.\<close>

fun leaves :: "path \<Rightarrow> node \<Rightarrow> (path \<times> byte list \<times> file_meta) list"
and leaves_entries :: "path \<Rightarrow> (string \<times> node) list \<Rightarrow> (path \<times> byte list \<times> file_meta) list" where
  "leaves p (Dir es) = leaves_entries p es"
| "leaves p (File bs m) = [(p, bs, m)]"
| "leaves p Special = []"
| "leaves_entries p [] = []"
| "leaves_entries p ((x, n) # es) = leaves (p @ [Normal x]) n @ leaves_entries p es"

definition valid_name :: "string \<Rightarrow> bool" where
  "valid_name x = (x \<noteq> '''' \<and> x \<noteq> ''.'' \<and> x \<noteq> ''..'' \<and> CHR ''/'' \<notin> set x)"

fun wf_node :: "node \<Rightarrow> bool" and wf_entries :: "(string \<times> node) list \<Rightarrow> bool" where
  "wf_node (Dir es) = wf_entries es"
| "wf_node (File bs m) = True"
| "wf_node Special = True"
| "wf_entries [] = True"
| "wf_entries ((x, n) # es) = (valid_name x \<and> x \<notin> fst ` set es \<and> wf_node n \<and> wf_entries es)"

definition excluded :: "(string \<Rightarrow> bool) list \<Rightarrow> string \<Rightarrow> bool" where
  "excluded excludes rel = list_ex (\<lambda>g. g (replace_char (CHR 0x5C) (CHR ''/'') rel)) excludes"

definition leaf_entry ::
  "(byte list \<Rightarrow> blake3_hash) \<Rightarrow> path \<Rightarrow> path \<times> byte list \<times> file_meta \<Rightarrow> string \<times> file_entry" where
  "leaf_entry blake3 anchor l =
     (case l of (p, bs, m) \<Rightarrow> (rel_path p anchor, entry_of blake3 (rel_path p anchor) bs m))"

definition add_leaf ::
  "(byte list \<Rightarrow> blake3_hash) \<Rightarrow> (string \<Rightarrow> bool) list \<Rightarrow> path \<Rightarrow> path \<times> byte list \<times> file_meta \<Rightarrow>
   (string \<times> file_entry) list \<Rightarrow> (string \<times> file_entry) list" where
  "add_leaf blake3 excludes anchor l out =
     (if excluded excludes (rel_path (fst l) anchor) then out
      else bt_insert (rel_path (fst l) anchor) (snd (leaf_entry blake3 anchor l)) out)"

definition matched :: "(node \<Rightarrow> string \<Rightarrow> string + path list) \<Rightarrow> node \<Rightarrow> string list \<Rightarrow> path list" where
  "matched glob fs pats = concat (map (\<lambda>pat. case glob fs pat of Inl _ \<Rightarrow> [] | Inr ps \<Rightarrow> ps) pats)"

definition leaves_at :: "node \<Rightarrow> path \<Rightarrow> (path \<times> byte list \<times> file_meta) list" where
  "leaves_at fs p = (case lookup fs (loc p) of None \<Rightarrow> [] | Some n \<Rightarrow> leaves p n)"

lemma path_join_Normal [simp]: "path_join p [Normal x] = p @ [Normal x]"
  by (simp add: path_join_def is_absolute_def)

lemma collect_node_leaves:
  "collect_node blake3 excludes anchor p n out = fold (add_leaf blake3 excludes anchor) (leaves p n) out"
  "collect_entries blake3 excludes anchor p es out =
     fold (add_leaf blake3 excludes anchor) (leaves_entries p es) out"
  by (induction blake3 excludes anchor p n out and blake3 excludes anchor p es out
      rule: collect_node_collect_entries.induct)
    (auto simp: add_leaf_def leaf_entry_def excluded_def Let_def)

lemma collect_all_leaves:
  "collect_all blake3 fs excludes anchor ps out = Inr out' \<Longrightarrow>
   out' = fold (add_leaf blake3 excludes anchor) (concat (map (leaves_at fs) ps)) out \<and>
   (\<forall>p \<in> set ps. lookup fs (loc p) \<noteq> None)"
proof (induction ps arbitrary: out)
  case Nil
  then show ?case by simp
next
  case (Cons p ps)
  then show ?case
    by (auto simp: collect_def leaves_at_def collect_node_leaves split: option.splits)
qed

lemma collect_patterns_leaves:
  "collect_patterns blake3 glob fs excludes anchor pats out = Inr out' \<Longrightarrow>
   out' = fold (add_leaf blake3 excludes anchor)
            (concat (map (leaves_at fs) (matched glob fs pats))) out \<and>
   (\<forall>p \<in> set (matched glob fs pats). lookup fs (loc p) \<noteq> None)"
proof (induction pats arbitrary: out)
  case Nil
  then show ?case by (simp add: matched_def)
next
  case (Cons pat pats)
  then obtain ps out1 where ps: "glob fs pat = Inr ps"
    and 1: "collect_all blake3 fs excludes anchor ps out = Inr out1"
    and 2: "collect_patterns blake3 glob fs excludes anchor pats out1 = Inr out'"
    by (auto simp: bind_res_Inr_iff split: sum.splits)
  from ps have "matched glob fs (pat # pats) = ps @ matched glob fs pats"
    by (simp add: matched_def)
  with Cons.IH [OF 2] collect_all_leaves [OF 1] show ?case by auto
qed

lemma add_leaf_sorted: "bt_sorted out \<Longrightarrow> bt_sorted (fold (add_leaf blake3 ex anchor) ls out)"
  by (induction ls arbitrary: out) (auto simp: add_leaf_def bt_insert_sorted)

lemma bt_insert_set: "kv \<in> set (bt_insert k v xs) \<Longrightarrow> kv = (k, v) \<or> kv \<in> set xs"
  by (induction k v xs rule: bt_insert.induct) (auto split: if_splits)

lemma leaf_entry_fst: "fst (leaf_entry blake3 anchor l) = rel_path (fst l) anchor"
  by (cases l) (simp add: leaf_entry_def)

lemma leaf_entry_rel: "fe_rel_path (snd (leaf_entry blake3 anchor l)) = rel_path (fst l) anchor"
  by (cases l) (simp add: leaf_entry_def entry_of_def)

lemma add_leaf_keys:
  "\<forall>kv \<in> set out. fe_rel_path (snd kv) = fst kv \<Longrightarrow>
   \<forall>kv \<in> set (fold (add_leaf blake3 ex anchor) ls out). fe_rel_path (snd kv) = fst kv"
proof (induction ls arbitrary: out)
  case Nil
  then show ?case by simp
next
  case (Cons l ls)
  have "\<forall>kv \<in> set (add_leaf blake3 ex anchor l out). fe_rel_path (snd kv) = fst kv"
    using Cons.prems by (auto simp: add_leaf_def leaf_entry_rel dest!: bt_insert_set)
  with Cons.IH show ?case by simp
qed

lemma add_leaf_map:
  "map_of (fold (add_leaf blake3 ex anchor) ls out) r =
     (case map_of (rev (map (leaf_entry blake3 anchor)
        (filter (\<lambda>l. \<not> excluded ex (rel_path (fst l) anchor)) ls))) r of
        Some e \<Rightarrow> Some e | None \<Rightarrow> map_of out r)"
proof (induction ls arbitrary: out)
  case Nil
  then show ?case by simp
next
  case (Cons l ls)
  obtain e where "leaf_entry blake3 anchor l = (rel_path (fst l) anchor, e)"
    by (metis leaf_entry_fst prod.collapse)
  with Cons show ?case
    by (auto simp: add_leaf_def map_of_bt_insert map_add_def split: option.splits)
qed

text \<open>The files of a snapshot are sorted by path, each path once, and are the files below the
  matched paths that no exclude matches.\<close>

lemma build_files:
  assumes "build blake3 glob pattern fs now g pats excl anchor = Inr s"
  obtains out where "sn_files s = map snd out" and "bt_sorted out"
    and "\<forall>kv \<in> set out. fe_rel_path (snd kv) = fst kv"
    and "map_of out = map_of (rev (map (leaf_entry blake3 anchor)
           (filter (\<lambda>l. \<not> excluded (List.map_filter pattern excl) (rel_path (fst l) anchor))
              (concat (map (leaves_at fs) (matched glob fs pats))))))"
    and "\<forall>p \<in> set (matched glob fs pats). lookup fs (loc p) \<noteq> None"
proof -
  from assms obtain out where out:
      "collect_patterns blake3 glob fs (List.map_filter pattern excl) anchor pats [] = Inr out"
    and s: "sn_files s = map snd out"
    by (auto simp: build_def bind_res_Inr_iff)
  note l = collect_patterns_leaves [OF out]
  show thesis
  proof (rule that [OF s])
    show "bt_sorted out" using l by (simp add: add_leaf_sorted)
    show "\<forall>kv \<in> set out. fe_rel_path (snd kv) = fst kv"
      using l add_leaf_keys [of "[]"] by simp
    show "map_of out = map_of (rev (map (leaf_entry blake3 anchor)
           (filter (\<lambda>l. \<not> excluded (List.map_filter pattern excl) (rel_path (fst l) anchor))
              (concat (map (leaves_at fs) (matched glob fs pats))))))"
      by (rule ext, subst l [THEN conjunct1], subst add_leaf_map) (simp split: option.splits)
  qed (use l in simp)
qed

lemma build_rel_paths:
  assumes "build blake3 glob pattern fs now g pats excl anchor = Inr s"
  shows "sorted_wrt (<) (map fe_rel_path (sn_files s))"
proof -
  from assms obtain out where out: "sn_files s = map snd out" "bt_sorted out"
    "\<forall>kv \<in> set out. fe_rel_path (snd kv) = fst kv" by (rule build_files)
  then have "map fe_rel_path (sn_files s) = map fst out" by simp
  with out(2) show ?thesis by (simp only: bt_sorted_def)
qed

section \<open>Snapshot against the tree\<close>

lemma wf_entries_distinct: "wf_entries es \<Longrightarrow> distinct (map fst es)"
  by (induction es rule: list.induct) (auto simp del: set_map simp: set_map [symmetric])

lemma leaves_iff:
  "wf_node n \<Longrightarrow> (p', bs, m) \<in> set (leaves p n) \<longleftrightarrow> (\<exists>q. p' = p @ map Normal q \<and> files n q = Some (bs, m))"
  "wf_entries es \<Longrightarrow> (p', bs, m) \<in> set (leaves_entries p es) \<longleftrightarrow>
     (\<exists>x n q. (x, n) \<in> set es \<and> p' = p @ Normal x # map Normal q \<and> files n q = Some (bs, m))"
proof (induction p n and p es rule: leaves_leaves_entries.induct)
  case (1 p es)
  then have "map_of es x = Some n \<longleftrightarrow> (x, n) \<in> set es" for x n
    using wf_entries_distinct [of es] by simp
  then have "files (Dir es) (x # q) = Some (bs, m) \<longleftrightarrow> (\<exists>n. (x, n) \<in> set es \<and> files n q = Some (bs, m))" for x q
    by (fastforce split: option.splits)
  then have "(\<exists>q. p' = p @ map Normal q \<and> files (Dir es) q = Some (bs, m)) \<longleftrightarrow>
      (\<exists>x n q. (x, n) \<in> set es \<and> p' = p @ Normal x # map Normal q \<and> files n q = Some (bs, m))"
    by (subst ex_list_Cons) auto
  with 1 show ?case by simp
next
  case (2 p bs' m')
  have "files (File bs' m') q = Some (bs, m) \<longleftrightarrow> q = [] \<and> bs' = bs \<and> m' = m" for q
    by (cases q) auto
  then show ?case by auto
next
  case (5 p x n es)
  then have "(p', bs, m) \<in> set (leaves (p @ [Normal x]) n) \<longleftrightarrow>
      (\<exists>q. p' = p @ Normal x # map Normal q \<and> files n q = Some (bs, m))" by simp
  with 5 show ?case by auto
qed auto

lemma loc_from_append: "loc_from d (p @ q) = loc_from (loc_from d p) q"
  by (induction d p rule: loc_from.induct) auto

lemma loc_from_Normal: "loc_from d (map Normal q) = d @ q"
  by (induction q arbitrary: d) auto

lemma loc_append_Normal [simp]: "loc (p @ map Normal q) = loc p @ q"
  by (simp add: loc_def loc_from_append loc_from_Normal)

lemma lookup_append:
  "lookup n (p @ q) = (case lookup n p of None \<Rightarrow> None | Some k \<Rightarrow> lookup k q)"
  by (induction n p rule: lookup.induct) (auto split: option.splits)

lemma files_lookup: "lookup fs p = Some n \<Longrightarrow> files fs (p @ q) = files n q"
  by (simp add: files_def lookup_append)

lemma wf_entries_mem: "wf_entries es \<Longrightarrow> (x, n) \<in> set es \<Longrightarrow> valid_name x \<and> wf_node n"
  by (induction es rule: list.induct) auto

lemma lookup_wf: "lookup n p = Some k \<Longrightarrow> wf_node n \<Longrightarrow> wf_node k \<and> list_all valid_name p"
proof (induction n p rule: lookup.induct)
  case (2 es x p)
  then show ?case by (auto split: option.splits dest: map_of_SomeD wf_entries_mem)
qed auto

lemma files_valid: "files fs p = Some b \<Longrightarrow> wf_node fs \<Longrightarrow> list_all valid_name p"
  by (auto simp: files_Some_iff dest: lookup_wf)

lemma rel_path_under: "rel_path (anchor @ r) anchor = slash_join r"
  by (simp add: rel_path_def path_strip_prefix_def)

lemma slash_join_Normal: "slash_join (map Normal q) = join_with ''/'' q"
  by (simp add: slash_join_def comp_def)

lemma rel_path_anchor [simp]: "rel_path (anchor @ map Normal q) anchor = join_with ''/'' q"
  by (simp add: rel_path_under slash_join_Normal)

lemma join_with_empty: "list_all valid_name q \<Longrightarrow> join_with ''/'' q = '''' \<Longrightarrow> q = []"
  by (cases q; cases "tl q") (auto simp: valid_name_def)

lemma join_with_inject:
  assumes "list_all valid_name q" and "list_all valid_name q'"
    and eq: "join_with ''/'' q = join_with ''/'' q'"
  shows "q = q'"
proof (cases "q = [] \<or> q' = []")
  case True
  with assms join_with_empty show ?thesis by (metis join_with.simps(1))
next
  case False
  have "\<forall>w \<in> set q. CHR ''/'' \<notin> set w" "\<forall>w \<in> set q'. CHR ''/'' \<notin> set w"
    using assms by (auto simp: list_all_iff valid_name_def)
  with False eq show ?thesis by (metis split_join_on)
qed

text \<open>
  A file is found by a walk of the paths that the patterns match: its path is the anchor followed
  by the names \<open>q\<close>, and a matched path is above it.
\<close>

definition found :: "(node \<Rightarrow> string \<Rightarrow> string + path list) \<Rightarrow> node \<Rightarrow> string list \<Rightarrow> path \<Rightarrow> string list \<Rightarrow> bool" where
  "found glob fs pats anchor q =
     (\<exists>q0. anchor @ map Normal q0 \<in> set (matched glob fs pats) \<and> prefix q0 q)"

definition under_anchor :: "(node \<Rightarrow> string \<Rightarrow> string + path list) \<Rightarrow> node \<Rightarrow> string list \<Rightarrow> path \<Rightarrow> bool" where
  "under_anchor glob fs pats anchor =
     (\<forall>p \<in> set (matched glob fs pats). \<exists>q0. p = anchor @ map Normal q0)"

lemma leaves_matched_iff:
  assumes "wf_node fs" and "under_anchor glob fs pats anchor"
  shows "(p', bs, m) \<in> set (concat (map (leaves_at fs) (matched glob fs pats))) \<longleftrightarrow>
     (\<exists>q. p' = anchor @ map Normal q \<and> files fs (loc anchor @ q) = Some (bs, m) \<and>
          found glob fs pats anchor q)" (is "?l \<longleftrightarrow> ?r")
proof -
  have at: "(p', bs, m) \<in> set (leaves_at fs (anchor @ map Normal q0)) \<longleftrightarrow>
      (\<exists>q. prefix q0 q \<and> p' = anchor @ map Normal q \<and> files fs (loc anchor @ q) = Some (bs, m))" for q0
  proof (cases "lookup fs (loc anchor @ q0)")
    case None
    then have "files fs (loc anchor @ q0 @ q1) = None" for q1
      by (simp add: files_def lookup_append [of _ "loc anchor @ q0" q1, simplified])
    with None show ?thesis by (auto simp: leaves_at_def prefix_def)
  next
    case (Some n)
    with assms(1) have wf: "wf_node n" using lookup_wf by blast
    have fl: "files n q1 = files fs (loc anchor @ q0 @ q1)" for q1
      using files_lookup [OF Some] by simp
    have "(p', bs, m) \<in> set (leaves_at fs (anchor @ map Normal q0)) \<longleftrightarrow>
      (\<exists>q1. p' = anchor @ map Normal (q0 @ q1) \<and> files fs (loc anchor @ q0 @ q1) = Some (bs, m))"
      using Some leaves_iff(1) [OF wf] by (simp add: leaves_at_def fl)
    then show ?thesis unfolding prefix_def by blast
  qed
  have "?l \<longleftrightarrow> (\<exists>q0. anchor @ map Normal q0 \<in> set (matched glob fs pats) \<and>
      (p', bs, m) \<in> set (leaves_at fs (anchor @ map Normal q0)))"
    using assms(2) by (auto simp: under_anchor_def)
  then show ?thesis by (auto simp: at found_def)
qed

text \<open>C10: a snapshot holds exactly the files on disk that the game's patterns reach: its entries
  are sorted by path with each path once, and an entry is in it just when it is the entry (path
  below the anchor, size, time and BLAKE3 hash) of a regular file at or below a path that a
  pattern matches and whose relative path no exclude matches.\<close>

theorem build_exact:
  assumes ok: "build blake3 glob pattern fs now g pats excl anchor = Inr s"
    and wf: "wf_node fs" and under: "under_anchor glob fs pats anchor"
  shows "sorted_wrt (<) (map fe_rel_path (sn_files s)) \<and>
    (e \<in> set (sn_files s) \<longleftrightarrow>
      (\<exists>q bs m. files fs (loc anchor @ q) = Some (bs, m) \<and> found glob fs pats anchor q \<and>
         \<not> excluded (List.map_filter pattern excl) (join_with ''/'' q) \<and>
         e = entry_of blake3 (join_with ''/'' q) bs m))"
proof
  show "sorted_wrt (<) (map fe_rel_path (sn_files s))" by (rule build_rel_paths [OF ok])
  let ?ex = "excluded (List.map_filter pattern excl)"
  let ?L = "map (leaf_entry blake3 anchor) (filter (\<lambda>l. \<not> ?ex (rel_path (fst l) anchor))
              (concat (map (leaves_at fs) (matched glob fs pats))))"
  have L: "(r, e) \<in> set ?L \<longleftrightarrow> (\<exists>q bs m. files fs (loc anchor @ q) = Some (bs, m) \<and>
      found glob fs pats anchor q \<and> \<not> ?ex (join_with ''/'' q) \<and> r = join_with ''/'' q \<and>
      e = entry_of blake3 (join_with ''/'' q) bs m)" for r e
  proof -
    have "(r, e) \<in> set ?L \<longleftrightarrow> (\<exists>p bs m. (p, bs, m) \<in> set (concat (map (leaves_at fs) (matched glob fs pats)))
        \<and> \<not> ?ex (rel_path p anchor) \<and> r = rel_path p anchor \<and> e = entry_of blake3 r bs m)"
      by (force simp: leaf_entry_def image_iff)
    also have "\<dots> \<longleftrightarrow> (\<exists>q bs m. files fs (loc anchor @ q) = Some (bs, m) \<and> found glob fs pats anchor q \<and>
        \<not> ?ex (rel_path (anchor @ map Normal q) anchor) \<and> r = rel_path (anchor @ map Normal q) anchor \<and>
        e = entry_of blake3 r bs m)"
      unfolding leaves_matched_iff [OF wf under] by blast
    finally show ?thesis by auto
  qed
  have inj: "q = q'" if "files fs (loc anchor @ q) = Some b" "files fs (loc anchor @ q') = Some b'"
    "join_with ''/'' q = join_with ''/'' q'" for q q' b b'
    using that files_valid [OF _ wf] join_with_inject by (metis list_all_append)
  have "v = w" if "(k, v) \<in> set ?L" "(k, w) \<in> set ?L" for k v w
    using that unfolding L by (metis inj option.inject prod.inject)
  then have at: "map_of (rev ?L) r = Some e' \<longleftrightarrow> (r, e') \<in> set ?L" for r e'
    using map_of_functional [of "rev ?L"] by (metis set_rev)
  from ok obtain out where out: "sn_files s = map snd out" "bt_sorted out"
    and map: "map_of out = map_of (rev ?L)" by (rule build_files)
  have "e \<in> set (sn_files s) \<longleftrightarrow> (\<exists>r. (r, e) \<in> set out)"
    using out(1) by (auto intro: rev_image_eqI)
  also have "\<dots> \<longleftrightarrow> (\<exists>r. (r, e) \<in> set ?L)"
    using bt_sorted_distinct [OF out(2)] map at by (metis map_of_eq_Some_iff)
  finally show "e \<in> set (sn_files s) \<longleftrightarrow>
      (\<exists>q bs m. files fs (loc anchor @ q) = Some (bs, m) \<and> found glob fs pats anchor q \<and>
         \<not> ?ex (join_with ''/'' q) \<and> e = entry_of blake3 (join_with ''/'' q) bs m)"
    unfolding L by blast
qed

section \<open>What a difference contains\<close>

definition hashes :: "file_entry list \<Rightarrow> string \<Rightarrow> blake3_hash option" where
  "hashes fs p = map_option fe_hash (by_path fs p)"

definition distinct_paths :: "file_entry list \<Rightarrow> bool" where
  "distinct_paths fs = distinct (map fe_rel_path fs)"

lemma by_path_Some_iff:
  "distinct_paths fs \<Longrightarrow> by_path fs p = Some f \<longleftrightarrow> f \<in> set fs \<and> fe_rel_path f = p"
  unfolding by_path_def distinct_paths_def
  by (subst map_of_functional) (auto dest: distinct_map_inj)

lemma by_path_None_iff: "by_path fs p = None \<longleftrightarrow> p \<notin> fe_rel_path ` set fs"
  by (force simp: by_path_def map_of_eq_None_iff)

lemma by_path_filter:
  assumes "distinct_paths fs"
  shows "by_path (filter P fs) p = (case by_path fs p of Some f \<Rightarrow> if P f then Some f else None | None \<Rightarrow> None)"
proof -
  have d: "distinct_paths (filter P fs)"
    using assms by (simp add: distinct_paths_def distinct_map_filter_key)
  show ?thesis
  proof (cases "by_path fs p")
    case None
    then have "by_path (filter P fs) p = None" by (auto simp: by_path_None_iff)
    with None show ?thesis by simp
  next
    case (Some f)
    then have "f \<in> set fs" "fe_rel_path f = p" using by_path_Some_iff [OF assms] by auto
    then show ?thesis
      using Some by_path_Some_iff [OF d, of p f] assms
      by (auto simp: by_path_None_iff distinct_paths_def dest: distinct_map_inj)
  qed
qed

lemma snapshot_distinct:
  "build blake3 glob pattern fs now g pats excl anchor = Inr s \<Longrightarrow> distinct_paths (sn_files s)"
  unfolding distinct_paths_def by (drule build_rel_paths) (metis strict_sorted_iff)

lemma hashes_None_iff: "hashes fs p = None \<longleftrightarrow> p \<notin> fe_rel_path ` set fs"
  by (simp add: hashes_def by_path_None_iff)

lemma deleted_iff:
  "p \<in> set (df_deleted (snapshot_diff old new)) \<longleftrightarrow>
     hashes (sn_files old) p \<noteq> None \<and> hashes (sn_files new) p = None"
  by (auto simp: snapshot_diff_def hashes_None_iff by_path_None_iff)

lemma changed_at:
  assumes "distinct_paths (sn_files new)"
  shows "hashes (df_changed (snapshot_diff old new)) p =
     (if hashes (sn_files new) p = hashes (sn_files old) p then None else hashes (sn_files new) p)"
proof (cases "by_path (sn_files new) p")
  case None
  then show ?thesis by (simp add: snapshot_diff_def hashes_def by_path_filter [OF assms])
next
  case (Some f)
  then have "fe_rel_path f = p" using by_path_Some_iff [OF assms] by simp
  with Some show ?thesis
    by (auto simp: snapshot_diff_def hashes_def by_path_filter [OF assms] split: option.splits)
qed

text \<open>Applying a difference to the files it was taken from.\<close>

definition apply_diff :: "diff \<Rightarrow> (string \<Rightarrow> blake3_hash option) \<Rightarrow> string \<Rightarrow> blake3_hash option" where
  "apply_diff d h p =
     (if p \<in> set (df_deleted d) then None
      else case hashes (df_changed d) p of Some x \<Rightarrow> Some x | None \<Rightarrow> h p)"

lemma apply_diff_new:
  assumes "distinct_paths (sn_files new)"
  shows "apply_diff (snapshot_diff old new) (hashes (sn_files old)) = hashes (sn_files new)"
proof
  fix p
  show "apply_diff (snapshot_diff old new) (hashes (sn_files old)) p = hashes (sn_files new) p"
    by (cases "hashes (sn_files new) p")
      (auto simp: apply_diff_def deleted_iff changed_at [OF assms])
qed

lemma diff_empty_iff:
  assumes "distinct_paths (sn_files new)"
  shows "diff_is_empty (snapshot_diff old new) \<longleftrightarrow> hashes (sn_files old) = hashes (sn_files new)"
proof
  assume e: "diff_is_empty (snapshot_diff old new)"
  then have "apply_diff (snapshot_diff old new) h = h" for h
    by (simp add: diff_is_empty_def apply_diff_def hashes_def by_path_def fun_eq_iff)
  with apply_diff_new [OF assms, of old] show "hashes (sn_files old) = hashes (sn_files new)" by simp
next
  assume eq: "hashes (sn_files old) = hashes (sn_files new)"
  let ?d = "snapshot_diff old new"
  have "p \<notin> set (df_deleted ?d)" for p
    by (auto simp: deleted_iff eq)
  moreover have "hashes (df_changed ?d) p = None" for p
    by (simp add: changed_at [OF assms] eq)
  then have "df_changed ?d = []"
    by (simp add: hashes_None_iff) (metis image_eqI last_in_set)
  ultimately show "diff_is_empty ?d" by (metis diff_is_empty_def last_in_set)
qed


section \<open>Concrete inputs\<close>

definition ex_hash :: "byte list \<Rightarrow> blake3_hash" where
  "ex_hash bs = map (\<lambda>b. char_of (unat b)) bs"

definition ex_meta :: file_meta where
  "ex_meta = \<lparr>fm_mtime = 5000000, fm_mode = 420\<rparr>"

definition ex_tree :: node where
  "ex_tree =
     Dir [(''s'', Dir [(''b'', File [2] ex_meta), (''a'', File [1] ex_meta),
                       (''log'', File [9] ex_meta)])]"

definition ex_anchor :: path where
  "ex_anchor = [RootDir, Normal ''s'']"

text \<open>A glob library that knows one directory, and one that matches a pattern with itself.\<close>

definition ex_glob :: "node \<Rightarrow> string \<Rightarrow> string + path list" where
  "ex_glob fs pat = (if pat = ''/s'' then Inr [ex_anchor] else Inl ''bad'')"

definition ex_pattern :: "string \<Rightarrow> (string \<Rightarrow> bool) option" where
  "ex_pattern e = Some (\<lambda>s. s = e)"

definition ex_snapshot :: snapshot where
  "ex_snapshot =
     \<lparr>sn_game_id = 7,
      sn_files =
        [\<lparr>fe_rel_path = ''a'', fe_size = 1, fe_mtime = 5, fe_hash = [CHR 0x01]\<rparr>,
         \<lparr>fe_rel_path = ''b'', fe_size = 1, fe_mtime = 5, fe_hash = [CHR 0x02]\<rparr>],
      sn_taken_at = 3\<rparr>"

lemmas ex_snapshot_defs =
  ex_hash_def ex_meta_def ex_tree_def ex_anchor_def ex_glob_def ex_pattern_def ex_snapshot_def

lemma ex_build:
  "build ex_hash ex_glob ex_pattern ex_tree 3 7 [''/s''] [''log''] ex_anchor = Inr ex_snapshot"
  by code_simp

lemma ex_under: "wf_node ex_tree" "under_anchor ex_glob ex_tree [''/s''] ex_anchor"
  by (simp_all add: ex_snapshot_defs valid_name_def under_anchor_def matched_def)

theorem build_exact_witness:
  "sorted_wrt (<) (map fe_rel_path (sn_files ex_snapshot)) \<and>
    (\<lparr>fe_rel_path = ''a'', fe_size = 1, fe_mtime = 5, fe_hash = [CHR 0x01]\<rparr> \<in> set (sn_files ex_snapshot) \<longleftrightarrow>
      (\<exists>q bs m. files ex_tree (loc ex_anchor @ q) = Some (bs, m) \<and>
         found ex_glob ex_tree [''/s''] ex_anchor q \<and>
         \<not> excluded (List.map_filter ex_pattern [''log'']) (join_with ''/'' q) \<and>
         \<lparr>fe_rel_path = ''a'', fe_size = 1, fe_mtime = 5, fe_hash = [CHR 0x01]\<rparr>
           = entry_of ex_hash (join_with ''/'' q) bs m))"
  by (rule build_exact [OF ex_build ex_under])


end
