(* ===== verification/Archive.thy ===== *)
theory Archive
  imports Snapshot
begin

text \<open>
  The \<open>.savr\<close> archive (\<open>savr-core/src/archive.rs\<close>): a compressed tar of \<open>meta.json\<close>, an
  optional \<open>registry.json\<close> and the saved files under \<open>files/\<close>. The tar, zstd and JSON
  libraries are the fields of a record that is a parameter: whether tar refuses an entry name, the
  bytes of a finished list of entries, the entries read back from bytes (each of them may be an
  error, at which reading stops), and the metadata printed and parsed. What a round trip needs of
  them is the predicate \<open>archive_lib_ok\<close>.
\<close>

section \<open>Definitions\<close>

record archive_meta =
  am_game_id :: uuid
  am_device_id :: uuid
  am_parent :: "uuid option"
  am_kind :: version_kind
  am_files :: "file_entry list"
  am_deletions :: "string list"
  am_created_at :: time

record unpacked =
  up_meta :: archive_meta
  up_registry :: "byte list option"

type_synonym tar_entry = "string \<times> byte list"

record archive_lib =
  al_reject :: "string \<Rightarrow> fs_error option"
  al_finish :: "tar_entry list \<Rightarrow> fs_error + byte list"
  al_entries :: "byte list \<Rightarrow> (fs_error + tar_entry) list"
  al_meta_json :: "archive_meta \<Rightarrow> string + byte list"
  al_meta_parse :: "byte list \<Rightarrow> string + archive_meta"

definition META_PATH :: string where "META_PATH = ''meta.json''"
definition REGISTRY_PATH :: string where "REGISTRY_PATH = ''registry.json''"
definition FILES_PREFIX :: string where "FILES_PREFIX = ''files/''"

definition append_bytes :: "archive_lib \<Rightarrow> string \<Rightarrow> byte list \<Rightarrow> tar_entry list \<Rightarrow> core_error + tar_entry list" where
  "append_bytes lib name bs es =
     (case al_reject lib name of Some e \<Rightarrow> Inl (IoErr e) | None \<Rightarrow> Inr (es @ [(name, bs)]))"

definition io :: "fs_error + 'a \<Rightarrow> core_error + 'a" where
  "io r = (case r of Inl e \<Rightarrow> Inl (IoErr e) | Inr x \<Rightarrow> Inr x)"

definition json :: "string + 'a \<Rightarrow> core_error + 'a" where
  "json r = (case r of Inl e \<Rightarrow> Inl (ManifestErr e) | Inr x \<Rightarrow> Inr x)"

fun pack_files ::
  "archive_lib \<Rightarrow> node \<Rightarrow> (string \<times> path) list \<Rightarrow> tar_entry list \<Rightarrow> core_error + tar_entry list" where
  "pack_files lib fs [] es = Inr es"
| "pack_files lib fs ((rel, src) # ps) es =
     bind_res (io (read_file fs (loc src))) (\<lambda>bs.
     bind_res (append_bytes lib (FILES_PREFIX @ rel) bs es) (pack_files lib fs ps))"

definition pack ::
  "archive_lib \<Rightarrow> node \<Rightarrow> archive_meta \<Rightarrow> (string \<times> path) list \<Rightarrow> byte list option \<Rightarrow>
   core_error + byte list" where
  "pack lib fs meta payload registry =
     bind_res (json (al_meta_json lib meta)) (\<lambda>meta_bytes.
     bind_res (append_bytes lib META_PATH meta_bytes []) (\<lambda>es.
     bind_res (case registry of None \<Rightarrow> Inr es | Some reg \<Rightarrow> append_bytes lib REGISTRY_PATH reg es) (\<lambda>es.
     bind_res (pack_files lib fs payload es) (\<lambda>es.
     io (al_finish lib es)))))"

definition is_safe_rel_path :: "path \<Rightarrow> bool" where
  "is_safe_rel_path p = (\<not> list_ex (\<lambda>c. \<not> (case c of Normal s \<Rightarrow> True | _ \<Rightarrow> False)) p)"

text \<open>
  A path with a trailing separator or dot (or nothing after the destination) can only name a
  directory, so the operating system refuses to create a file there.
\<close>

definition names_dir :: "string \<Rightarrow> bool" where
  "names_dir rel = (last (split_on (CHR ''/'') rel) \<in> {'''', ''.''})"

definition create_file :: "bool \<Rightarrow> byte list \<Rightarrow> file_meta \<Rightarrow> path \<Rightarrow> node \<Rightarrow> fs_error + node" where
  "create_file dir bs m target fs =
     (if dir then Inl IsADirectory else write_file bs m (loc target) fs)"

definition extract_file :: "node \<Rightarrow> file_meta \<Rightarrow> path \<Rightarrow> string \<Rightarrow> byte list \<Rightarrow> node \<times> (core_error + unit)" where
  "extract_file fs m dest rel bs =
     (let target = path_join dest (components rel) in
      case (case path_parent target of
              None \<Rightarrow> Inr fs | Some parent \<Rightarrow> create_dir_all (loc parent) fs) of
        Inl e \<Rightarrow> (fs, Inl (IoErr e))
      | Inr fs1 \<Rightarrow>
          (case create_file (names_dir rel) bs m target fs1 of
             Inl e \<Rightarrow> (fs1, Inl (IoErr e))
           | Inr fs2 \<Rightarrow> (fs2, Inr ())))"

fun unpack_loop ::
  "archive_lib \<Rightarrow> file_meta \<Rightarrow> path \<Rightarrow> (fs_error + tar_entry) list \<Rightarrow> archive_meta option \<Rightarrow>
   byte list option \<Rightarrow> node \<Rightarrow> node \<times> (core_error + (archive_meta option \<times> byte list option))" where
  "unpack_loop lib m dest [] meta reg fs = (fs, Inr (meta, reg))"
| "unpack_loop lib m dest (Inl e # es) meta reg fs = (fs, Inl (IoErr e))"
| "unpack_loop lib m dest (Inr (name, bs) # es) meta reg fs =
     (if name = META_PATH then
        (case al_meta_parse lib bs of
           Inl e \<Rightarrow> (fs, Inl (ManifestErr e))
         | Inr mt \<Rightarrow> unpack_loop lib m dest es (Some mt) reg fs)
      else if name = REGISTRY_PATH then unpack_loop lib m dest es meta (Some bs) fs
      else
        (case strip_prefix name FILES_PREFIX of
           None \<Rightarrow> unpack_loop lib m dest es meta reg fs
         | Some rel \<Rightarrow>
             if \<not> is_safe_rel_path (components rel)
             then (fs, Inl (ManifestErr (''unsafe path in archive: '' @ name)))
             else
               (case extract_file fs m dest rel bs of
                  (fs1, Inl e) \<Rightarrow> (fs1, Inl e)
                | (fs1, Inr u) \<Rightarrow> unpack_loop lib m dest es meta reg fs1)))"

text \<open>\<open>m\<close> is the metadata that the files created by this run get.\<close>

definition unpack ::
  "archive_lib \<Rightarrow> file_meta \<Rightarrow> byte list \<Rightarrow> path \<Rightarrow> node \<Rightarrow> node \<times> (core_error + unpacked)" where
  "unpack lib m bytes dest fs =
     (case unpack_loop lib m dest (al_entries lib bytes) None None fs of
        (fs1, Inl e) \<Rightarrow> (fs1, Inl e)
      | (fs1, Inr (None, reg)) \<Rightarrow> (fs1, Inl (ManifestErr ''archive missing meta.json''))
      | (fs1, Inr (Some meta, reg)) \<Rightarrow> (fs1, Inr \<lparr>up_meta = meta, up_registry = reg\<rparr>))"

section \<open>Nothing outside the destination is written\<close>

lemma safe_iff: "is_safe_rel_path p \<longleftrightarrow> (\<exists>q. p = map Normal q)"
proof
  assume "is_safe_rel_path p"
  then show "\<exists>q. p = map Normal q"
  proof (induction p)
    case (Cons c p)
    then obtain s q where "c = Normal s" "p = map Normal q"
      by (auto simp: is_safe_rel_path_def split: component.splits)
    then show ?case by (intro exI [of _ "s # q"]) simp
  qed simp
qed (auto simp: is_safe_rel_path_def list_ex_iff)

lemma path_join_map_Normal [simp]: "path_join p (map Normal q) = p @ map Normal q"
  by (cases q) (auto simp: path_join_def is_absolute_def filter_map comp_def)

lemma extract_file_outside:
  assumes "extract_file fs m dest rel bs = (fs', r)" and "is_safe_rel_path (components rel)"
    and "\<not> prefix (loc dest) p"
  shows "files fs' p = files fs p"
proof -
  from assms(2) obtain q where q: "components rel = map Normal q" unfolding safe_iff ..
  from assms(3) have "p \<noteq> loc dest @ q" by (auto simp: prefix_def)
  have mk: "files fs1 = files fs"
    if "(case path_parent t of None \<Rightarrow> Inr fs | Some d \<Rightarrow> create_dir_all (loc d) fs) = Inr fs1" for t fs1
    using that by (auto split: option.splits dest: create_dir_all_files)
  have wr: "files fs2 p = files fs1 p" if "create_file d bs m (dest @ map Normal q) fs1 = Inr fs2" for d fs1 fs2
    using that \<open>p \<noteq> loc dest @ q\<close> by (auto simp: create_file_def split: if_splits dest!: write_file_files)
  show ?thesis using assms(1) mk wr
    unfolding extract_file_def q Let_def path_join_map_Normal
    by (auto split: sum.splits)
qed

lemma unpack_loop_outside:
  assumes "\<not> prefix (loc dest) p"
  shows "unpack_loop lib m dest es meta reg fs = (fs', r) \<Longrightarrow> files fs' p = files fs p"
proof (induction es arbitrary: meta reg fs)
  case (Cons e es)
  show ?case
  proof (cases e)
    case (Inr nb)
    obtain name bs where nb: "nb = (name, bs)" by (cases nb)
    show ?thesis
    proof (cases "name = META_PATH \<or> name = REGISTRY_PATH \<or> strip_prefix name FILES_PREFIX = None")
      case True
      with Cons Inr nb show ?thesis by (auto split: if_splits sum.splits)
    next
      case False
      then obtain rel where rel: "strip_prefix name FILES_PREFIX = Some rel" by auto
      obtain fs1 r1 where e1: "extract_file fs m dest rel bs = (fs1, r1)" by fastforce
      show ?thesis
      proof (cases "is_safe_rel_path (components rel)")
        case True
        note 1 = extract_file_outside [OF e1 True assms]
        show ?thesis
        proof (cases r1)
          case (Inl x)
          with 1 Cons.prems Inr nb rel e1 True \<open>\<not> (name = META_PATH \<or> _)\<close> show ?thesis by simp
        next
          case (Inr u)
          with Cons.prems \<open>e = Inr nb\<close> nb rel e1 True \<open>\<not> (name = META_PATH \<or> _)\<close>
          have "unpack_loop lib m dest es meta reg fs1 = (fs', r)" by simp
          with 1 Cons.IH show ?thesis by simp
        qed
      next
        case False
        with Cons.prems Inr nb rel \<open>\<not> (name = META_PATH \<or> _)\<close> show ?thesis by simp
      qed
    qed
  qed (use Cons.prems in auto)
qed auto

text \<open>C13: an archive cannot write outside the directory it is unpacked into: whatever its bytes
  are, and whether unpacking succeeds or stops with an error, every file whose path is not below
  the destination is after it what it was before. So a tampered archive with absolute or parent
  paths harms nothing.\<close>

theorem unpack_confined:
  assumes "unpack lib m bytes dest fs = (fs', r)" and "\<not> prefix (loc dest) p"
  shows "files fs' p = files fs p"
proof -
  obtain fs1 r1 where l: "unpack_loop lib m dest (al_entries lib bytes) None None fs = (fs1, r1)"
    by fastforce
  with assms(1) have "fs' = fs1"
    by (auto simp: unpack_def split: sum.splits option.splits)
  with unpack_loop_outside [OF assms(2) l] show ?thesis by simp
qed

section \<open>Packing and unpacking\<close>

definition plain_name :: "string \<Rightarrow> bool" where
  "plain_name n = (\<exists>q. q \<noteq> [] \<and> list_all valid_name q \<and> n = join_with ''/'' q)"

text \<open>
  What the round trip needs of the libraries: parsing undoes printing of the metadata, and the
  entries read from a finished archive are those appended, when their names are plain relative
  paths (tar normalises others).
\<close>

definition archive_lib_ok :: "archive_lib \<Rightarrow> bool" where
  "archive_lib_ok lib =
     ((\<forall>meta b. al_meta_json lib meta = Inr b \<longrightarrow> al_meta_parse lib b = Inr meta) \<and>
      (\<forall>es b. (\<forall>e \<in> set es. plain_name (fst e)) \<longrightarrow> al_finish lib es = Inr b \<longrightarrow>
         al_entries lib b = map Inr es))"

definition rel_ok :: "string list \<Rightarrow> bool" where
  "rel_ok q = (q \<noteq> [] \<and> list_all valid_name q)"

lemma io_Inr_iff [simp]: "io r = Inr x \<longleftrightarrow> r = Inr x"
  by (cases r) (auto simp: io_def)

lemma json_Inr_iff [simp]: "json r = Inr x \<longleftrightarrow> r = Inr x"
  by (cases r) (auto simp: json_def)

lemma append_bytes_Inr_iff [simp]:
  "append_bytes lib name bs es = Inr es' \<longleftrightarrow> al_reject lib name = None \<and> es' = es @ [(name, bs)]"
  by (auto simp: append_bytes_def split: option.splits)

lemma split_join_rel: "rel_ok q \<Longrightarrow> split_on (CHR ''/'') (join_with ''/'' q) = q"
  by (rule split_join_on) (auto simp: rel_ok_def list_all_iff valid_name_def)

lemma valid_name_part: "valid_name s \<Longrightarrow> part_component s = [Normal s]"
  by (simp add: valid_name_def)

lemma valid_parts: "list_all valid_name q \<Longrightarrow> concat (map part_component q) = map Normal q"
  by (induction q) (simp_all add: valid_name_part del: part_component.simps)

lemma components_join: "rel_ok q \<Longrightarrow> components (join_with ''/'' q) = map Normal q"
proof -
  assume q: "rel_ok q"
  then have parts: "concat (map part_component q) = map Normal q"
    by (simp add: rel_ok_def valid_parts)
  from q obtain s q' where s: "q = s # q'" "valid_name s" by (cases q) (auto simp: rel_ok_def)
  then have "\<not> starts_with (join_with ''/'' q) ''/''"
    by (cases s; cases q') (auto simp: starts_with_def valid_name_def)
  moreover from s have "hd q \<noteq> ''.''" by (simp add: valid_name_def)
  ultimately show ?thesis by (simp add: components_def split_join_rel [OF q] parts)
qed

lemma names_dir_join: "rel_ok q \<Longrightarrow> \<not> names_dir (join_with ''/'' q)"
  by (auto simp: names_dir_def split_join_rel) (auto simp: rel_ok_def list_all_iff valid_name_def)

lemma extract_file_put:
  assumes "rel_ok q" and "put_file (loc dest @ q) (bs, m) fs = Inr fs'"
  shows "extract_file fs m dest (join_with ''/'' q) bs = (fs', Inr ())"
proof -
  from assms(1) have "q \<noteq> []" by (simp add: rel_ok_def)
  then have "path_parent (dest @ map Normal q) = Some (dest @ map Normal (butlast q))"
    by (simp add: path_parent_def last_map map_butlast [symmetric] butlast_append)
  moreover have "butlast (loc dest @ q) = loc dest @ butlast q"
    using \<open>q \<noteq> []\<close> by (simp add: butlast_append)
  ultimately show ?thesis
    using assms names_dir_join [OF assms(1)]
    by (auto simp: extract_file_def components_join put_file_def create_file_def bind_res_Inr_iff Let_def
        simp del: path_join_Normal)
qed

lemma unpack_loop_files:
  "(\<And>w. w \<in> set ws \<Longrightarrow> rel_ok (fst w)) \<Longrightarrow>
   put_all put_file (map (\<lambda>w. (loc dest @ fst w, (snd w, m))) ws) fs = Inr fs' \<Longrightarrow>
   unpack_loop lib m dest (map (\<lambda>w. Inr (FILES_PREFIX @ join_with ''/'' (fst w), snd w)) ws) meta reg fs =
     (fs', Inr (meta, reg))"
proof (induction ws arbitrary: fs)
  case (Cons w ws)
  then obtain fs1 where fs1: "put_file (loc dest @ fst w) (snd w, m) fs = Inr fs1"
    and rest: "put_all put_file (map (\<lambda>w. (loc dest @ fst w, (snd w, m))) ws) fs1 = Inr fs'"
    by (auto simp: bind_res_Inr_iff)
  have w: "rel_ok (fst w)" using Cons.prems by simp
  have "FILES_PREFIX @ s \<noteq> META_PATH" "FILES_PREFIX @ s \<noteq> REGISTRY_PATH" for s
    by (simp_all add: FILES_PREFIX_def META_PATH_def REGISTRY_PATH_def)
  moreover have "is_safe_rel_path (map Normal (fst w))" by (auto simp: safe_iff)
  ultimately show ?case
    using Cons.IH [OF Cons.prems(1) rest] extract_file_put [OF w fs1] components_join [OF w] by simp
qed simp

lemma pack_files_Inr:
  "pack_files lib fs ps es = Inr es' \<Longrightarrow>
   (\<forall>p \<in> set ps. \<exists>bs. read_file fs (loc (snd p)) = Inr bs) \<and>
   es' = es @ map (\<lambda>p. (FILES_PREFIX @ fst p, the (res_ok (read_file fs (loc (snd p)))))) ps"
proof (induction ps arbitrary: es)
  case (Cons p ps)
  obtain rel src where p: "p = (rel, src)" by (cases p)
  with Cons.prems obtain bs where bs: "read_file fs (loc src) = Inr bs"
    and rest: "pack_files lib fs ps (es @ [(FILES_PREFIX @ rel, bs)]) = Inr es'"
    by (auto simp: bind_res_Inr_iff)
  with Cons.IH [OF rest] p show ?case by simp
qed simp

lemma plain_meta: "plain_name META_PATH" "plain_name REGISTRY_PATH"
  unfolding plain_name_def META_PATH_def REGISTRY_PATH_def
  by (rule exI [of _ "[''meta.json'']"], simp add: valid_name_def)
    (rule exI [of _ "[''registry.json'']"], simp add: valid_name_def)

lemma plain_files: "rel_ok q \<Longrightarrow> plain_name (FILES_PREFIX @ join_with ''/'' q)"
  unfolding plain_name_def rel_ok_def
  by (rule exI [of _ "''files'' # q"], cases q) (auto simp: FILES_PREFIX_def valid_name_def)

lemma pack_entries:
  assumes "archive_lib_ok lib" and "\<And>p. p \<in> set payload \<Longrightarrow> plain_name (FILES_PREFIX @ fst p)"
    and "pack lib fs meta payload reg = Inr bytes"
  obtains meta_bytes where "al_meta_parse lib meta_bytes = Inr meta"
    and "\<forall>p \<in> set payload. \<exists>bs. read_file fs (loc (snd p)) = Inr bs"
    and "al_entries lib bytes = map Inr ((META_PATH, meta_bytes) #
           (case reg of None \<Rightarrow> [] | Some r \<Rightarrow> [(REGISTRY_PATH, r)]) @
           map (\<lambda>p. (FILES_PREFIX @ fst p, the (res_ok (read_file fs (loc (snd p)))))) payload)"
proof -
  from assms(3) obtain mb es where mb: "al_meta_json lib meta = Inr mb"
    and es: "pack_files lib fs payload ((META_PATH, mb) # (case reg of None \<Rightarrow> [] | Some r \<Rightarrow> [(REGISTRY_PATH, r)])) = Inr es"
    and fin: "al_finish lib es = Inr bytes"
    by (cases reg) (auto simp: pack_def bind_res_Inr_iff)
  note ps = pack_files_Inr [OF es]
  from ps assms(2) have "\<forall>e \<in> set es. plain_name (fst e)" by (auto simp: plain_meta split: option.splits)
  with assms(1) fin have "al_entries lib bytes = map Inr es" by (auto simp: archive_lib_ok_def)
  moreover from assms(1) mb have "al_meta_parse lib mb = Inr meta" by (auto simp: archive_lib_ok_def)
  ultimately show thesis using ps that by simp
qed

text \<open>C12: unpacking undoes packing: when the files of a payload (pairwise different relative paths,
  none above another) were packed from one tree, unpacking the bytes into a directory of another
  tree where these paths can be written succeeds, returns the metadata and the registry export
  that were packed, puts the bytes of each source file at its relative path below the
  destination, and changes no other file.\<close>

theorem pack_unpack:
  assumes lib: "archive_lib_ok lib"
    and packed: "pack lib src meta (map (\<lambda>x. (join_with ''/'' (fst x), snd x)) payload) reg = Inr bytes"
    and rels: "\<forall>x \<in> set payload. rel_ok (fst x)"
    and apart: "\<forall>x \<in> set payload. \<forall>y \<in> set payload. apart (fst x) (fst y)"
    and distinct: "distinct (map fst payload)"
    and free: "\<forall>x \<in> set payload. writable dst (loc dest @ fst x)"
  shows "\<exists>dst'. unpack lib m bytes dest dst = (dst', Inr \<lparr>up_meta = meta, up_registry = reg\<rparr>) \<and>
    (\<forall>x \<in> set payload. \<exists>bs ms. files src (loc (snd x)) = Some (bs, ms) \<and>
        files dst' (loc dest @ fst x) = Some (bs, m)) \<and>
    (\<forall>r. r \<notin> (\<lambda>x. loc dest @ fst x) ` set payload \<longrightarrow> files dst' r = files dst r)"
proof -
  let ?bytes = "\<lambda>x. the (res_ok (read_file src (loc (snd x))))"
  let ?ws = "map (\<lambda>x. (fst x, ?bytes x)) payload"
  let ?puts = "map (\<lambda>w. (loc dest @ fst w, (snd w, m))) ?ws"
  have plain: "plain_name (FILES_PREFIX @ fst y)" if "y \<in> set (map (\<lambda>x. (join_with ''/'' (fst x), snd x)) payload)" for y
    using that rels plain_files by auto
  obtain mb where mb: "al_meta_parse lib mb = Inr meta"
    and read: "\<forall>x \<in> set payload. \<exists>bs. read_file src (loc (snd x)) = Inr bs"
    and es: "al_entries lib bytes = map Inr ((META_PATH, mb) #
           (case reg of None \<Rightarrow> [] | Some r \<Rightarrow> [(REGISTRY_PATH, r)]) @
           map (\<lambda>w. (FILES_PREFIX @ join_with ''/'' (fst w), snd w)) ?ws)"
    by (rule pack_entries [OF lib plain packed]) (simp_all add: comp_def)
  have sep: "apart (loc dest @ q) (loc dest @ q')" if "apart q q'" for q q'
    using that by (auto simp: apart_def strict_prefix_def)
  have "\<exists>dst'. put_all put_file ?puts dst = Inr dst'"
    by (rule tree.put_all_ok) (use free apart sep in auto)
  then obtain dst' where dst': "put_all put_file ?puts dst = Inr dst'" ..
  have "rel_ok (fst w)" if "w \<in> set ?ws" for w using that rels by auto
  note loop = unpack_loop_files [OF this dst', where lib = lib, unfolded list.map_comp comp_def]
  have "unpack lib m bytes dest dst = (dst', Inr \<lparr>up_meta = meta, up_registry = reg\<rparr>)"
    using loop mb by (cases reg) (simp_all add: unpack_def es comp_def META_PATH_def REGISTRY_PATH_def)
  moreover have "\<exists>bs ms. files src (loc (snd x)) = Some (bs, ms) \<and> files dst' (loc dest @ fst x) = Some (bs, m)"
    if x: "x \<in> set payload" for x
  proof -
    from read x obtain bs where bs: "read_file src (loc (snd x)) = Inr bs" by auto
    have "inj_on (\<lambda>q. loc dest @ q) A" for A by (simp add: inj_on_def)
    then have "distinct (map (\<lambda>q. loc dest @ q) (map fst payload))"
      using distinct distinct_map by blast
    then have "distinct (map fst (rev ?puts))" by (simp add: comp_def rev_map [symmetric])
    moreover have "(loc dest @ fst x, (bs, m)) \<in> set (rev ?puts)" using x bs by force
    ultimately have "map_of (rev ?puts) (loc dest @ fst x) = Some (bs, m)" by (rule map_of_is_SomeI)
    with tree.put_all_get [OF dst'] bs show ?thesis by (auto simp: read_file_Inr_iff)
  qed
  moreover have "files dst' r = files dst r" if "r \<notin> (\<lambda>x. loc dest @ fst x) ` set payload" for r
    using that by (intro tree.put_all_frame [OF dst']) (simp add: image_image)
  ultimately show ?thesis by blast
qed

lemma entry_names [simp]:
  "FILES_PREFIX @ s \<noteq> META_PATH" "FILES_PREFIX @ s \<noteq> REGISTRY_PATH" "META_PATH \<noteq> REGISTRY_PATH"
  "META_PATH \<noteq> FILES_PREFIX @ s" "REGISTRY_PATH \<noteq> FILES_PREFIX @ s" "REGISTRY_PATH \<noteq> META_PATH"
  by (simp_all add: FILES_PREFIX_def META_PATH_def REGISTRY_PATH_def)

text \<open>What a successful reading of the entries says about them.\<close>

lemma unpack_loop_safe:
  "unpack_loop lib m dest es meta reg fs = (fs', Inr r) \<Longrightarrow>
   Inr (FILES_PREFIX @ rel, bs) \<in> set es \<Longrightarrow> is_safe_rel_path (components rel)"
proof (induction lib m dest es meta reg fs rule: unpack_loop.induct)
  case (3 lib m dest name bs' es meta reg fs)
  then show ?case by (fastforce split: if_splits sum.splits option.splits prod.splits)
qed auto

lemma unpack_loop_meta:
  "unpack_loop lib m dest es meta reg fs = (fs', Inr (Some mt, reg')) \<Longrightarrow> meta = None \<Longrightarrow>
   \<exists>bs. Inr (META_PATH, bs) \<in> set es"
proof (induction lib m dest es meta reg fs rule: unpack_loop.induct)
  case (3 lib m dest name bs' es meta reg fs)
  then show ?case by (fastforce split: if_splits sum.splits option.splits prod.splits)
qed auto

text \<open>An archive whose \<open>meta.json\<close> is missing, or which holds an entry with an absolute or
  parent path, is refused: unpacking ends with an error, never with a result.\<close>

theorem unpack_refuses:
  assumes "(\<forall>e \<in> set (al_entries lib bytes). \<forall>bs. e \<noteq> Inr (META_PATH, bs)) \<or>
    (\<exists>rel bs. Inr (FILES_PREFIX @ rel, bs) \<in> set (al_entries lib bytes) \<and>
       \<not> is_safe_rel_path (components rel))"
  shows "\<not> is_ok (snd (unpack lib m bytes dest fs))"
proof
  assume "is_ok (snd (unpack lib m bytes dest fs))"
  then obtain fs' mt reg' where
    l: "unpack_loop lib m dest (al_entries lib bytes) None None fs = (fs', Inr (Some mt, reg'))"
    by (auto simp: unpack_def split: prod.splits sum.splits option.splits)
  from unpack_loop_safe [OF l] unpack_loop_meta [OF l] assms show False by blast
qed

section \<open>Concrete inputs\<close>

text \<open>Libraries that know a table of metadata and a table of archives: what is printed is the
  position in the table.\<close>

definition position :: "'a list \<Rightarrow> 'a \<Rightarrow> byte list" where
  "position xs x = replicate (length (takeWhile (\<lambda>y. y \<noteq> x) xs)) 0"

lemma position_nth: "x \<in> set xs \<Longrightarrow> length (position xs x) < length xs \<and> xs ! length (position xs x) = x"
  by (induction xs) (auto simp: position_def)

definition ex_lib :: "archive_meta list \<Rightarrow> tar_entry list list \<Rightarrow> archive_lib" where
  "ex_lib ms ess =
     \<lparr>al_reject = (\<lambda>n. None),
      al_finish = (\<lambda>es. if es \<in> set ess then Inr (position ess es) else Inl Unsupported),
      al_entries = (\<lambda>b. if length b < length ess then map Inr (ess ! length b) else [Inl Unsupported]),
      al_meta_json = (\<lambda>mt. if mt \<in> set ms then Inr (position ms mt) else Inl ''meta''),
      al_meta_parse = (\<lambda>b. if length b < length ms then Inr (ms ! length b) else Inl ''meta'')\<rparr>"

lemma ex_lib_ok: "archive_lib_ok (ex_lib ms ess)"
  by (auto simp: archive_lib_ok_def ex_lib_def dest: position_nth split: if_splits)

definition ex_am :: archive_meta where
  "ex_am =
     \<lparr>am_game_id = 7, am_device_id = 2, am_parent = None, am_kind = Full,
      am_files = sn_files ex_snapshot, am_deletions = [], am_created_at = 3\<rparr>"

definition ex_entries :: "tar_entry list" where
  "ex_entries = [(META_PATH, []), (''files/a'', [1]), (''files/b'', [2])]"

definition ex_payload :: "(string list \<times> path) list" where
  "ex_payload = [([''a''], ex_anchor @ [Normal ''a'']), ([''b''], ex_anchor @ [Normal ''b''])]"

lemma ex_pack:
  "pack (ex_lib [ex_am] [ex_entries]) ex_tree ex_am
     (map (\<lambda>x. (join_with ''/'' (fst x), snd x)) ex_payload) None = Inr []"
  by code_simp

lemma ex_payload_ok:
  "\<forall>x \<in> set ex_payload. rel_ok (fst x)"
  "\<forall>x \<in> set ex_payload. \<forall>y \<in> set ex_payload. apart (fst x) (fst y)"
  "distinct (map fst ex_payload)"
  "\<forall>x \<in> set ex_payload. writable (Dir []) (loc [RootDir, Normal ''d''] @ fst x)"
  by (simp_all add: ex_payload_def rel_ok_def valid_name_def apart_def strict_prefix_def loc_def)

theorem pack_unpack_witness:
  "\<exists>dst'. unpack (ex_lib [ex_am] [ex_entries]) ex_meta [] [RootDir, Normal ''d''] (Dir []) =
      (dst', Inr \<lparr>up_meta = ex_am, up_registry = None\<rparr>) \<and>
    (\<forall>x \<in> set ex_payload. \<exists>bs ms. files ex_tree (loc (snd x)) = Some (bs, ms) \<and>
        files dst' (loc [RootDir, Normal ''d''] @ fst x) = Some (bs, ex_meta)) \<and>
    (\<forall>r. r \<notin> (\<lambda>x. loc [RootDir, Normal ''d''] @ fst x) ` set ex_payload \<longrightarrow>
      files dst' r = files (Dir []) r)"
  by (rule pack_unpack [OF ex_lib_ok ex_pack ex_payload_ok])

definition ex_evil :: "tar_entry list" where
  "ex_evil = [(META_PATH, []), (''files/../x'', [9])]"

theorem unpack_refuses_witness:
  "\<not> is_ok (snd (unpack (ex_lib [ex_am] [ex_evil]) ex_meta [] [RootDir, Normal ''d''] ex_tree))"
proof (rule unpack_refuses, rule disjI2, intro exI conjI)
  show "Inr (FILES_PREFIX @ ''../x'', [9]) \<in> set (al_entries (ex_lib [ex_am] [ex_evil]) [])"
    by (simp add: ex_lib_def ex_evil_def FILES_PREFIX_def)
  show "\<not> is_safe_rel_path (components ''../x'')" by code_simp
qed

theorem unpack_confined_witness:
  "files (fst (unpack (ex_lib [ex_am] [ex_entries]) ex_meta [] [RootDir, Normal ''d''] ex_tree)) [''s'', ''a''] =
     files ex_tree [''s'', ''a'']"
  by (rule unpack_confined [OF prod.collapse [symmetric]]) (simp add: loc_def)

end
