(* ===== verification/Ipc.thy ===== *)
theory Ipc
  imports Core_Types
begin

text \<open>
  \<open>savr-core/src/ipc.rs\<close>: the messages between the desktop app and the daemon, and the frame
  codec they travel in: a 4-byte little-endian length, then that many bytes of JSON. The JSON
  serialiser is \<open>serde_json\<close>, so it is a pair of parameters here: \<open>to_vec\<close> and
  \<open>from_slice\<close>. The app's one-request client (\<open>savr-app/src-tauri/src/ipc_client.rs\<close>) is
  modelled on top of the codec.
\<close>

unbundle bit_operations_syntax

section \<open>Messages\<close>

datatype root_kind = SteamRoot | Drive | Emulator | Launcher

record root_spec =
  rsp_kind :: root_kind
  rsp_path :: string

record root =
  rt_id :: uuid
  rt_kind :: root_kind
  rt_path :: string

record custom_game_spec =
  cgs_title :: string
  cgs_install_path :: "string option"
  cgs_save_root :: string
  cgs_include :: "string list"
  cgs_exclude :: "string list"

datatype resolve_choice = KeepMine | KeepTheirs | KeepBoth

record daemon_status =
  ds_version :: string
  ds_uptime_s :: nat
  ds_rss_bytes :: nat
  ds_watched_games :: nat
  ds_server_connected :: bool
  ds_last_backup_at :: "time option"
  ds_pending_outbox :: nat
  ds_autostart_enabled :: bool

datatype detection_event =
    GameStarted uuid nat time
  | GameStopped uuid time
  | ManualBackupRequested uuid
  | SaveDirChanged uuid
  | BackupCompleted uuid
  | BackupConflict uuid
  | SaveAvailable uuid
  | CatalogUpdated

datatype gui_request =
    ListGames
  | ListRoots
  | AddRoot root_spec
  | RemoveRoot uuid
  | BackupNow uuid
  | ListVersions uuid
  | RestoreReq uuid uuid
  | ResolveConflict uuid resolve_choice
  | GetStatus
  | GetConfig
  | UpdateConfig synced_config
  | EnterLearnMode uuid
  | PairDevice string string string
  | SetAutostart bool
  | AddCustomGame custom_game_spec
  | RemoveCustomGame string
  | GetLogs nat
  | Shutdown

datatype daemon_msg =
    Games "game list"
  | Versions "version list"
  | Roots "root list"
  | Logs "string list"
  | Status daemon_status
  | ConfigMsg synced_config
  | Event detection_event
  | ConflictRaised uuid "uuid list"
  | Paired uuid
  | Ok
  | Error string

section \<open>The frame codec\<close>

datatype io_error = UnexpectedEof | Other string | JsonError | Transport string

definition MAX_FRAME :: "32 word" where
  "MAX_FRAME = 32 * 1024 * 1024"

text \<open>\<open>u32::to_le_bytes\<close> and \<open>u32::from_le_bytes\<close> of the standard library.\<close>

definition to_le_bytes :: "32 word \<Rightarrow> byte list" where
  "to_le_bytes w = [ucast w, ucast (drop_bit 8 w), ucast (drop_bit 16 w), ucast (drop_bit 24 w)]"

definition from_le_bytes :: "byte list \<Rightarrow> 32 word" where
  "from_le_bytes bs =
     ucast (bs ! 0) OR push_bit 8 (ucast (bs ! 1)) OR push_bit 16 (ucast (bs ! 2))
       OR push_bit 24 (ucast (bs ! 3))"

definition u32_try_from :: "nat \<Rightarrow> 32 word option" where
  "u32_try_from n = (if n < 2 ^ 32 then Some (of_nat n) else None)"

definition encode_frame :: "('m \<Rightarrow> io_error + byte list) \<Rightarrow> 'm \<Rightarrow> io_error + byte list" where
  "encode_frame to_vec msg =
     bind_res (to_vec msg) (\<lambda>body.
     bind_res (ok_or (u32_try_from (length body)) (Other ''frame too large'')) (\<lambda>len.
     if MAX_FRAME < len then Inl (Other ''frame too large'')
     else Inr (to_le_bytes len @ body)))"

text \<open>
  A byte stream as the reader sees it: the bytes that will still arrive and how the stream ends.
  \<open>read_exact n\<close> takes \<open>n\<close> bytes or fails, with \<open>UnexpectedEof\<close> at a closed stream.
\<close>

datatype stream_end = Eof | Broken string

type_synonym stream = "byte list \<times> stream_end"

fun read_exact :: "nat \<Rightarrow> stream \<Rightarrow> (io_error + byte list) \<times> stream" where
  "read_exact n (bs, e) =
     (if n \<le> length bs then (Inr (take n bs), (drop n bs, e))
      else (Inl (case e of Eof \<Rightarrow> UnexpectedEof | Broken m \<Rightarrow> Transport m), ([], e)))"

definition read_frame ::
  "(byte list \<Rightarrow> io_error + 'm) \<Rightarrow> stream \<Rightarrow> (io_error + 'm option) \<times> stream" where
  "read_frame from_slice r =
     (case read_exact 4 r of
        (Inl UnexpectedEof, r') \<Rightarrow> (Inr None, r')
      | (Inl e, r') \<Rightarrow> (Inl e, r')
      | (Inr len_buf, r') \<Rightarrow>
          (let len = from_le_bytes len_buf in
           if MAX_FRAME < len then (Inl (Other ''frame exceeds MAX_FRAME''), r')
           else (case read_exact (unat len) r' of
                   (Inl e, r'') \<Rightarrow> (Inl e, r'')
                 | (Inr body, r'') \<Rightarrow> (bind_res (from_slice body) (Inr \<circ> Some), r''))))"

section \<open>Round trips\<close>

lemma length_to_le_bytes [simp]: "length (to_le_bytes w) = 4"
  by (simp add: to_le_bytes_def)

lemma from_to_le_bytes [simp]: "from_le_bytes (to_le_bytes w) = w"
proof (rule bit_word_eqI)
  fix n
  assume "n < LENGTH(32)"
  then consider "n < 8" | "8 \<le> n" "n < 16" | "16 \<le> n" "n < 24" | "24 \<le> n" "n < 32"
    by fastforce
  then show "bit (from_le_bytes (to_le_bytes w)) n = bit w n"
    by cases (auto simp: from_le_bytes_def to_le_bytes_def bit_or_iff bit_push_bit_iff
        bit_drop_bit_eq bit_ucast_iff)
qed

lemma from_le_bytes_append [simp]:
  "length h = 4 \<Longrightarrow> from_le_bytes (h @ bs) = from_le_bytes h"
  by (simp add: from_le_bytes_def nth_append)

lemma u32_try_from_Some_iff: "u32_try_from n = Some w \<longleftrightarrow> n < 2 ^ 32 \<and> unat w = n"
  by (auto simp: u32_try_from_def unat_of_nat)

lemma encode_frame_Inr_iff:
  "encode_frame to_vec m = Inr fr \<longleftrightarrow>
     (\<exists>body. to_vec m = Inr body \<and> length body \<le> unat MAX_FRAME
        \<and> fr = to_le_bytes (of_nat (length body)) @ body)"
proof -
  have max: "unat MAX_FRAME < 2 ^ 32" by (simp add: MAX_FRAME_def)
  then have "\<not> MAX_FRAME < of_nat n \<longleftrightarrow> n \<le> unat MAX_FRAME" if "n < 2 ^ 32" for n
    using that by (simp add: word_less_nat_alt unat_of_nat not_less)
  with max show ?thesis
    by (cases "to_vec m") (auto simp: encode_frame_def u32_try_from_def)
qed


text \<open>The codec is the raw byte framing with the serialiser on either side.\<close>

lemma encode_frame_raw: "encode_frame to_vec m = bind_res (to_vec m) (encode_frame Inr)"
  by (cases "to_vec m") (simp_all add: encode_frame_def)

lemma read_frame_raw:
  "read_frame from_slice r =
     (case read_frame Inr r of
        (Inl e, r') \<Rightarrow> (Inl e, r')
      | (Inr None, r') \<Rightarrow> (Inr None, r')
      | (Inr (Some body), r') \<Rightarrow> (bind_res (from_slice body) (Inr \<circ> Some), r'))"
  by (auto simp: read_frame_def Let_def split: prod.splits sum.splits io_error.splits)

lemma read_frame_Inr_encode:
  assumes "encode_frame Inr body = Inr fr"
  shows "read_frame Inr (fr @ rest, e) = (Inr (Some body), (rest, e))"
proof -
  have len: "length body \<le> unat MAX_FRAME" and fr: "fr = to_le_bytes (of_nat (length body)) @ body"
    using assms by (auto simp: encode_frame_Inr_iff)
  moreover have "unat MAX_FRAME < 2 ^ 32" by (simp add: MAX_FRAME_def)
  ultimately have n: "unat (of_nat (length body) :: 32 word) = length body"
    by (simp add: unat_of_nat)
  with len have "\<not> MAX_FRAME < (of_nat (length body) :: 32 word)"
    by (simp add: word_less_nat_alt not_less)
  with n fr show ?thesis by (simp add: read_frame_def Let_def)
qed

lemma read_frame_Eof: "read_frame from_slice ([], Eof) = (Inr None, ([], Eof))"
  by (simp add: read_frame_def)

lemma read_frame_consumes:
  "read_frame from_slice r = (Inr (Some m), r') \<Longrightarrow> length (fst r') < length (fst r)"
  by (cases r) (auto simp: read_frame_def Let_def split: if_splits sum.splits io_error.splits stream_end.splits)

section \<open>The interface of a framing\<close>

text \<open>
  What a reader of a connection relies on: a decoded frame is the one encoded, the rest of the
  stream is untouched, and a closed stream at a frame boundary reads as \<open>None\<close>. From these two
  laws any sequence of frames is read back in order.
\<close>

fun read_many :: "(stream \<Rightarrow> ('e + 'm option) \<times> stream) \<Rightarrow> nat \<Rightarrow> stream \<Rightarrow> ('e + 'm option) list \<times> stream" where
  "read_many dec 0 r = ([], r)"
| "read_many dec (Suc n) r =
     (let (x, r') = dec r; (xs, r'') = read_many dec n r' in (x # xs, r''))"

locale framing =
  fixes enc :: "'m \<Rightarrow> 'e + byte list"
    and dec :: "stream \<Rightarrow> ('e + 'm option) \<times> stream"
  assumes dec_enc: "enc m = Inr fr \<Longrightarrow> dec (fr @ rest, e) = (Inr (Some m), (rest, e))"
    and dec_Eof: "dec ([], Eof) = (Inr None, ([], Eof))"
begin

lemma read_many_frames:
  "list_all2 (\<lambda>m fr. enc m = Inr fr) ms frs \<Longrightarrow>
   read_many dec (length ms) (concat frs @ rest, e) = (map (Inr \<circ> Some) ms, (rest, e))"
  by (induction arbitrary: rest rule: list_all2_induct) (simp_all add: dec_enc)

lemma read_many_then_Eof:
  "list_all2 (\<lambda>m fr. enc m = Inr fr) ms frs \<Longrightarrow>
   dec (snd (read_many dec (length ms) (concat frs, Eof))) = (Inr None, ([], Eof))"
  using read_many_frames [of ms frs "[]" Eof] by (simp add: dec_Eof)

lemma enc_inj: "enc m = Inr fr \<Longrightarrow> enc m' = Inr fr \<Longrightarrow> m = m'"
  using dec_enc [of m fr "[]" Eof] dec_enc [of m' fr "[]" Eof] by simp

lemma enc_prefix_free:
  "enc m = Inr fr \<Longrightarrow> enc m' = Inr (fr @ extra) \<Longrightarrow> extra = [] \<and> m = m'"
  using dec_enc [of m fr extra Eof] dec_enc [of m' "fr @ extra" "[]" Eof] by auto

end

interpretation raw: framing "encode_frame Inr" "read_frame Inr"
  by unfold_locales (simp_all add: read_frame_Inr_encode read_frame_Eof)

lemma list_all2_encode_raw:
  "list_all2 (\<lambda>m fr. encode_frame to_vec m = Inr fr) ms frs \<Longrightarrow>
   \<exists>bodies. list_all2 (\<lambda>m b. to_vec m = Inr b) ms bodies
     \<and> list_all2 (\<lambda>b fr. encode_frame Inr b = Inr fr) bodies frs"
proof (induction rule: list_all2_induct)
  case Nil
  then show ?case by simp
next
  case (Cons m ms fr frs)
  then obtain bodies where bs: "list_all2 (\<lambda>m b. to_vec m = Inr b) ms bodies"
      "list_all2 (\<lambda>b fr. encode_frame Inr b = Inr fr) bodies frs" by blast
  from Cons.hyps(1) obtain b where "to_vec m = Inr b" "encode_frame Inr b = Inr fr"
    by (auto simp: encode_frame_raw [of to_vec] bind_res_Inr_iff)
  with bs have "list_all2 (\<lambda>m b. to_vec m = Inr b) (m # ms) (b # bodies)"
      "list_all2 (\<lambda>b fr. encode_frame Inr b = Inr fr) (b # bodies) (fr # frs)" by simp_all
  then show ?case by blast
qed

lemma read_frame_encode:
  assumes json: "\<And>b. to_vec m = Inr b \<Longrightarrow> from_slice b = Inr m"
    and "encode_frame to_vec m = Inr fr"
  shows "read_frame from_slice (fr @ rest, e) = (Inr (Some m), (rest, e))"
proof -
  from assms(2) obtain b where b: "to_vec m = Inr b" "encode_frame Inr b = Inr fr"
    by (auto simp: encode_frame_raw [of to_vec] bind_res_Inr_iff)
  then show ?thesis by (simp add: read_frame_raw [of from_slice] raw.dec_enc json)
qed

section \<open>The app's client: one request, one reply (ipc\_client.rs)\<close>

datatype cmd_error = DaemonUnreachable string | Daemon string | Protocol string | Io io_error

text \<open>
  Every connection also carries the daemon's live events, so the reply loop skips \<open>Event\<close>
  frames. Each frame takes bytes off the stream, so the loop ends.
\<close>

function read_reply ::
  "(byte list \<Rightarrow> io_error + daemon_msg) \<Rightarrow> stream \<Rightarrow> cmd_error + daemon_msg" where
  "read_reply from_slice sock =
     (case read_frame from_slice sock of
        (Inl e, _) \<Rightarrow> Inl (Io e)
      | (Inr None, _) \<Rightarrow>
          Inl (DaemonUnreachable ''daemon closed the connection without responding'')
      | (Inr (Some (Event ev)), sock') \<Rightarrow> read_reply from_slice sock'
      | (Inr (Some (Error message)), _) \<Rightarrow> Inl (Daemon message)
      | (Inr (Some msg), _) \<Rightarrow> Inr msg)"
  by pat_completeness auto
termination
  by (relation "measure (\<lambda>(_, sock). length (fst sock))")
    (auto dest: read_frame_consumes [OF sym])

declare read_reply.simps [simp del]

definition request ::
  "(gui_request \<Rightarrow> io_error + byte list) \<Rightarrow> (byte list \<Rightarrow> io_error + daemon_msg) \<Rightarrow>
   cmd_error + (byte list \<Rightarrow> io_error + stream) \<Rightarrow> gui_request \<Rightarrow> cmd_error + daemon_msg" where
  "request to_vec from_slice connect req =
     bind_res connect (\<lambda>send.
     case encode_frame to_vec req of
       Inl e \<Rightarrow> Inl (Io e)
     | Inr frame \<Rightarrow>
         (case send frame of Inl e \<Rightarrow> Inl (Io e) | Inr sock \<Rightarrow> read_reply from_slice sock))"

fun is_event :: "daemon_msg \<Rightarrow> bool" where
  "is_event (Event _) = True"
| "is_event _ = False"

definition reply_of :: "daemon_msg \<Rightarrow> cmd_error + daemon_msg" where
  "reply_of msg = (case msg of Error m \<Rightarrow> Inl (Daemon m) | _ \<Rightarrow> Inr msg)"

lemma read_reply_event:
  assumes "\<And>b. to_vec (Event ev) = Inr b \<Longrightarrow> from_slice b = Inr (Event ev)"
    and "encode_frame to_vec (Event ev) = Inr fr"
  shows "read_reply from_slice (fr @ rest, e) = read_reply from_slice (rest, e)"
  using read_frame_encode [OF assms, where rest = rest and e = e] by (subst read_reply.simps) simp

lemma read_reply_final:
  assumes "\<And>b. to_vec msg = Inr b \<Longrightarrow> from_slice b = Inr msg"
    and "encode_frame to_vec msg = Inr fr" and "\<not> is_event msg"
  shows "read_reply from_slice (fr @ rest, e) = reply_of msg"
  using read_frame_encode [OF assms(1,2), where rest = rest and e = e] assms(3)
  by (subst read_reply.simps) (cases msg; simp add: reply_of_def)

lemma read_reply_events:
  assumes json: "\<And>m b. to_vec m = Inr b \<Longrightarrow> from_slice b = Inr m"
    and "list_all2 (\<lambda>ev fr. encode_frame to_vec (Event ev) = Inr fr) evs frs"
  shows "read_reply from_slice (concat frs @ rest, e) = read_reply from_slice (rest, e)"
  using assms(2)
proof (induction arbitrary: rest rule: list_all2_induct)
  case Nil
  then show ?case by simp
next
  case (Cons ev evs fr frs)
  have "read_reply from_slice (fr @ concat frs @ rest, e) = read_reply from_slice (concat frs @ rest, e)"
    using json Cons.hyps(1) by (rule read_reply_event)
  with Cons.IH show ?case by simp
qed

section \<open>Properties\<close>

text \<open>The codec on typed messages is a framing as soon as the serialiser round-trips.\<close>

lemma json_framing:
  assumes "\<And>m b. to_vec m = Inr b \<Longrightarrow> from_slice b = Inr m"
  shows "framing (encode_frame to_vec) (read_frame from_slice)"
proof
  fix m fr bs e
  assume "encode_frame to_vec m = Inr fr"
  with assms show "read_frame from_slice (fr @ bs, e) = (Inr (Some m), (bs, e))" by (rule read_frame_encode)
qed (rule read_frame_Eof)

text \<open>Any sequence of messages written to a connection is read back, in order and without a
  byte left over or taken from the next frame, and the end of the connection after the last one
  reads as the absence of a frame. The one thing asked of the JSON library is that it parses
  what it printed.\<close>

theorem frames_roundtrip:
  assumes json: "\<And>m b. to_vec m = Inr b \<Longrightarrow> from_slice b = Inr m"
    and "list_all2 (\<lambda>m fr. encode_frame to_vec m = Inr fr) ms frs"
  shows "read_many (read_frame from_slice) (length ms) (concat frs @ more_bytes, e) =
           (map (Inr \<circ> Some) ms, (more_bytes, e)) \<and>
         read_frame from_slice (snd (read_many (read_frame from_slice) (length ms) (concat frs, Eof))) =
           (Inr None, ([], Eof))"
proof -
  have "framing (encode_frame to_vec) (read_frame from_slice)" using json by (rule json_framing)
  with assms(2) show ?thesis by (simp add: framing.read_many_frames framing.read_many_then_Eof)
qed

theorem frames_roundtrip_witness:
  "read_many (read_frame Inr) 2 ([1, 0, 0, 0, 7, 2, 0, 0, 0, 8, 9], Eof) =
     ([Inr (Some [7]), Inr (Some [8, 9])], ([], Eof))"
proof -
  have "encode_frame Inr [7] = Inr [1, 0, 0, 0, 7]" "encode_frame Inr [8, 9] = Inr [2, 0, 0, 0, 8, 9]"
    by (simp_all add: encode_frame_def u32_try_from_def to_le_bytes_def MAX_FRAME_def)
  with frames_roundtrip [of Inr Inr "[[7], [8, 9]]" "[[1, 0, 0, 0, 7], [2, 0, 0, 0, 8, 9]]" "[]" Eof]
  show ?thesis by (simp del: read_many.simps add: numeral_2_eq_2)
qed

text \<open>The size limit, on both sides. A message whose JSON has at most 32 MiB is framed by four
  bytes of length, and the decoder reads that length back; a longer one, also one whose length does not fit 32
  bits, is refused with an error; and a header that announces more than 32 MiB is refused before a
  single byte of the body is read.\<close>

theorem frame_size_limit:
  assumes "to_vec m = Inr body"
  shows "encode_frame to_vec m =
      (if length body \<le> 33554432 then Inr (to_le_bytes (of_nat (length body)) @ body)
       else Inl (Other ''frame too large'')) \<and>
     (length body \<le> 33554432 \<longrightarrow> unat (from_le_bytes (to_le_bytes (of_nat (length body)))) = length body) \<and>
     (MAX_FRAME < n \<longrightarrow>
        read_frame from_slice (to_le_bytes n @ body, e) = (Inl (Other ''frame exceeds MAX_FRAME''), (body, e)))"
proof -
  have "encode_frame to_vec m =
      (if length body \<le> 33554432 then Inr (to_le_bytes (of_nat (length body)) @ body)
       else Inl (Other ''frame too large''))"
  proof (cases "length body < 2 ^ 32")
    case True
    then have "MAX_FRAME < of_nat (length body) \<longleftrightarrow> \<not> length body \<le> 33554432"
      by (simp add: word_less_nat_alt unat_of_nat MAX_FRAME_def not_le)
    with True assms show ?thesis by (simp add: encode_frame_def u32_try_from_def)
  qed (simp add: encode_frame_def u32_try_from_def assms)
  moreover have "length body \<le> 33554432 \<longrightarrow> unat (of_nat (length body) :: 32 word) = length body"
    by (simp add: unat_of_nat)
  ultimately show ?thesis by (simp add: read_frame_def Let_def)
qed

theorem frame_size_limit_witness:
  "encode_frame Inr [7] = Inr [1, 0, 0, 0, 7] \<and>
   read_frame Inr (to_le_bytes 33554433 @ [7], Eof) = (Inl (Other ''frame exceeds MAX_FRAME''), ([7], Eof))"
proof
  show "encode_frame Inr [7] = Inr [1, 0, 0, 0, 7]"
    using frame_size_limit [of Inr "[7]" "[7]" 0 Inr Eof] by (simp add: to_le_bytes_def)
  have "MAX_FRAME < 33554433" by (simp add: MAX_FRAME_def)
  then show "read_frame Inr (to_le_bytes 33554433 @ [7], Eof) = (Inl (Other ''frame exceeds MAX_FRAME''), ([7], Eof))"
    using frame_size_limit [of Inr "[7]" "[7]" 33554433 Inr Eof] by blast
qed

text \<open>A connection that ends inside a header, after one to three bytes of it, reads as a clean
  end of stream; one that ends inside a body is an error.\<close>

theorem read_frame_truncated:
  "(length header < 4 \<longrightarrow> read_frame from_slice (header, Eof) = (Inr None, ([], Eof))) \<and>
   (length body < unat n \<and> n \<le> MAX_FRAME \<longrightarrow>
      read_frame from_slice (to_le_bytes n @ body, Eof) = (Inl UnexpectedEof, ([], Eof)))"
  by (auto simp: read_frame_def Let_def not_less)

theorem read_frame_truncated_witness:
  "read_frame Inr ([1, 2, 3], Eof) = (Inr None, ([], Eof)) \<and>
   read_frame Inr (to_le_bytes 5 @ [9], Eof) = (Inl UnexpectedEof, ([], Eof))"
proof
  show "read_frame Inr ([1, 2, 3], Eof) = (Inr None, ([], Eof))"
    using read_frame_truncated [of "[1, 2, 3]" Inr "[]" 0] by simp
  have "length [9 :: byte] < unat (5 :: 32 word) \<and> 5 \<le> MAX_FRAME" by (simp add: MAX_FRAME_def)
  then show "read_frame Inr (to_le_bytes 5 @ [9], Eof) = (Inl UnexpectedEof, ([], Eof))"
    using read_frame_truncated [of "[]" Inr "[9]" 5] by blast
qed

text \<open>A request gets its own reply. However many live events the daemon pushes on the connection
  before it answers, the client returns exactly the first message that is not an event, as a
  value or, for an error message, as an error; and if the daemon closes the connection instead,
  it reports that.\<close>

theorem request_skips_events:
  assumes json: "\<And>m b. to_vec m = Inr b \<Longrightarrow> from_slice b = Inr m"
    and "encode_frame req_to_vec req = Inr frame"
    and "list_all2 (\<lambda>ev fr. encode_frame to_vec (Event ev) = Inr fr) evs frs"
    and "encode_frame to_vec msg = Inr fr" and "\<not> is_event msg"
    and "send frame = Inr (concat frs @ fr @ more_bytes, e)" and "send' frame = Inr (concat frs, Eof)"
  shows "request req_to_vec from_slice (Inr send) req = reply_of msg \<and>
         request req_to_vec from_slice (Inr send') req =
           Inl (DaemonUnreachable ''daemon closed the connection without responding'')"
proof -
  have "read_reply from_slice (concat frs @ fr @ more_bytes, e) = reply_of msg"
    using read_reply_events [of to_vec from_slice, OF json assms(3)] read_reply_final [OF json assms(4,5)]
    by simp
  moreover have "read_reply from_slice (concat frs @ [], Eof) = read_reply from_slice ([], Eof)"
    using read_reply_events [of to_vec from_slice, OF json assms(3)] .
  moreover have "read_reply from_slice ([], Eof) =
      Inl (DaemonUnreachable ''daemon closed the connection without responding'')"
    by (subst read_reply.simps) (simp add: read_frame_Eof)
  ultimately show ?thesis using assms(2,6,7) by (simp add: request_def)
qed

definition ex_to_vec :: "daemon_msg \<Rightarrow> io_error + byte list" where
  "ex_to_vec m = (if m = Event CatalogUpdated then Inr [1] else if m = Ok then Inr [2] else Inl JsonError)"

definition ex_from_slice :: "byte list \<Rightarrow> io_error + daemon_msg" where
  "ex_from_slice b = (if b = [1] then Inr (Event CatalogUpdated) else if b = [2] then Inr Ok else Inl JsonError)"

theorem request_skips_events_witness:
  "request (\<lambda>_. Inr []) ex_from_slice (Inr (\<lambda>_. Inr ([1, 0, 0, 0, 1, 1, 0, 0, 0, 2], Eof))) ListGames = Inr Ok"
proof -
  have json: "ex_to_vec m = Inr b \<Longrightarrow> ex_from_slice b = Inr m" for m b
    by (auto simp: ex_to_vec_def ex_from_slice_def split: if_splits)
  have "encode_frame ex_to_vec (Event CatalogUpdated) = Inr [1, 0, 0, 0, 1]" "encode_frame ex_to_vec Ok = Inr [1, 0, 0, 0, 2]"
    by (simp_all add: encode_frame_def ex_to_vec_def u32_try_from_def to_le_bytes_def MAX_FRAME_def)
  with request_skips_events [of ex_to_vec ex_from_slice "\<lambda>_. Inr []" ListGames "[0, 0, 0, 0]" "[CatalogUpdated]"
      "[[1, 0, 0, 0, 1]]" Ok "[1, 0, 0, 0, 2]" "\<lambda>_. Inr ([1, 0, 0, 0, 1, 1, 0, 0, 0, 2], Eof)" "[]" Eof
      "\<lambda>_. Inr ([1, 0, 0, 0, 1], Eof)", OF json]
  show ?thesis
    by (simp add: reply_of_def encode_frame_def u32_try_from_def to_le_bytes_def MAX_FRAME_def)
qed

end
