(* ===== verification/Local_State.thy ===== *)
theory Local_State
  imports Ipc "HOL-Library.Char_ord" "HOL-Library.List_Lexorder" "HOL-Library.Option_ord" "HOL-Library.AList"
begin

text \<open>
  The daemon's own database (\<open>savr-daemon/src/state.rs\<close>): the last snapshot of each game, the
  executable index, the outbox of uploads that wait for the server, the registered roots, a
  key/value table, play statistics and hand-registered games. A table is a map from its primary
  key, or the list of its rows in insertion order where the code reads them in an order. Columns
  hold the values that the code binds and reads back; the RFC 3339 strings of the times are in UTC
  and compare like the times. \<open>normalize_title\<close> (\<open>naming.rs\<close>) gives the key of a
  hand-registered game.
\<close>

section \<open>Tables\<close>

record stored_snapshot =
  ss_files :: "file_entry list"
  ss_taken_at :: time
  ss_local_head :: "uuid option"

record outbox_row =
  ob_version_id :: uuid
  ob_payload :: "byte list"
  ob_attempts :: int
  ob_next_retry :: "time option"

record outbox_item =
  oi_version_id :: uuid
  oi_payload :: "byte list"
  oi_attempts :: int

record play_row =
  pl_session_start :: "time option"
  pl_last_played :: "time option"
  pl_last_session_secs :: "int option"
  pl_total_secs :: int

record play_stat =
  ps_last_played :: "time option"
  ps_last_session_secs :: "int option"
  ps_total_secs :: int

record custom_game =
  cg_title :: string
  cg_install_path :: "string option"
  cg_save_root :: string
  cg_include :: "string list"
  cg_exclude :: "string list"

record custom_row =
  cr_norm_title :: string
  cr_title :: string
  cr_install_path :: "string option"
  cr_save_root :: string
  cr_include_glob :: string
  cr_exclude_glob :: string

record local_state =
  ls_snapshots :: "uuid \<rightharpoonup> stored_snapshot"
  ls_exe :: "(string \<times> uuid \<times> int) list"
  ls_outbox :: "outbox_row list"
  ls_roots :: "root list"
  ls_meta :: "string \<rightharpoonup> string"
  ls_play :: "uuid \<rightharpoonup> play_row"
  ls_custom :: "custom_row list"

text \<open>The database right after \<open>init\<close> on a new file.\<close>

definition init :: local_state where
  "init =
     \<lparr>ls_snapshots = Map.empty, ls_exe = [], ls_outbox = [], ls_roots = [], ls_meta = Map.empty,
      ls_play = Map.empty, ls_custom = []\<rparr>"

section \<open>Snapshots\<close>

definition get_snapshot :: "local_state \<Rightarrow> uuid \<Rightarrow> stored_snapshot option" where
  "get_snapshot s game = ls_snapshots s game"

definition put_snapshot ::
  "local_state \<Rightarrow> uuid \<Rightarrow> file_entry list \<Rightarrow> time \<Rightarrow> uuid option \<Rightarrow> local_state" where
  "put_snapshot s game fs taken_at local_head =
     s\<lparr>ls_snapshots := (ls_snapshots s)(game \<mapsto>
         \<lparr>ss_files = fs, ss_taken_at = taken_at, ss_local_head = local_head\<rparr>)\<rparr>"

definition set_local_head :: "local_state \<Rightarrow> uuid \<Rightarrow> uuid \<Rightarrow> local_state" where
  "set_local_head s game head =
     (case ls_snapshots s game of
        None \<Rightarrow> s
      | Some r \<Rightarrow> s\<lparr>ls_snapshots := (ls_snapshots s)(game \<mapsto> r\<lparr>ss_local_head := Some head\<rparr>)\<rparr>)"

section \<open>Executable index\<close>

definition load_exe_rows :: "local_state \<Rightarrow> (string \<times> uuid \<times> int) list" where
  "load_exe_rows s = ls_exe s"

definition insert_exe_row ::
  "string \<times> uuid \<times> int \<Rightarrow> (string \<times> uuid \<times> int) list \<Rightarrow> (string \<times> uuid \<times> int) list" where
  "insert_exe_row r t = filter (\<lambda>r'. fst r' \<noteq> fst r) t @ [r]"

definition replace_exe_index :: "local_state \<Rightarrow> (string \<times> uuid \<times> int) list \<Rightarrow> local_state" where
  "replace_exe_index s rows = s\<lparr>ls_exe := fold insert_exe_row rows []\<rparr>"

section \<open>Outbox\<close>

definition enqueue_outbox :: "local_state \<Rightarrow> uuid \<Rightarrow> byte list \<Rightarrow> time \<Rightarrow> local_state" where
  "enqueue_outbox s i payload next_retry =
     (let attempts = (case List.find (\<lambda>r. ob_version_id r = i) (ls_outbox s) of
                        None \<Rightarrow> 0 | Some r \<Rightarrow> ob_attempts r)
      in s\<lparr>ls_outbox :=
             filter (\<lambda>r. ob_version_id r \<noteq> i) (ls_outbox s)
             @ [\<lparr>ob_version_id = i, ob_payload = payload, ob_attempts = attempts,
                 ob_next_retry = Some next_retry\<rparr>]\<rparr>)"

definition is_due :: "time \<Rightarrow> outbox_row \<Rightarrow> bool" where
  "is_due now r = (case ob_next_retry r of None \<Rightarrow> True | Some t \<Rightarrow> t \<le> now)"

definition outbox_item_of :: "outbox_row \<Rightarrow> outbox_item" where
  "outbox_item_of r =
     \<lparr>oi_version_id = ob_version_id r, oi_payload = ob_payload r, oi_attempts = ob_attempts r\<rparr>"

text \<open>\<open>ORDER BY next_retry\<close>: a null comes first.\<close>

definition due_outbox :: "local_state \<Rightarrow> time \<Rightarrow> outbox_item list" where
  "due_outbox s now =
     map outbox_item_of (sort_key ob_next_retry (filter (is_due now) (ls_outbox s)))"

definition bump_outbox_attempt :: "local_state \<Rightarrow> uuid \<Rightarrow> time \<Rightarrow> local_state" where
  "bump_outbox_attempt s i next_retry =
     s\<lparr>ls_outbox := map (\<lambda>r. if ob_version_id r = i
         then r\<lparr>ob_attempts := ob_attempts r + 1, ob_next_retry := Some next_retry\<rparr> else r) (ls_outbox s)\<rparr>"

definition remove_outbox :: "local_state \<Rightarrow> uuid \<Rightarrow> local_state" where
  "remove_outbox s i = s\<lparr>ls_outbox := filter (\<lambda>r. ob_version_id r \<noteq> i) (ls_outbox s)\<rparr>"

definition outbox_count :: "local_state \<Rightarrow> 32 word" where
  "outbox_count s = of_nat (length (ls_outbox s))"

section \<open>Roots\<close>

definition root_kind_str :: "root_kind \<Rightarrow> string" where
  "root_kind_str k =
     (case k of SteamRoot \<Rightarrow> ''steam'' | Drive \<Rightarrow> ''drive'' | Emulator \<Rightarrow> ''emulator''
      | Launcher \<Rightarrow> ''launcher'')"

definition root_kind_from_str :: "string \<Rightarrow> root_kind" where
  "root_kind_from_str s =
     (if s = ''drive'' then Drive else if s = ''emulator'' then Emulator
      else if s = ''launcher'' then Launcher else SteamRoot)"

text \<open>The fresh identifier is an argument; a duplicate key is the only way to fail.\<close>

definition add_root :: "local_state \<Rightarrow> uuid \<Rightarrow> root_kind \<Rightarrow> string \<Rightarrow> local_state \<times> (string + root)" where
  "add_root s i kind p =
     (let r = \<lparr>rt_id = i, rt_kind = kind, rt_path = p\<rparr> in
      if list_ex (\<lambda>r'. rt_id r' = i) (ls_roots s) then (s, Inl ''UNIQUE constraint failed: roots.id'')
      else (s\<lparr>ls_roots := ls_roots s @ [r\<lparr>rt_kind := root_kind_from_str (root_kind_str kind)\<rparr>]\<rparr>, Inr r))"

definition remove_root :: "local_state \<Rightarrow> uuid \<Rightarrow> local_state" where
  "remove_root s i = s\<lparr>ls_roots := filter (\<lambda>r. rt_id r \<noteq> i) (ls_roots s)\<rparr>"

definition list_roots :: "local_state \<Rightarrow> root list" where
  "list_roots s = sort_key rt_path (ls_roots s)"

section \<open>Key/value table\<close>

definition get_meta :: "local_state \<Rightarrow> string \<Rightarrow> string option" where
  "get_meta s key = ls_meta s key"

definition set_meta :: "local_state \<Rightarrow> string \<Rightarrow> string \<Rightarrow> local_state" where
  "set_meta s key val = s\<lparr>ls_meta := (ls_meta s)(key \<mapsto> val)\<rparr>"

text \<open>The JSON of a configuration and the RFC 3339 text of a time are parameters.\<close>

definition synced_config_of ::
  "(string \<Rightarrow> string + synced_config) \<Rightarrow> local_state \<Rightarrow> string + synced_config option" where
  "synced_config_of parse s =
     (case get_meta s ''synced_config'' of
        None \<Rightarrow> Inr None
      | Some json \<Rightarrow> bind_res (parse json) (\<lambda>c. Inr (Some c)))"

definition set_synced_config ::
  "(synced_config \<Rightarrow> string) \<Rightarrow> local_state \<Rightarrow> synced_config \<Rightarrow> local_state" where
  "set_synced_config print s cfg = set_meta s ''synced_config'' (print cfg)"

definition last_backup_at :: "(string \<Rightarrow> string + time) \<Rightarrow> local_state \<Rightarrow> string + time option" where
  "last_backup_at parse s =
     (case get_meta s ''last_backup_at'' of
        None \<Rightarrow> Inr None
      | Some t \<Rightarrow> bind_res (parse t) (\<lambda>t. Inr (Some t)))"

definition set_last_backup_at :: "(time \<Rightarrow> string) \<Rightarrow> local_state \<Rightarrow> time \<Rightarrow> local_state" where
  "set_last_backup_at print s t = set_meta s ''last_backup_at'' (print t)"

section \<open>Play statistics\<close>

definition play_start :: "local_state \<Rightarrow> uuid \<Rightarrow> time \<Rightarrow> local_state" where
  "play_start s game at =
     s\<lparr>ls_play := (ls_play s)(game \<mapsto>
         (case ls_play s game of
            None \<Rightarrow> \<lparr>pl_session_start = Some at, pl_last_played = Some at,
                     pl_last_session_secs = None, pl_total_secs = 0\<rparr>
          | Some r \<Rightarrow> r\<lparr>pl_session_start := Some at, pl_last_played := Some at\<rparr>))\<rparr>"

text \<open>\<open>TimeDelta::num_seconds\<close> rounds towards zero; times are nanoseconds.\<close>

definition num_seconds :: "int \<Rightarrow> int" where
  "num_seconds d = (if d < 0 then - ((- d) div 1000000000) else d div 1000000000)"

definition play_stop :: "local_state \<Rightarrow> uuid \<Rightarrow> time \<Rightarrow> local_state" where
  "play_stop s game at =
     (case ls_play s game of
        None \<Rightarrow>
          s\<lparr>ls_play := (ls_play s)(game \<mapsto>
              \<lparr>pl_session_start = None, pl_last_played = Some at, pl_last_session_secs = None,
               pl_total_secs = 0\<rparr>)\<rparr>
      | Some r \<Rightarrow>
          (case pl_session_start r of
             Some started \<Rightarrow>
               (let secs = max (num_seconds (at - started)) 0 in
                s\<lparr>ls_play := (ls_play s)(game \<mapsto>
                    r\<lparr>pl_session_start := None, pl_last_played := Some at,
                      pl_last_session_secs := Some secs, pl_total_secs := pl_total_secs r + secs\<rparr>)\<rparr>)
           | None \<Rightarrow>
               s\<lparr>ls_play := (ls_play s)(game \<mapsto> r\<lparr>pl_last_played := Some at\<rparr>)\<rparr>))"

definition close_orphaned_sessions :: "local_state \<Rightarrow> local_state" where
  "close_orphaned_sessions s =
     s\<lparr>ls_play := (\<lambda>g. map_option (\<lambda>r. r\<lparr>pl_session_start := None\<rparr>) (ls_play s g))\<rparr>"

definition play_stats :: "local_state \<Rightarrow> uuid \<Rightarrow> play_stat option" where
  "play_stats s g =
     map_option (\<lambda>r. \<lparr>ps_last_played = pl_last_played r,
       ps_last_session_secs = pl_last_session_secs r, ps_total_secs = pl_total_secs r\<rparr>) (ls_play s g)"

section \<open>Hand-registered games\<close>

definition char_code :: "char \<Rightarrow> nat" where
  "char_code c = of_char c"

definition is_ascii_upper :: "char \<Rightarrow> bool" where
  "is_ascii_upper c = (65 \<le> char_code c \<and> char_code c \<le> 90)"

definition is_ascii_alphanumeric :: "char \<Rightarrow> bool" where
  "is_ascii_alphanumeric c =
     (48 \<le> char_code c \<and> char_code c \<le> 57 \<or> is_ascii_upper c \<or> 97 \<le> char_code c \<and> char_code c \<le> 122)"

definition to_ascii_lowercase :: "char \<Rightarrow> char" where
  "to_ascii_lowercase c = (if is_ascii_upper c then char_of (char_code c + 32) else c)"

definition normalize_title :: "string \<Rightarrow> string" where
  "normalize_title s = map to_ascii_lowercase (filter is_ascii_alphanumeric s)"

abbreviation newline :: char where "newline \<equiv> CHR 0x0A"
abbreviation carriage_return :: char where "carriage_return \<equiv> CHR 0x0D"

definition add_custom_game :: "local_state \<Rightarrow> custom_game \<Rightarrow> local_state \<times> (string + unit)" where
  "add_custom_game s g =
     (let norm = normalize_title (cg_title g) in
      if norm = '''' then (s, Inl ''game title must contain letters or digits'')
      else if list_ex (\<lambda>r. cr_norm_title r = norm) (ls_custom s)
      then (s, Inl (''a game named '' @ [CHR 0x27] @ cg_title g @ [CHR 0x27] @ '' is already added''))
      else
        (s\<lparr>ls_custom := ls_custom s @
            [\<lparr>cr_norm_title = norm, cr_title = cg_title g, cr_install_path = cg_install_path g,
              cr_save_root = cg_save_root g, cr_include_glob = join_with [newline] (cg_include g),
              cr_exclude_glob = join_with [newline] (cg_exclude g)\<rparr>]\<rparr>, Inr ()))"

text \<open>\<open>str::lines\<close>: a line ends at a newline, with an optional carriage return before it; an
  empty rest after the last newline is no line.\<close>

definition strip_cr :: "string \<Rightarrow> string" where
  "strip_cr s = (if s \<noteq> [] \<and> last s = carriage_return then butlast s else s)"

definition lines :: "string \<Rightarrow> string list" where
  "lines s =
     (let ps = split_on newline s in
      map strip_cr (butlast ps) @ (if last ps = '''' then [] else [last ps]))"

definition split_globs :: "string \<Rightarrow> string list" where
  "split_globs s = filter (\<lambda>l. l \<noteq> '''') (lines s)"

definition custom_game_of :: "custom_row \<Rightarrow> custom_game" where
  "custom_game_of r =
     \<lparr>cg_title = cr_title r, cg_install_path = cr_install_path r, cg_save_root = cr_save_root r,
      cg_include = split_globs (cr_include_glob r), cg_exclude = split_globs (cr_exclude_glob r)\<rparr>"

definition list_custom_games :: "local_state \<Rightarrow> custom_game list" where
  "list_custom_games s = map custom_game_of (sort_key cr_title (ls_custom s))"

definition remove_custom_game :: "local_state \<Rightarrow> string \<Rightarrow> local_state" where
  "remove_custom_game s norm = s\<lparr>ls_custom := filter (\<lambda>r. cr_norm_title r \<noteq> norm) (ls_custom s)\<rparr>"

section \<open>Lookups and updates\<close>

interpretation kv: keyed_store get_meta set_meta
  by unfold_locales (simp add: get_meta_def set_meta_def)

interpretation snaps: keyed_store get_snapshot
    "\<lambda>s g r. put_snapshot s g (ss_files r) (ss_taken_at r) (ss_local_head r)"
  by unfold_locales (simp add: get_snapshot_def put_snapshot_def)

lemma set_local_head_at:
  "get_snapshot (set_local_head s g h) g' =
     (if g' = g then map_option (\<lambda>r. r\<lparr>ss_local_head := Some h\<rparr>) (get_snapshot s g) else get_snapshot s g')"
  by (auto simp: set_local_head_def get_snapshot_def split: option.splits)

lemma snapshot_frame [simp]:
  "get_snapshot (set_meta s k v) g = get_snapshot s g"
  "get_snapshot (enqueue_outbox s i p t) g = get_snapshot s g"
  "get_snapshot (remove_outbox s i) g = get_snapshot s g"
  "get_snapshot (bump_outbox_attempt s i t) g = get_snapshot s g"
  by (simp_all add: get_snapshot_def set_meta_def enqueue_outbox_def remove_outbox_def
      bump_outbox_attempt_def Let_def)

lemma meta_frame [simp]:
  "get_meta (put_snapshot s g fs t h) k = get_meta s k"
  "get_meta (set_local_head s g nh) k = get_meta s k"
  "get_meta (enqueue_outbox s i p t) k = get_meta s k"
  "get_meta (remove_outbox s i) k = get_meta s k"
  "get_meta (bump_outbox_attempt s i t) k = get_meta s k"
  by (simp_all add: get_meta_def put_snapshot_def set_local_head_def enqueue_outbox_def
      remove_outbox_def bump_outbox_attempt_def Let_def split: option.splits)

lemma outbox_frame [simp]:
  "ls_outbox (put_snapshot s g fs t h) = ls_outbox s"
  "ls_outbox (set_local_head s g nh) = ls_outbox s"
  "ls_outbox (set_meta s k v) = ls_outbox s"
  by (simp_all add: put_snapshot_def set_local_head_def set_meta_def split: option.splits)

section \<open>Hand-registered games come back as they were added\<close>

definition glob_line :: "string \<Rightarrow> bool" where
  "glob_line g = (g \<noteq> '''' \<and> newline \<notin> set g \<and> last g \<noteq> carriage_return)"

definition globs_ok :: "custom_game \<Rightarrow> bool" where
  "globs_ok g = (list_all glob_line (cg_include g) \<and> list_all glob_line (cg_exclude g))"

lemma strip_cr_glob: "glob_line g \<Longrightarrow> strip_cr g = g"
  by (simp add: glob_line_def strip_cr_def)

lemma split_globs_join: "list_all glob_line gs \<Longrightarrow> split_globs (join_with [newline] gs) = gs"
proof (cases "gs = []")
  case True
  then show ?thesis by (simp add: split_globs_def lines_def)
next
  case False
  assume gs: "list_all glob_line gs"
  then have "\<forall>w \<in> set gs. newline \<notin> set w" by (auto simp: list_all_iff glob_line_def)
  with False have sp: "split_on newline (join_with [newline] gs) = gs" by (simp add: split_join_on)
  have "map strip_cr (butlast gs) = butlast gs"
    using gs by (intro map_idI strip_cr_glob) (auto simp: list_all_iff dest: in_set_butlastD)
  moreover have "last gs \<noteq> ''''" using False gs by (auto simp: list_all_iff glob_line_def)
  ultimately have "lines (join_with [newline] gs) = gs" using False by (simp add: lines_def sp)
  then show ?thesis using gs
    by (auto simp: split_globs_def list_all_iff glob_line_def intro!: filter_True)
qed

lemma custom_game_of_row:
  "globs_ok g \<Longrightarrow>
   custom_game_of \<lparr>cr_norm_title = n, cr_title = cg_title g, cr_install_path = cg_install_path g,
     cr_save_root = cg_save_root g, cr_include_glob = join_with [newline] (cg_include g),
     cr_exclude_glob = join_with [newline] (cg_exclude g)\<rparr> = g"
  by (simp add: custom_game_of_def globs_ok_def split_globs_join)

text \<open>A hand-registered game survives its storage. When \<open>add_custom_game\<close> accepts a game whose
  globs are single non-empty lines, the list read back is the old list with exactly that game
  added, globs included; registering a title that differs only in case, spacing or punctuation is
  then refused and changes nothing; and removing it by its normalized title gives the old list.\<close>

theorem custom_game_roundtrip:
  assumes "add_custom_game s g = (s', Inr ())" and "globs_ok g"
  shows "set (list_custom_games s') = insert g (set (list_custom_games s)) \<and>
    length (list_custom_games s') = Suc (length (list_custom_games s)) \<and>
    (normalize_title (cg_title h) = normalize_title (cg_title g) \<longrightarrow>
       fst (add_custom_game s' h) = s' \<and> \<not> is_ok (snd (add_custom_game s' h))) \<and>
    list_custom_games (remove_custom_game s' (normalize_title (cg_title g))) = list_custom_games s"
proof -
  let ?n = "normalize_title (cg_title g)"
  let ?r = "\<lparr>cr_norm_title = ?n, cr_title = cg_title g, cr_install_path = cg_install_path g,
     cr_save_root = cg_save_root g, cr_include_glob = join_with [newline] (cg_include g),
     cr_exclude_glob = join_with [newline] (cg_exclude g)\<rparr>"
  from assms(1) have new: "\<not> list_ex (\<lambda>r. cr_norm_title r = ?n) (ls_custom s)"
    and s': "s' = s\<lparr>ls_custom := ls_custom s @ [?r]\<rparr>"
    by (auto simp: add_custom_game_def Let_def split: if_splits)
  have "filter (\<lambda>r. cr_norm_title r \<noteq> ?n) (ls_custom s) = ls_custom s"
    using new by (auto simp: list_ex_iff)
  then show ?thesis
    using custom_game_of_row [OF assms(2), of ?n]
    by (auto simp: list_custom_games_def s' add_custom_game_def remove_custom_game_def Let_def)
qed

definition ex_custom :: custom_game where
  "ex_custom =
     \<lparr>cg_title = ''My Game!'', cg_install_path = None, cg_save_root = ''/s'',
      cg_include = [''*.sav'', ''cfg/*''], cg_exclude = [''logs/**'']\<rparr>"

lemma ex_custom_add: "add_custom_game init ex_custom = (fst (add_custom_game init ex_custom), Inr ())"
proof -
  have "snd (add_custom_game init ex_custom) = Inr ()" by code_simp
  then show ?thesis by (metis prod.collapse)
qed

theorem custom_game_roundtrip_witness:
  "set (list_custom_games (fst (add_custom_game init ex_custom))) =
     insert ex_custom (set (list_custom_games init))"
  by (rule custom_game_roundtrip [OF ex_custom_add, THEN conjunct1])
    (simp add: ex_custom_def globs_ok_def glob_line_def)

section \<open>Time played\<close>

datatype play_event = Started uuid time | Stopped uuid time | Orphaned

fun play_step :: "local_state \<Rightarrow> play_event \<Rightarrow> local_state" where
  "play_step s (Started g t) = play_start s g t"
| "play_step s (Stopped g t) = play_stop s g t"
| "play_step s Orphaned = close_orphaned_sessions s"

definition total_secs :: "local_state \<Rightarrow> uuid \<Rightarrow> int" where
  "total_secs s g = (case play_stats s g of None \<Rightarrow> 0 | Some p \<Rightarrow> ps_total_secs p)"

definition totals_ok :: "local_state \<Rightarrow> bool" where
  "totals_ok s = (\<forall>g. 0 \<le> total_secs s g)"

definition totals_grow :: "local_state \<Rightarrow> local_state \<Rightarrow> bool" where
  "totals_grow s s' = (\<forall>g. total_secs s g \<le> total_secs s' g)"

definition session_secs :: "time \<times> time \<Rightarrow> int" where
  "session_secs p = max (num_seconds (snd p - fst p)) 0"

lemma total_secs_start: "total_secs (play_start s g t) g' = total_secs s g'"
  by (auto simp: total_secs_def play_stats_def play_start_def split: option.splits)

lemma total_secs_stop:
  "total_secs (play_stop s g t) g' =
     total_secs s g' +
     (case ls_play s g of
        Some r \<Rightarrow> (case pl_session_start r of
                     Some t0 \<Rightarrow> if g' = g then session_secs (t0, t) else 0 | None \<Rightarrow> 0)
      | None \<Rightarrow> 0)"
  by (auto simp: total_secs_def play_stats_def play_stop_def session_secs_def Let_def split: option.splits)

lemma total_secs_orphaned: "total_secs (close_orphaned_sessions s) g = total_secs s g"
  by (auto simp: total_secs_def play_stats_def close_orphaned_sessions_def split: option.splits)

lemma session_secs_nonneg: "0 \<le> session_secs p"
  by (simp add: session_secs_def)

lemma play_step_grows: "totals_grow s (play_step s e)"
  by (cases e) (auto simp: totals_grow_def total_secs_start total_secs_stop total_secs_orphaned
      session_secs_nonneg split: option.splits)

interpretation plays: monotone_system play_step totals_ok totals_grow
proof
  show "totals_ok s \<Longrightarrow> totals_ok (play_step s e)" for s e
    using play_step_grows [of s e] unfolding totals_ok_def totals_grow_def by (meson order_trans)
  show "totals_grow s s" for s by (simp add: totals_grow_def)
  show "totals_grow s t \<Longrightarrow> totals_grow t u \<Longrightarrow> totals_grow s u" for s t u
    unfolding totals_grow_def by (meson order_trans)
qed (rule play_step_grows)

lemma session_total:
  "total_secs (play_stop (play_start s g a) g b) g = total_secs s g + session_secs (a, b)"
proof -
  obtain r where "ls_play (play_start s g a) g = Some r" "pl_session_start r = Some a"
    by (auto simp: play_start_def split: option.splits)
  then show ?thesis by (simp add: total_secs_stop total_secs_start)
qed

text \<open>Playing time is counted and never lost. From a fresh database, after any sequence of
  starts, stops (of any games, with any clock, also running backwards) and daemon restarts the
  total of every game is non-negative and at least what it was after any prefix of the sequence;
  and a list of completed sessions of a game adds exactly the sum of their lengths, a session
  with a backwards clock counting as zero.\<close>

theorem play_totals:
  "totals_ok (foldl play_step init (es @ fs)) \<and>
   totals_grow (foldl play_step init es) (foldl play_step init (es @ fs)) \<and>
   total_secs (fold (\<lambda>(a, b) s. play_stop (play_start s g a) g b) sessions s) g =
     total_secs s g + sum_list (map session_secs sessions)"
proof (intro conjI)
  have ok: "totals_ok init" by (simp add: totals_ok_def total_secs_def play_stats_def init_def)
  show "totals_ok (foldl play_step init (es @ fs))" by (rule plays.run_inv [OF ok])
  show "totals_grow (foldl play_step init es) (foldl play_step init (es @ fs))"
    by (simp add: plays.run_le plays.run_inv ok)
  show "total_secs (fold (\<lambda>(a, b) s. play_stop (play_start s g a) g b) sessions s) g =
     total_secs s g + sum_list (map session_secs sessions)"
    by (induction sessions arbitrary: s) (auto simp: session_total)
qed

end
