(* ===== verification/Client.thy ===== *)
theory Client
  imports Core_Types
begin

text \<open>
  The daemon's REST client (\<open>savr-daemon/src/client.rs\<close>). Everything beyond the socket (reqwest,
  the network, the server) is a parameter: a function from a request and the state of the outside
  world to its next state and a response or a transport error. A body is the typed value that
  serde prints or parses; \<open>resp.json()\<close> fails when the body holds another type. The client
  keeps its access token and its credential; every call returns them updated.
\<close>

section \<open>Requests and responses\<close>

record credentials =
  cd_device_id :: uuid
  cd_account_id :: uuid
  cd_refresh_secret :: string

record client_ensured_game =
  en_id :: uuid
  en_title :: string
  en_steam_appid :: "32 word option"
  en_head :: "uuid option"

datatype create_outcome = Created version | Conflict "version option" version

datatype endpoint =
    DevicesPair
  | AuthRefresh
  | GamesEp
  | HeadEp uuid
  | VersionsEp uuid
  | ResolveEp uuid
  | ConfigEp
  | BlobEp blake3_hash

datatype http_method = HEAD | GET | PUT | POST

datatype req_body =
    NoBody
  | PairBody pair_request
  | RefreshBody refresh_request
  | EnsureBody ensure_game_request
  | CreateBody create_version_req
  | ResolveBody resolve_request
  | ConfigBody synced_config
  | BytesBody "byte list"

record http_request =
  rq_method :: http_method
  rq_base :: string
  rq_endpoint :: endpoint
  rq_bearer :: "string option"
  rq_body :: req_body

text \<open>The body of a 409 carries the two tips in its \<open>detail\<close>; a body of bytes arrives in
  chunks, each of which may fail.\<close>

datatype resp_body =
    PairResp pair_response
  | TokenResp token_response
  | GameResp client_ensured_game
  | HeadResp head_response
  | VersionsResp "version list"
  | VersionResp version
  | ConflictResp "version option" "version option"
  | ConfigResp synced_config
  | BytesResp "(string + byte list) list"
  | TextResp string

record http_response =
  hs_status :: nat
  hs_body :: resp_body

type_synonym 'n transport = "http_request \<Rightarrow> 'n \<Rightarrow> 'n \<times> (string + http_response)"

record client =
  cl_base :: string
  cl_access :: "string option"
  cl_creds :: "credentials option"

type_synonym ('n, 'a) call = "(client \<times> 'n) \<times> (string + 'a)"

definition client_new :: "string \<Rightarrow> client" where
  "client_new server_url =
     \<lparr>cl_base = trim_end_matches (CHR ''/'') server_url @ ''/api/v1'', cl_access = None,
      cl_creds = None\<rparr>"

definition set_credentials :: "client \<Rightarrow> credentials \<Rightarrow> client" where
  "set_credentials c creds = c\<lparr>cl_creds := Some creds\<rparr>"

definition set_access_token :: "client \<Rightarrow> string \<Rightarrow> client" where
  "set_access_token c token = c\<lparr>cl_access := Some token\<rparr>"

definition is_authenticated :: "client \<Rightarrow> bool" where
  "is_authenticated c = (cl_access c \<noteq> None)"

definition error_for_status :: "http_response \<Rightarrow> string + http_response" where
  "error_for_status r =
     (if 400 \<le> hs_status r \<and> hs_status r < 600 then Inl ''HTTP status error'' else Inr r)"

definition is_success :: "http_response \<Rightarrow> bool" where
  "is_success r = (200 \<le> hs_status r \<and> hs_status r < 300)"

definition request_of :: "client \<Rightarrow> http_method \<Rightarrow> endpoint \<Rightarrow> req_body \<Rightarrow> http_request" where
  "request_of c meth ep body =
     \<lparr>rq_method = meth, rq_base = cl_base c, rq_endpoint = ep, rq_bearer = None, rq_body = body\<rparr>"

section \<open>Authentication\<close>

definition client_pair :: "'n transport \<Rightarrow> client \<Rightarrow> 'n \<Rightarrow> string \<Rightarrow> string \<Rightarrow> os \<Rightarrow> ('n, pair_response) call" where
  "client_pair http c n code device_name os =
     (case http (request_of c POST DevicesPair
                   (PairBody \<lparr>pr_code = code, pr_device_name = device_name, pr_os = os\<rparr>)) n of
        (n', Inl e) \<Rightarrow> ((c, n'), Inl e)
      | (n', Inr resp) \<Rightarrow>
          (case error_for_status resp of
             Inl e \<Rightarrow> ((c, n'), Inl e)
           | Inr r \<Rightarrow>
               (case hs_body r of
                  PairResp p \<Rightarrow>
                    ((c\<lparr>cl_access := Some (pp_access_token p),
                        cl_creds := Some \<lparr>cd_device_id = pp_device_id p,
                          cd_account_id = pp_account_id p, cd_refresh_secret = pp_refresh_secret p\<rparr>\<rparr>,
                      n'), Inr p)
                | _ \<Rightarrow> ((c, n'), Inl ''error decoding response body''))))"

definition client_refresh :: "'n transport \<Rightarrow> client \<Rightarrow> 'n \<Rightarrow> ('n, unit) call" where
  "client_refresh http c n =
     (case cl_creds c of
        None \<Rightarrow> ((c, n), Inl ''cannot refresh: device is not paired'')
      | Some creds \<Rightarrow>
          (case http (request_of c POST AuthRefresh
                        (RefreshBody \<lparr>rr_device_id = cd_device_id creds,
                                      rr_refresh_secret = cd_refresh_secret creds\<rparr>)) n of
             (n', Inl e) \<Rightarrow> ((c, n'), Inl e)
           | (n', Inr resp) \<Rightarrow>
               (case error_for_status resp of
                  Inl e \<Rightarrow> ((c, n'), Inl e)
                | Inr r \<Rightarrow>
                    (case hs_body r of
                       TokenResp t \<Rightarrow> ((c\<lparr>cl_access := Some (tr_access_token t)\<rparr>, n'), Inr ())
                     | _ \<Rightarrow> ((c, n'), Inl ''error decoding response body'')))))"

definition send_authed ::
  "'n transport \<Rightarrow> client \<Rightarrow> 'n \<Rightarrow> http_method \<Rightarrow> endpoint \<Rightarrow> req_body \<Rightarrow> ('n, http_response) call" where
  "send_authed http c n meth ep body =
     (case http ((request_of c meth ep body)\<lparr>rq_bearer := cl_access c\<rparr>) n of
        (n1, Inl e) \<Rightarrow> ((c, n1), Inl e)
      | (n1, Inr resp) \<Rightarrow>
          if hs_status resp \<noteq> 401 then ((c, n1), Inr resp)
          else
            (case client_refresh http c n1 of
               ((c2, n2), Inl _) \<Rightarrow> ((c2, n2), Inr resp)
             | ((c2, n2), Inr _) \<Rightarrow>
                 (case http ((request_of c2 meth ep body)\<lparr>rq_bearer := cl_access c2\<rparr>) n2 of
                    (n3, Inl e) \<Rightarrow> ((c2, n3), Inl e)
                  | (n3, Inr resp2) \<Rightarrow> ((c2, n3), Inr resp2))))"

section \<open>Calls\<close>

text \<open>An authenticated call whose response is a value: an error status is an error, and so is a
  body of another type.\<close>

definition call_json ::
  "'n transport \<Rightarrow> client \<Rightarrow> 'n \<Rightarrow> http_method \<Rightarrow> endpoint \<Rightarrow> req_body \<Rightarrow>
   (resp_body \<Rightarrow> 'a option) \<Rightarrow> ('n, 'a) call" where
  "call_json http c n meth ep body get =
     (case send_authed http c n meth ep body of
        (cn, Inl e) \<Rightarrow> (cn, Inl e)
      | (cn, Inr resp) \<Rightarrow>
          (cn, bind_res (error_for_status resp)
                 (\<lambda>r. ok_or (get (hs_body r)) ''error decoding response body'')))"

definition ensure_game_call ::
  "'n transport \<Rightarrow> client \<Rightarrow> 'n \<Rightarrow> string \<Rightarrow> 32 word option \<Rightarrow> ('n, client_ensured_game) call" where
  "ensure_game_call http c n title appid =
     call_json http c n POST GamesEp (EnsureBody \<lparr>eg_title = title, eg_steam_appid = appid\<rparr>)
       (\<lambda>b. case b of GameResp g \<Rightarrow> Some g | _ \<Rightarrow> None)"

definition get_head_call :: "'n transport \<Rightarrow> client \<Rightarrow> 'n \<Rightarrow> uuid \<Rightarrow> ('n, head_response) call" where
  "get_head_call http c n game =
     call_json http c n GET (HeadEp game) NoBody (\<lambda>b. case b of HeadResp h \<Rightarrow> Some h | _ \<Rightarrow> None)"

definition list_versions_call :: "'n transport \<Rightarrow> client \<Rightarrow> 'n \<Rightarrow> uuid \<Rightarrow> ('n, version list) call" where
  "list_versions_call http c n game =
     call_json http c n GET (VersionsEp game) NoBody
       (\<lambda>b. case b of VersionsResp vs \<Rightarrow> Some vs | _ \<Rightarrow> None)"

definition create_version_call ::
  "'n transport \<Rightarrow> client \<Rightarrow> 'n \<Rightarrow> uuid \<Rightarrow> create_version_req \<Rightarrow> ('n, create_outcome) call" where
  "create_version_call http c n game req =
     (case send_authed http c n POST (VersionsEp game) (CreateBody req) of
        (cn, Inl e) \<Rightarrow> (cn, Inl e)
      | (cn, Inr resp) \<Rightarrow>
          (cn,
           if hs_status resp = 201 \<or> hs_status resp = 200 then
             (case hs_body resp of
                VersionResp v \<Rightarrow> Inr (Created v) | _ \<Rightarrow> Inl ''error decoding response body'')
           else if hs_status resp = 409 then
             (case hs_body resp of
                ConflictResp head (Some incoming) \<Rightarrow> Inr (Conflict head incoming)
              | _ \<Rightarrow> Inl ''error decoding response body'')
           else Inl ''create_version failed''))"

definition resolve_conflict_call ::
  "'n transport \<Rightarrow> client \<Rightarrow> 'n \<Rightarrow> uuid \<Rightarrow> resolve_request \<Rightarrow> ('n, unit) call" where
  "resolve_conflict_call http c n game req =
     call_json http c n POST (ResolveEp game) (ResolveBody req) (\<lambda>b. Some ())"

definition get_config_call :: "'n transport \<Rightarrow> client \<Rightarrow> 'n \<Rightarrow> ('n, synced_config) call" where
  "get_config_call http c n =
     call_json http c n GET ConfigEp NoBody (\<lambda>b. case b of ConfigResp k \<Rightarrow> Some k | _ \<Rightarrow> None)"

definition put_config_call :: "'n transport \<Rightarrow> client \<Rightarrow> 'n \<Rightarrow> synced_config \<Rightarrow> ('n, synced_config) call" where
  "put_config_call http c n cfg =
     call_json http c n PUT ConfigEp (ConfigBody cfg) (\<lambda>b. case b of ConfigResp k \<Rightarrow> Some k | _ \<Rightarrow> None)"

definition blob_exists_call :: "'n transport \<Rightarrow> client \<Rightarrow> 'n \<Rightarrow> blake3_hash \<Rightarrow> ('n, bool) call" where
  "blob_exists_call http c n h =
     (case send_authed http c n HEAD (BlobEp h) NoBody of
        (cn, Inl e) \<Rightarrow> (cn, Inl e)
      | (cn, Inr resp) \<Rightarrow> (cn, Inr (is_success resp)))"

text \<open>The file to upload is read first, so its contents, or the error of reading it, is an argument.\<close>

definition blob_put_call ::
  "'n transport \<Rightarrow> client \<Rightarrow> 'n \<Rightarrow> blake3_hash \<Rightarrow> string + byte list \<Rightarrow> ('n, unit) call" where
  "blob_put_call http c n h file =
     (case file of
        Inl e \<Rightarrow> ((c, n), Inl e)
      | Inr bytes \<Rightarrow> call_json http c n PUT (BlobEp h) (BytesBody bytes) (\<lambda>b. Some ()))"

fun read_stream :: "(string + byte list) list \<Rightarrow> byte list \<Rightarrow> byte list \<times> (string + unit)" where
  "read_stream [] acc = (acc, Inr ())"
| "read_stream (Inl e # cs) acc = (acc, Inl e)"
| "read_stream (Inr b # cs) acc = read_stream cs (acc @ b)"

text \<open>The bytes written to the destination file (none when the request failed), and the result.
  The body of a blob is always one of bytes.\<close>

definition blob_get_call ::
  "'n transport \<Rightarrow> client \<Rightarrow> 'n \<Rightarrow> blake3_hash \<Rightarrow> (client \<times> 'n) \<times> byte list option \<times> (string + unit)" where
  "blob_get_call http c n h =
     (case send_authed http c n GET (BlobEp h) NoBody of
        (cn, Inl e) \<Rightarrow> (cn, None, Inl e)
      | (cn, Inr resp) \<Rightarrow>
          (case error_for_status resp of
             Inl e \<Rightarrow> (cn, None, Inl e)
           | Inr r \<Rightarrow>
               (case hs_body r of
                  BytesResp cs \<Rightarrow> (cn, Some (fst (read_stream cs [])), snd (read_stream cs []))
                | _ \<Rightarrow> (cn, None, Inl ''unexpected body''))))"

end
