(* ===== verification/Decimal.thy ===== *)
theory Decimal
  imports Prelude
begin

text \<open>
  Decimal numbers as the Rust standard library prints and parses them (\<open>u32::to_string\<close>,
  \<open>str::parse::<u32>\<close>): an optional plus sign, at least one digit, and no overflow.
\<close>

definition digit :: "nat \<Rightarrow> char" where
  "digit n = char_of (48 + n)"

definition digit_value :: "char \<Rightarrow> nat option" where
  "digit_value c =
     (let k = (of_char c :: nat) in if 48 \<le> k \<and> k \<le> 57 then Some (k - 48) else None)"

fun show_nat :: "nat \<Rightarrow> string" where
  "show_nat n = (if n < 10 then [digit n] else show_nat (n div 10) @ [digit (n mod 10)])"

declare show_nat.simps [simp del]

definition show_u32 :: "32 word \<Rightarrow> string" where
  "show_u32 w = show_nat (unat w)"

fun parse_digits :: "nat \<Rightarrow> string \<Rightarrow> nat option" where
  "parse_digits acc [] = Some acc"
| "parse_digits acc (c # cs) =
     (case digit_value c of None \<Rightarrow> None | Some d \<Rightarrow> parse_digits (10 * acc + d) cs)"

definition parse_u32 :: "string \<Rightarrow> 32 word option" where
  "parse_u32 s =
     (let ds = (case s of c # cs \<Rightarrow> if c = CHR ''+'' then cs else s | [] \<Rightarrow> [])
      in if ds = [] then None
         else case parse_digits 0 ds of
                None \<Rightarrow> None
              | Some v \<Rightarrow> if int v < 4294967296 then Some (of_nat v) else None)"

lemma digit_value_digit: "n < 10 \<Longrightarrow> digit_value (digit n) = Some n"
  by (simp add: digit_value_def digit_def of_char_of)

lemma parse_digits_append:
  "parse_digits acc (xs @ ys) =
     (case parse_digits acc xs of None \<Rightarrow> None | Some a \<Rightarrow> parse_digits a ys)"
  by (induction acc xs rule: parse_digits.induct) (auto split: option.splits)

lemma parse_show_digits: "parse_digits 0 (show_nat n) = Some n"
proof (induction n rule: show_nat.induct)
  case (1 n)
  then show ?case
    by (subst show_nat.simps) (simp add: digit_value_digit parse_digits_append)
qed

lemma show_nat_hd: "\<exists>d cs. show_nat n = digit d # cs \<and> d < 10"
proof (induction n rule: show_nat.induct)
  case (1 n)
  show ?case
  proof (cases "n < 10")
    case True
    then show ?thesis by (simp add: show_nat.simps) blast
  next
    case False
    with 1 show ?thesis by (subst show_nat.simps) auto
  qed
qed

lemma digit_not_plus: "d < 10 \<Longrightarrow> digit d \<noteq> CHR ''+''"
proof
  assume "d < 10" and "digit d = CHR ''+''"
  then have "digit_value (CHR ''+'') = Some d" using digit_value_digit by metis
  then show False by (simp add: digit_value_def)
qed

text \<open>Parsing undoes printing.\<close>

lemma parse_show_u32 [simp]: "parse_u32 (show_u32 w) = Some w"
proof -
  obtain d cs where s: "show_nat (unat w) = digit d # cs" "d < 10" using show_nat_hd by blast
  then have "digit d \<noteq> CHR ''+''" by (simp add: digit_not_plus)
  with s parse_show_digits [of "unat w"] show ?thesis
    using unsigned_less [of w] by (simp add: parse_u32_def show_u32_def)
qed

end
