(* ===== verification/Backup.thy ===== *)
theory Backup
  imports Archive Local_State Client Decimal "HOL-Library.Multiset"
begin

text \<open>
  The backup pipeline of the daemon (\<open>savr-daemon/src/backup.rs\<close>): snapshot, difference to the
  last one, archive, upload, and the outbox with its retries when the server cannot be reached.
  The state of a daemon is its database, the cache of packed archives, the file system, the REST
  client and the world beyond it. The third-party code that the pipeline calls is collected in a
  record of parameters. A hash is identified with its hexadecimal text, so the cache is a map from
  hashes to the bytes of \<open><hex>.savr\<close>; the temporary name under which an archive is packed is
  never read by anything else and is not in the model. The clock is read once per operation.
\<close>

section \<open>State\<close>

record backup_job =
  bj_game_id :: uuid
  bj_patterns :: "string list"
  bj_anchor :: path
  bj_registry_keys :: "string list"
  bj_excludes :: "string list"

datatype backup_outcome =
    NoChange
  | Uploaded version
  | Queued
  | BackupConflicted "version option" version

record outbox_payload =
  op_game_id :: uuid
  op_blob_hex :: blake3_hash
  op_create_version :: create_version_req

datatype daemon_error = CoreError core_error | ClientError string | JsonError string | Refused string

record 'n daemon =
  dm_state :: local_state
  dm_cache :: "blake3_hash \<rightharpoonup> byte list"
  dm_fs :: node
  dm_client :: client
  dm_net :: 'n

record 'n env =
  e_blake3 :: "byte list \<Rightarrow> blake3_hash"
  e_glob :: "node \<Rightarrow> string \<Rightarrow> string + path list"
  e_pattern :: "string \<Rightarrow> (string \<Rightarrow> bool) option"
  e_lib :: archive_lib
  e_payload_json :: "outbox_payload \<Rightarrow> string + byte list"
  e_payload_parse :: "byte list \<Rightarrow> string + outbox_payload"
  e_http :: "'n transport"
  e_show_uuid :: "uuid \<Rightarrow> string"
  e_show_time :: "time \<Rightarrow> string"

section \<open>Operations\<close>

text \<open>Neither build of the daemon captures the registry yet.\<close>

definition capture_registry :: "string list \<Rightarrow> daemon_error + byte list option" where
  "capture_registry keys = Inr None"

definition build_payload :: "file_entry list \<Rightarrow> path \<Rightarrow> (string \<times> path) list" where
  "build_payload fs anchor =
     map (\<lambda>f. (fe_rel_path f, path_join anchor (components (fe_rel_path f)))) fs"

definition pack_to_file ::
  "'n env \<Rightarrow> node \<Rightarrow> archive_meta \<Rightarrow> (string \<times> path) list \<Rightarrow> byte list option \<Rightarrow>
   daemon_error + (blake3_hash \<times> 64 word \<times> byte list)" where
  "pack_to_file e fs meta payload registry =
     (case pack (e_lib e) fs meta payload registry of
        Inl err \<Rightarrow> Inl (CoreError err)
      | Inr bytes \<Rightarrow> Inr (e_blake3 e bytes, of_nat (length bytes), bytes))"

definition backoff_delay :: "32 word \<Rightarrow> nat" where
  "backoff_delay attempts =
     (let secs = min (2 ^ unat (min attempts 9)) (2 ^ 64 - 1) in min secs 300)"

definition diff_count_key :: "'n env \<Rightarrow> uuid \<Rightarrow> string" where
  "diff_count_key e g = ''diffcount:'' @ e_show_uuid e g"

definition unconfirmed_key :: "'n env \<Rightarrow> uuid \<Rightarrow> string" where
  "unconfirmed_key e g = ''unconfirmed:'' @ e_show_uuid e g"

definition prior_diffs :: "'n env \<Rightarrow> local_state \<Rightarrow> uuid \<Rightarrow> 32 word" where
  "prior_diffs e s g =
     (case get_meta s (diff_count_key e g) of
        None \<Rightarrow> 0
      | Some v \<Rightarrow> (case parse_u32 v of None \<Rightarrow> 0 | Some n \<Rightarrow> n))"

definition is_unconfirmed :: "'n env \<Rightarrow> local_state \<Rightarrow> uuid \<Rightarrow> bool" where
  "is_unconfirmed e s g = (get_meta s (unconfirmed_key e g) = Some ''1'')"

definition backup_kind :: "uuid option \<Rightarrow> 32 word \<Rightarrow> 32 word \<Rightarrow> bool \<Rightarrow> version_kind" where
  "backup_kind parent prior full_every unconfirmed =
     (if parent = None \<or> full_every \<le> prior \<or> unconfirmed then Full else Differential)"

text \<open>What changed since the last snapshot; \<open>None\<close> when there is nothing to back up.\<close>

definition changes ::
  "stored_snapshot option \<Rightarrow> snapshot \<Rightarrow> backup_job \<Rightarrow> (file_entry list \<times> string list) option" where
  "changes base new job =
     (case base of
        Some prev \<Rightarrow>
          (let old = \<lparr>sn_game_id = bj_game_id job, sn_files = ss_files prev,
                      sn_taken_at = ss_taken_at prev\<rparr>;
               d = snapshot_diff old new
           in if diff_is_empty d \<and> bj_registry_keys job = [] then None
              else Some (df_changed d, df_deleted d))
      | None \<Rightarrow> Some (sn_files new, []))"

definition bump_diff_counter ::
  "local_state \<Rightarrow> string \<Rightarrow> version_kind \<Rightarrow> 32 word \<Rightarrow> local_state" where
  "bump_diff_counter s key kind prior =
     (let nxt = (case kind of Full \<Rightarrow> 0 | Differential \<Rightarrow> prior + 1)
      in set_meta s key (show_u32 nxt))"

definition enqueue ::
  "'n env \<Rightarrow> local_state \<Rightarrow> uuid \<Rightarrow> time \<Rightarrow> uuid \<Rightarrow> create_version_req \<Rightarrow> blake3_hash \<Rightarrow>
   daemon_error + local_state" where
  "enqueue e s oid now game create blob_hash =
     (case e_payload_json e \<lparr>op_game_id = game, op_blob_hex = blob_hash, op_create_version = create\<rparr> of
        Inl err \<Rightarrow> Inl (JsonError err)
      | Inr bytes \<Rightarrow> Inr (enqueue_outbox s oid bytes now))"

definition queue_backup ::
  "'n env \<Rightarrow> local_state \<Rightarrow> uuid \<Rightarrow> time \<Rightarrow> uuid \<Rightarrow> create_version_req \<Rightarrow> blake3_hash \<Rightarrow>
   file_entry list \<Rightarrow> time \<Rightarrow> uuid option \<Rightarrow> daemon_error + local_state" where
  "queue_backup e s oid now game create blob_hash fs taken_at parent =
     bind_res (enqueue e s oid now game create blob_hash) (\<lambda>s1.
     Inr (set_meta (put_snapshot s1 game fs taken_at parent) (unconfirmed_key e game) ''1''))"

definition upload_version ::
  "'n env \<Rightarrow> client \<Rightarrow> 'n \<Rightarrow> uuid \<Rightarrow> create_version_req \<Rightarrow> byte list option \<Rightarrow> ('n, create_outcome) call" where
  "upload_version e c n game create archive =
     (case blob_exists_call (e_http e) c n (cv_blob_hash create) of
        (cn, Inl err) \<Rightarrow> (cn, Inl err)
      | ((c1, n1), Inr there) \<Rightarrow>
          if there then create_version_call (e_http e) c1 n1 game create
          else
            (case blob_put_call (e_http e) c1 n1 (cv_blob_hash create) (ok_or archive ''No such file'') of
               (cn, Inl err) \<Rightarrow> (cn, Inl err)
             | ((c2, n2), Inr _) \<Rightarrow> create_version_call (e_http e) c2 n2 game create))"

definition with_state :: "'n daemon \<Rightarrow> daemon_error + local_state \<Rightarrow> 'a \<Rightarrow> 'n daemon \<times> (daemon_error + 'a)" where
  "with_state d r x = (case r of Inl e \<Rightarrow> (d, Inl e) | Inr s \<Rightarrow> (d\<lparr>dm_state := s\<rparr>, Inr x))"

text \<open>The last part of \<open>run_backup\<close>: hand a packed version to the server, or to the outbox.\<close>

definition deliver ::
  "'n env \<Rightarrow> bool \<Rightarrow> uuid \<Rightarrow> time \<Rightarrow> uuid \<Rightarrow> create_version_req \<Rightarrow> snapshot \<Rightarrow> 32 word \<Rightarrow>
   'n daemon \<Rightarrow> 'n daemon \<times> (daemon_error + backup_outcome)" where
  "deliver e has_client oid now game create new prior d =
     (let s = dm_state d; h = cv_blob_hash create in
      if has_client \<and> is_authenticated (dm_client d) then
        (case upload_version e (dm_client d) (dm_net d) game create (dm_cache d h) of
           ((c, n), Inr (Created v)) \<Rightarrow>
             (let s1 = put_snapshot s game (sn_files new) (sn_taken_at new) (Some (v_id v));
                  s2 = set_meta s1 (unconfirmed_key e game) ''0'';
                  s3 = bump_diff_counter s2 (diff_count_key e game) (cv_kind create) prior;
                  s4 = set_last_backup_at (e_show_time e) s3 now
              in (d\<lparr>dm_state := s4, dm_cache := (dm_cache d)(h := None), dm_client := c, dm_net := n\<rparr>,
                  Inr (Uploaded v)))
         | ((c, n), Inr (Conflict head incoming)) \<Rightarrow>
             (let s1 = put_snapshot s game (sn_files new) (sn_taken_at new) (Some (v_id incoming));
                  s2 = set_meta s1 (unconfirmed_key e game) ''0''
              in (d\<lparr>dm_state := s2, dm_cache := (dm_cache d)(h := None), dm_client := c, dm_net := n\<rparr>,
                  Inr (BackupConflicted head incoming)))
         | ((c, n), Inl err) \<Rightarrow>
             with_state (d\<lparr>dm_client := c, dm_net := n\<rparr>)
               (queue_backup e s oid now game create h (sn_files new) (sn_taken_at new) (cv_parent create))
               Queued)
      else
        with_state d
          (queue_backup e s oid now game create h (sn_files new) (sn_taken_at new) (cv_parent create))
          Queued)"

definition run_backup ::
  "'n env \<Rightarrow> bool \<Rightarrow> uuid \<Rightarrow> 32 word \<Rightarrow> backup_job \<Rightarrow> uuid \<Rightarrow> time \<Rightarrow>
   'n daemon \<Rightarrow> 'n daemon \<times> (daemon_error + backup_outcome)" where
  "run_backup e has_client device full_every job oid now d =
     (let g = bj_game_id job; s = dm_state d in
      if bj_patterns job = [] \<and> bj_registry_keys job = [] then (d, Inr NoChange)
      else
        (case build (e_blake3 e) (e_glob e) (e_pattern e) (dm_fs d) now g (bj_patterns job)
                (bj_excludes job) (bj_anchor job) of
           Inl err \<Rightarrow> (d, Inl (CoreError err))
         | Inr new \<Rightarrow>
             (let base = get_snapshot s g;
                  parent = Option.bind base ss_local_head
              in case changes base new job of
                   None \<Rightarrow> (d, Inr NoChange)
                 | Some (changed, deletions) \<Rightarrow>
                     (let prior = prior_diffs e s g;
                          kind = backup_kind parent prior full_every (is_unconfirmed e s g);
                          payload_files = (case kind of Full \<Rightarrow> sn_files new | Differential \<Rightarrow> changed);
                          dels = (case kind of Full \<Rightarrow> [] | Differential \<Rightarrow> deletions)
                      in case capture_registry (bj_registry_keys job) of
                           Inl err \<Rightarrow> (d, Inl err)
                         | Inr registry \<Rightarrow>
                             (let meta = \<lparr>am_game_id = g, am_device_id = device, am_parent = parent,
                                          am_kind = kind, am_files = sn_files new,
                                          am_deletions = dels, am_created_at = now\<rparr>
                              in case pack_to_file e (dm_fs d) meta
                                        (build_payload payload_files (bj_anchor job)) registry of
                                   Inl err \<Rightarrow> (d, Inl err)
                                 | Inr (h, len, bytes) \<Rightarrow>
                                     deliver e has_client oid now g
                                       \<lparr>cv_parent = parent, cv_kind = kind, cv_files = sn_files new,
                                        cv_blob_hash = h, cv_bytes = len, cv_device_id = device\<rparr>
                                       new prior (d\<lparr>dm_cache := (dm_cache d)(h \<mapsto> bytes)\<rparr>))))))"

text \<open>One entry of the outbox, then all that are due.\<close>

definition retry_item ::
  "'n env \<Rightarrow> time \<Rightarrow> outbox_item \<Rightarrow> 'n daemon \<Rightarrow> 'n daemon" where
  "retry_item e now item d =
     (case e_payload_parse e (oi_payload item) of
        Inl err \<Rightarrow> d\<lparr>dm_state := remove_outbox (dm_state d) (oi_version_id item)\<rparr>
      | Inr p \<Rightarrow>
          (case upload_version e (dm_client d) (dm_net d) (op_game_id p) (op_create_version p)
                  (dm_cache d (op_blob_hex p)) of
             ((c, n), Inr (Created v)) \<Rightarrow>
               (let s1 = set_local_head (dm_state d) (op_game_id p) (v_id v);
                    s2 = set_last_backup_at (e_show_time e) s1 now
                in d\<lparr>dm_state := remove_outbox s2 (oi_version_id item),
                     dm_cache := (dm_cache d)(op_blob_hex p := None), dm_client := c, dm_net := n\<rparr>)
           | ((c, n), Inr (Conflict head incoming)) \<Rightarrow>
               (let s1 = set_local_head (dm_state d) (op_game_id p) (v_id incoming)
                in d\<lparr>dm_state := remove_outbox s1 (oi_version_id item),
                     dm_cache := (dm_cache d)(op_blob_hex p := None), dm_client := c, dm_net := n\<rparr>)
           | ((c, n), Inl err) \<Rightarrow>
               d\<lparr>dm_state := bump_outbox_attempt (dm_state d) (oi_version_id item)
                     (now + int (backoff_delay (word_of_int (oi_attempts item))) * 1000000000),
                 dm_client := c, dm_net := n\<rparr>))"

definition retry_outbox :: "'n env \<Rightarrow> time \<Rightarrow> 'n daemon \<Rightarrow> 'n daemon" where
  "retry_outbox e now d =
     (if \<not> is_authenticated (dm_client d) then d
      else fold (retry_item e now) (due_outbox (dm_state d) now) d)"

section \<open>What a backup leaves behind\<close>

text \<open>Parsing undoes printing of outbox entries (serde\_json).\<close>

definition payload_codec :: "'n env \<Rightarrow> bool" where
  "payload_codec e = (\<forall>p b. e_payload_json e p = Inr b \<longrightarrow> e_payload_parse e b = Inr p)"

text \<open>The server answered the request to create this version with this outcome.\<close>

definition accepted :: "'n env \<Rightarrow> uuid \<Rightarrow> create_version_req \<Rightarrow> create_outcome \<Rightarrow> bool" where
  "accepted e g create out =
     (\<exists>c n. snd (create_version_call (e_http e) c n g create) = Inr out)"

definition base_is :: "local_state \<Rightarrow> uuid \<Rightarrow> file_entry list \<Rightarrow> uuid option \<Rightarrow> bool" where
  "base_is s g fs head =
     (\<exists>r. get_snapshot s g = Some r \<and> ss_files r = fs \<and> ss_local_head r = head)"

text \<open>The version waits in the outbox under an identifier, its archive in the cache.\<close>

definition queued_as ::
  "'n env \<Rightarrow> 'n daemon \<Rightarrow> uuid \<Rightarrow> uuid \<Rightarrow> create_version_req \<Rightarrow> bool" where
  "queued_as e d oid g create =
     (\<exists>row blob. row \<in> set (ls_outbox (dm_state d)) \<and> ob_version_id row = oid \<and>
        e_payload_parse e (ob_payload row) =
          Inr \<lparr>op_game_id = g, op_blob_hex = cv_blob_hash create, op_create_version = create\<rparr> \<and>
        dm_cache d (cv_blob_hash create) = Some blob \<and> e_blake3 e blob = cv_blob_hash create)"

lemma upload_version_accepted:
  "upload_version e c n g create a = (cn, Inr out) \<Longrightarrow> accepted e g create out"
  by (auto simp: upload_version_def accepted_def split: prod.splits sum.splits if_splits) (metis snd_conv)+

lemma put_snapshot_base [simp]: "base_is (put_snapshot s g fs t h) g fs' h' \<longleftrightarrow> fs' = fs \<and> h' = h"
  by (auto simp: base_is_def get_snapshot_def put_snapshot_def)

lemma base_is_set_meta [simp]: "base_is (set_meta s k v) g fs h = base_is s g fs h"
  by (simp add: base_is_def)

lemma bump_diff_counter_frame [simp]:
  "base_is (bump_diff_counter s k kd p) g fs h = base_is s g fs h"
  "ls_outbox (bump_diff_counter s k kd p) = ls_outbox s"
  by (simp_all add: bump_diff_counter_def Let_def)

lemma set_last_backup_at_frame [simp]:
  "base_is (set_last_backup_at f s t) g fs h = base_is s g fs h"
  "ls_outbox (set_last_backup_at f s t) = ls_outbox s"
  "get_snapshot (set_last_backup_at f s t) g = get_snapshot s g"
  by (simp_all add: set_last_backup_at_def)

lemma queue_backup_Inr:
  assumes "queue_backup e s oid now g create h fs t parent = Inr s'"
  shows "base_is s' g fs parent" and "get_meta s' (unconfirmed_key e g) = Some ''1''"
    and "\<exists>b a. e_payload_json e \<lparr>op_game_id = g, op_blob_hex = h, op_create_version = create\<rparr> = Inr b \<and>
      \<lparr>ob_version_id = oid, ob_payload = b, ob_attempts = a, ob_next_retry = Some now\<rparr> \<in> set (ls_outbox s')"
  using assms
  by (auto simp: queue_backup_def enqueue_def bind_res_Inr_iff enqueue_outbox_def kv.get_put_same Let_def
      split: sum.splits)

definition queued_result ::
  "'n env \<Rightarrow> uuid \<Rightarrow> uuid \<Rightarrow> create_version_req \<Rightarrow> 'n daemon \<Rightarrow> bool" where
  "queued_result e oid g create d =
     (queued_as e d oid g create \<and> base_is (dm_state d) g (cv_files create) (cv_parent create) \<and>
      is_unconfirmed e (dm_state d) g)"

lemma queued_with_state:
  assumes "with_state d1 (queue_backup e s oid now g create (cv_blob_hash create) fs t (cv_parent create)) Queued
      = (d', Inr out)"
    and "payload_codec e" and "fs = cv_files create"
    and "dm_cache d1 (cv_blob_hash create) = Some blob" and "e_blake3 e blob = cv_blob_hash create"
  shows "out = Queued \<and> queued_result e oid g create d'"
proof -
  from assms(1) obtain s' where q: "queue_backup e s oid now g create (cv_blob_hash create) fs t (cv_parent create) = Inr s'"
    and d': "d' = d1\<lparr>dm_state := s'\<rparr>" "out = Queued"
    by (auto simp: with_state_def split: sum.splits)
  from queue_backup_Inr(3) [OF q] obtain b a where
    b: "e_payload_json e \<lparr>op_game_id = g, op_blob_hex = cv_blob_hash create, op_create_version = create\<rparr> = Inr b"
    and row: "\<lparr>ob_version_id = oid, ob_payload = b, ob_attempts = a, ob_next_retry = Some now\<rparr> \<in> set (ls_outbox s')"
    by blast
  from b assms(2) have "e_payload_parse e b =
      Inr \<lparr>op_game_id = g, op_blob_hex = cv_blob_hash create, op_create_version = create\<rparr>"
    by (simp add: payload_codec_def)
  with row assms d' have "queued_as e d' oid g create" unfolding queued_as_def by force
  with queue_backup_Inr(1,2) [OF q] assms(3) d' show ?thesis
    by (simp add: queued_result_def is_unconfirmed_def)
qed

lemma with_state_Inl: "with_state d r x = (d', Inl err) \<Longrightarrow> d' = d"
  by (auto simp: with_state_def split: sum.splits)

lemma with_state_fs: "with_state d r x = (d', y) \<Longrightarrow> dm_fs d' = dm_fs d"
  by (auto simp: with_state_def split: sum.splits)

text \<open>The result of handing over a packed version, branch by branch.\<close>

definition delivered ::
  "'n env \<Rightarrow> uuid \<Rightarrow> uuid \<Rightarrow> create_version_req \<Rightarrow> 'n daemon \<Rightarrow> 'n daemon \<Rightarrow>
   daemon_error + backup_outcome \<Rightarrow> bool" where
  "delivered e oid g create d d' r =
     (case r of
        Inl err \<Rightarrow> dm_state d' = dm_state d
      | Inr NoChange \<Rightarrow> False
      | Inr (Uploaded v) \<Rightarrow>
          accepted e g create (Created v) \<and>
          base_is (dm_state d') g (cv_files create) (Some (v_id v)) \<and>
          ls_outbox (dm_state d') = ls_outbox (dm_state d) \<and> \<not> is_unconfirmed e (dm_state d') g
      | Inr (BackupConflicted h v) \<Rightarrow>
          accepted e g create (Conflict h v) \<and>
          base_is (dm_state d') g (cv_files create) (Some (v_id v)) \<and>
          ls_outbox (dm_state d') = ls_outbox (dm_state d) \<and> \<not> is_unconfirmed e (dm_state d') g
      | Inr Queued \<Rightarrow> queued_result e oid g create d')"

lemma delivered_cache [simp]:
  "delivered e oid g cv (d\<lparr>dm_cache := x\<rparr>) d' r = delivered e oid g cv d d' r"
  by (cases r) (simp_all add: delivered_def split: backup_outcome.split)

lemma key_prefixes: "diff_count_key e g \<noteq> unconfirmed_key e g'" "''last_backup_at'' \<noteq> unconfirmed_key e g"
  "''last_backup_at'' \<noteq> diff_count_key e g"
  by (simp_all add: diff_count_key_def unconfirmed_key_def)

lemma deliver_delivered:
  assumes "deliver e hc oid now g create new prior d = (d', r)"
    and "payload_codec e" and "cv_files create = sn_files new"
    and "dm_cache d (cv_blob_hash create) = Some blob" and "e_blake3 e blob = cv_blob_hash create"
  shows "delivered e oid g create d d' r \<and> dm_fs d' = dm_fs d"
proof (cases "hc \<and> is_authenticated (dm_client d)")
  case False
  have ws: "with_state d (queue_backup e (dm_state d) oid now g create (cv_blob_hash create)
      (sn_files new) (sn_taken_at new) (cv_parent create)) Queued = (d', r)"
    using assms(1) unfolding deliver_def Let_def if_not_P [OF False] .
  show ?thesis
    using ws with_state_Inl with_state_fs queued_with_state [OF _ assms(2) assms(3) [symmetric] assms(4,5)]
    by (cases r) (fastforce simp: delivered_def)+
next
  case True
  obtain c n u where up: "upload_version e (dm_client d) (dm_net d) g create
      (dm_cache d (cv_blob_hash create)) = ((c, n), u)" by (metis surj_pair)
  show ?thesis
  proof (cases u)
    case (Inl err)
    let ?d1 = "d\<lparr>dm_client := c, dm_net := n\<rparr>"
    have ws: "with_state ?d1 (queue_backup e (dm_state d) oid now g create (cv_blob_hash create)
      (sn_files new) (sn_taken_at new) (cv_parent create)) Queued = (d', r)"
      using assms(1) True up Inl by (simp add: deliver_def Let_def)
    have cache: "dm_cache ?d1 (cv_blob_hash create) = Some blob" using assms(4) by simp
    show ?thesis
      using with_state_Inl [of ?d1] with_state_fs [OF ws] ws
        queued_with_state [OF _ assms(2) assms(3) [symmetric] cache assms(5)]
      by (cases r) (fastforce simp: delivered_def)+
  next
    case (Inr out)
    have acc: "accepted e g create out" using up unfolding Inr by (rule upload_version_accepted)
    show ?thesis
      using assms(1,3) True up Inr acc
      by (cases out) (auto simp: deliver_def delivered_def Let_def is_unconfirmed_def bump_diff_counter_def
          set_last_backup_at_def kv.get_put key_prefixes key_prefixes [THEN not_sym])
  qed
qed

text \<open>What is packed and announced for a snapshot, read off the code of \<open>run_backup\<close>.\<close>

definition planned_parent :: "'n daemon \<Rightarrow> uuid \<Rightarrow> uuid option" where
  "planned_parent d g = Option.bind (get_snapshot (dm_state d) g) ss_local_head"

definition planned_kind :: "'n env \<Rightarrow> 32 word \<Rightarrow> 'n daemon \<Rightarrow> uuid \<Rightarrow> version_kind" where
  "planned_kind e full_every d g =
     backup_kind (planned_parent d g) (prior_diffs e (dm_state d) g) full_every
       (is_unconfirmed e (dm_state d) g)"

definition planned_meta ::
  "'n env \<Rightarrow> uuid \<Rightarrow> 32 word \<Rightarrow> time \<Rightarrow> 'n daemon \<Rightarrow> uuid \<Rightarrow> snapshot \<Rightarrow> string list \<Rightarrow> archive_meta" where
  "planned_meta e device full_every now d g new deleted =
     \<lparr>am_game_id = g, am_device_id = device, am_parent = planned_parent d g,
      am_kind = planned_kind e full_every d g, am_files = sn_files new,
      am_deletions = (case planned_kind e full_every d g of Full \<Rightarrow> [] | Differential \<Rightarrow> deleted),
      am_created_at = now\<rparr>"

definition planned_create ::
  "'n env \<Rightarrow> uuid \<Rightarrow> 32 word \<Rightarrow> 'n daemon \<Rightarrow> uuid \<Rightarrow> snapshot \<Rightarrow> byte list \<Rightarrow> create_version_req" where
  "planned_create e device full_every d g new bytes =
     \<lparr>cv_parent = planned_parent d g, cv_kind = planned_kind e full_every d g,
      cv_files = sn_files new, cv_blob_hash = e_blake3 e bytes, cv_bytes = of_nat (length bytes),
      cv_device_id = device\<rparr>"

text \<open>A snapshot was taken, it differs from the base, and its changes were packed.\<close>

definition packed ::
  "'n env \<Rightarrow> uuid \<Rightarrow> 32 word \<Rightarrow> backup_job \<Rightarrow> time \<Rightarrow> 'n daemon \<Rightarrow> snapshot \<Rightarrow> byte list \<Rightarrow> bool" where
  "packed e device full_every job now d new bytes =
     (let g = bj_game_id job in
      build (e_blake3 e) (e_glob e) (e_pattern e) (dm_fs d) now g (bj_patterns job)
        (bj_excludes job) (bj_anchor job) = Inr new \<and>
      (\<exists>changed deleted.
         changes (get_snapshot (dm_state d) g) new job = Some (changed, deleted) \<and>
         pack (e_lib e) (dm_fs d) (planned_meta e device full_every now d g new deleted)
           (build_payload
              (case planned_kind e full_every d g of Full \<Rightarrow> sn_files new | Differential \<Rightarrow> changed)
              (bj_anchor job)) None = Inr bytes))"

lemma run_backup_cases:
  assumes "run_backup e hc device full_every job oid now d = (d', r)"
  shows "(d' = d \<and> (r = Inr NoChange \<or> (\<exists>err. r = Inl err))) \<or>
    (\<exists>new bytes. packed e device full_every job now d new bytes \<and>
       deliver e hc oid now (bj_game_id job)
         (planned_create e device full_every d (bj_game_id job) new bytes) new
         (prior_diffs e (dm_state d) (bj_game_id job))
         (d\<lparr>dm_cache := (dm_cache d)(e_blake3 e bytes \<mapsto> bytes)\<rparr>) = (d', r))"
proof (cases "bj_patterns job = [] \<and> bj_registry_keys job = []")
  case True
  with assms show ?thesis by (simp add: run_backup_def Let_def)
next
  case False
  let ?g = "bj_game_id job"
  let ?b = "build (e_blake3 e) (e_glob e) (e_pattern e) (dm_fs d) now ?g (bj_patterns job)
        (bj_excludes job) (bj_anchor job)"
  show ?thesis
  proof (cases ?b)
    case (Inl err)
    with False assms show ?thesis by (auto simp: run_backup_def Let_def)
  next
    case new: (Inr new)
    show ?thesis
    proof (cases "changes (get_snapshot (dm_state d) ?g) new job")
      case None
      with False new assms show ?thesis by (auto simp: run_backup_def Let_def)
    next
      case (Some cd)
      obtain changed deleted where cd: "cd = (changed, deleted)" by (cases cd)
      let ?p = "pack (e_lib e) (dm_fs d) (planned_meta e device full_every now d ?g new deleted)
         (build_payload (case planned_kind e full_every d ?g of Full \<Rightarrow> sn_files new | Differential \<Rightarrow> changed)
              (bj_anchor job)) None"
      note run = assms [unfolded run_backup_def Let_def if_not_P [OF False] new sum.case Some cd
          option.case prod.case capture_registry_def, folded planned_parent_def, folded planned_kind_def,
          folded planned_meta_def]
      show ?thesis
      proof (cases ?p)
        case (Inl err)
        with run show ?thesis by (auto simp: pack_to_file_def)
      next
        case (Inr bytes)
        with run have "deliver e hc oid now ?g (planned_create e device full_every d ?g new bytes) new
            (prior_diffs e (dm_state d) ?g) (d\<lparr>dm_cache := (dm_cache d)(e_blake3 e bytes \<mapsto> bytes)\<rparr>) = (d', r)"
          by (simp add: pack_to_file_def planned_create_def)
        moreover have "packed e device full_every job now d new bytes"
          unfolding packed_def Let_def using new Some cd Inr by blast
        ultimately show ?thesis by blast
      qed
    qed
  qed
qed

lemma run_backup_fs:
  assumes "run_backup e hc device full_every job oid now d = (d', r)" and "payload_codec e"
  shows "dm_fs d' = dm_fs d"
  using run_backup_cases [OF assms(1)]
proof (elim disjE conjE exE)
  fix new bytes
  let ?d1 = "d\<lparr>dm_cache := (dm_cache d)(e_blake3 e bytes \<mapsto> bytes)\<rparr>"
  let ?cv = "planned_create e device full_every d (bj_game_id job) new bytes"
  assume "deliver e hc oid now (bj_game_id job) ?cv new (prior_diffs e (dm_state d) (bj_game_id job)) ?d1 = (d', r)"
  then have "delivered e oid (bj_game_id job) ?cv ?d1 d' r \<and> dm_fs d' = dm_fs ?d1"
    by (rule deliver_delivered [OF _ assms(2), where blob = bytes]) (simp_all add: planned_create_def)
  then show ?thesis by simp
qed auto

lemma run_backup_result:
  assumes "run_backup e hc device full_every job oid now d = (d', r)" and "payload_codec e"
  shows "dm_fs d' = dm_fs d \<and>
    (case r of
       Inl err \<Rightarrow> dm_state d' = dm_state d
     | Inr NoChange \<Rightarrow> d' = d
     | Inr out \<Rightarrow>
         (\<exists>new bytes. packed e device full_every job now d new bytes \<and>
            delivered e oid (bj_game_id job)
              (planned_create e device full_every d (bj_game_id job) new bytes) d d' r))"
  using run_backup_cases [OF assms(1)]
proof (elim disjE conjE exE)
  fix new bytes
  let ?d1 = "d\<lparr>dm_cache := (dm_cache d)(e_blake3 e bytes \<mapsto> bytes)\<rparr>"
  let ?cv = "planned_create e device full_every d (bj_game_id job) new bytes"
  assume p: "packed e device full_every job now d new bytes"
    and dl: "deliver e hc oid now (bj_game_id job) ?cv new (prior_diffs e (dm_state d) (bj_game_id job)) ?d1 = (d', r)"
  from dl have "delivered e oid (bj_game_id job) ?cv ?d1 d' r \<and> dm_fs d' = dm_fs ?d1"
    by (rule deliver_delivered [OF _ assms(2), where blob = bytes]) (simp_all add: planned_create_def)
  then have del: "delivered e oid (bj_game_id job) ?cv d d' r" and "dm_fs d' = dm_fs d"
    by simp_all
  then show ?thesis
    using p by (cases r) (auto simp: delivered_def split: backup_outcome.splits)
qed auto

text \<open>C6: a backup never loses a change. It does not touch the game's files; if it fails, the
  database is as it was; if it reports no change, nothing at all changed and nothing was sent.
  Otherwise a snapshot was taken and packed, and the local base is advanced to exactly the files
  of that snapshot only together with the version being safe: either the server answered the
  request for it (created, or stored as a branch), and the base names that version, or it is in
  the outbox with its archive, whose bytes have the announced hash, in the cache, the base keeps
  the old head, and the game is marked unconfirmed.\<close>

theorem run_backup_durable:
  assumes "run_backup e hc device full_every job oid now d = (d', r)" and "payload_codec e"
  shows "dm_fs d' = dm_fs d \<and>
    (case r of
       Inl err \<Rightarrow> dm_state d' = dm_state d
     | Inr NoChange \<Rightarrow> d' = d
     | Inr out \<Rightarrow>
         (\<exists>new bytes. packed e device full_every job now d new bytes \<and>
            delivered e oid (bj_game_id job)
              (planned_create e device full_every d (bj_game_id job) new bytes) d d' r))"
  by (rule run_backup_result [OF assms])

lemma prior_diffs_set:
  "prior_diffs e (set_meta s (diff_count_key e g) (show_u32 n)) g = n"
  "k \<noteq> diff_count_key e g \<Longrightarrow> prior_diffs e (set_meta s k v) g = prior_diffs e s g"
  "prior_diffs e (put_snapshot s g' fs t h) g = prior_diffs e s g"
  "prior_diffs e (enqueue_outbox s i b t) g = prior_diffs e s g"
  by (simp_all add: prior_diffs_def kv.get_put)

lemma queue_backup_prior:
  "queue_backup e s oid now g cv h fs t p = Inr s' \<Longrightarrow> prior_diffs e s' g = prior_diffs e s g"
  by (auto simp: queue_backup_def enqueue_def bind_res_Inr_iff prior_diffs_set key_prefixes
      key_prefixes [THEN not_sym] split: sum.splits)

lemma with_state_prior:
  "with_state d (queue_backup e s oid now g cv h fs t p) Queued = (d', r) \<Longrightarrow> dm_state d = s \<Longrightarrow>
   prior_diffs e (dm_state d') g = prior_diffs e s g \<and> (\<forall>v. r \<noteq> Inr (Uploaded v))"
  by (auto simp: with_state_def queue_backup_prior split: sum.splits)

lemma deliver_prior:
  assumes "deliver e hc oid now g cv new prior d = (d', r)"
  shows "prior_diffs e (dm_state d') g =
    (case r of
       Inr (Uploaded v) \<Rightarrow> (case cv_kind cv of Full \<Rightarrow> 0 | Differential \<Rightarrow> prior + 1)
     | _ \<Rightarrow> prior_diffs e (dm_state d) g)"
proof (cases "hc \<and> is_authenticated (dm_client d)")
  case False
  have "with_state d (queue_backup e (dm_state d) oid now g cv (cv_blob_hash cv)
      (sn_files new) (sn_taken_at new) (cv_parent cv)) Queued = (d', r)"
    using assms unfolding deliver_def Let_def if_not_P [OF False] .
  from with_state_prior [OF this refl] show ?thesis
    by (auto split: sum.splits backup_outcome.splits)
next
  case True
  obtain c n u where up: "upload_version e (dm_client d) (dm_net d) g cv
      (dm_cache d (cv_blob_hash cv)) = ((c, n), u)" by (metis surj_pair)
  note run = assms [unfolded deliver_def Let_def if_P [OF True] up prod.case]
  show ?thesis
  proof (cases u)
    case (Inl err)
    with run have ws: "with_state (d\<lparr>dm_client := c, dm_net := n\<rparr>) (queue_backup e (dm_state d) oid now g cv
        (cv_blob_hash cv) (sn_files new) (sn_taken_at new) (cv_parent cv)) Queued = (d', r)" by simp
    from with_state_prior [OF ws] show ?thesis by (auto split: sum.splits backup_outcome.splits)
  next
    case (Inr out)
    with run show ?thesis
      by (cases out) (auto simp: bump_diff_counter_def set_last_backup_at_def prior_diffs_set
          key_prefixes key_prefixes [THEN not_sym] Let_def)
  qed
qed

text \<open>The number of differentials since the last full version never exceeds the configured
  limit, so the counter cannot overflow: a differential is only made below the limit, an upload
  of a differential adds one to the counter, an upload of a full version resets it, and no other
  outcome changes it. A version is full whenever the game has no known head or its last backup is
  still unconfirmed.\<close>

theorem diff_counter_bounded:
  assumes run: "run_backup e hc device full_every job oid now d = (d', r)"
    and le: "prior_diffs e (dm_state d) (bj_game_id job) \<le> full_every"
  shows "prior_diffs e (dm_state d') (bj_game_id job) \<le> full_every \<and>
    (case r of
       Inr (Uploaded v) \<Rightarrow>
         unat (prior_diffs e (dm_state d') (bj_game_id job)) =
           (case planned_kind e full_every d (bj_game_id job) of
              Full \<Rightarrow> 0 | Differential \<Rightarrow> unat (prior_diffs e (dm_state d) (bj_game_id job)) + 1)
     | _ \<Rightarrow> prior_diffs e (dm_state d') (bj_game_id job) = prior_diffs e (dm_state d) (bj_game_id job)) \<and>
    (planned_kind e full_every d (bj_game_id job) = Differential \<longrightarrow>
       planned_parent d (bj_game_id job) \<noteq> None \<and> \<not> is_unconfirmed e (dm_state d) (bj_game_id job) \<and>
       prior_diffs e (dm_state d) (bj_game_id job) < full_every)"
proof -
  let ?g = "bj_game_id job"
  let ?prior = "prior_diffs e (dm_state d) ?g"
  have diff: "planned_parent d ?g \<noteq> None \<and> \<not> is_unconfirmed e (dm_state d) ?g \<and> ?prior < full_every"
    if "planned_kind e full_every d ?g = Differential"
    using that by (auto simp: planned_kind_def backup_kind_def split: if_splits)
  have bump: "unat (?prior + 1) = unat ?prior + 1 \<and> ?prior + 1 \<le> full_every" if "?prior < full_every"
  proof -
    have lt: "unat ?prior + 1 \<le> unat full_every" "unat full_every < 2 ^ 32"
      using that unsigned_less [of full_every] by (simp_all add: word_less_nat_alt)
    then have "unat (?prior + 1) = unat ?prior + 1" by (simp add: unat_word_ariths(1))
    with lt show ?thesis by (simp add: word_le_nat_alt)
  qed
  from run_backup_cases [OF run] show ?thesis
  proof (elim disjE conjE exE)
    fix new bytes
    assume "deliver e hc oid now ?g (planned_create e device full_every d ?g new bytes) new ?prior
      (d\<lparr>dm_cache := (dm_cache d)(e_blake3 e bytes \<mapsto> bytes)\<rparr>) = (d', r)"
    from deliver_prior [OF this] show ?thesis
      using le diff bump
      by (cases "planned_kind e full_every d ?g")
        (auto simp: planned_create_def split: sum.splits backup_outcome.splits)
  qed (use le diff in auto)
qed

lemma backoff_delay_value: "backoff_delay x = (if unat x < 9 then 2 ^ unat x else 300)"
proof (cases "unat x < 9")
  case True
  then have "min x 9 = x" by (simp add: min_def word_le_nat_alt)
  moreover have "(2::nat) ^ unat x \<le> 2 ^ 8" using True by (intro power_increasing) auto
  ultimately show ?thesis using True by (simp add: backoff_delay_def)
next
  case False
  then have "9 \<le> x" by (simp add: word_le_nat_alt)
  then have "min x 9 = 9" by (simp add: min_def)
  with False show ?thesis by (simp add: backoff_delay_def)
qed

lemma power_below_cap: "n < 9 \<Longrightarrow> (2::nat) ^ n \<le> 256"
  using power_increasing [of n 8 "2::nat"] by simp

lemma backoff_delay_range: "1 \<le> backoff_delay x" "backoff_delay x \<le> 300"
  using power_below_cap [of "unat x"] by (auto simp: backoff_delay_value)

text \<open>The delay before the next attempt doubles from one second and is capped at five minutes:
  it is \<open>2 ^ n\<close> seconds for fewer than nine attempts and 300 from then on, so it is never
  zero, never more than 300 and never decreases, whatever 32-bit attempt count the database holds.\<close>

theorem backoff_capped:
  "backoff_delay a = (if unat a < 9 then 2 ^ unat a else 300) \<and> 1 \<le> backoff_delay a \<and>
   backoff_delay a \<le> 300 \<and> (a \<le> b \<longrightarrow> backoff_delay a \<le> backoff_delay b)"
  using power_below_cap [of "unat a"] backoff_delay_range [of a]
  by (auto simp: backoff_delay_value word_le_nat_alt intro: power_increasing)

section \<open>The outbox\<close>

text \<open>An entry is settled when it cannot be parsed, or when the server answered its request.\<close>

definition settled :: "'n env \<Rightarrow> byte list \<Rightarrow> bool" where
  "settled e payload =
     (case e_payload_parse e payload of
        Inl err \<Rightarrow> True
      | Inr p \<Rightarrow> (\<exists>out. accepted e (op_game_id p) (op_create_version p) out))"

definition postponed :: "time \<Rightarrow> int \<Rightarrow> outbox_row \<Rightarrow> outbox_row" where
  "postponed now attempts r =
     r\<lparr>ob_attempts := ob_attempts r + 1,
       ob_next_retry := Some (now + int (backoff_delay (word_of_int attempts)) * 1000000000)\<rparr>"

lemma postponed_id [simp]: "ob_version_id (postponed now a r) = ob_version_id r"
  by (simp add: postponed_def)

lemma remove_outbox_rows [simp]:
  "ls_outbox (remove_outbox s i) = filter (\<lambda>r. ob_version_id r \<noteq> i) (ls_outbox s)"
  by (simp add: remove_outbox_def)

lemma retry_item_rows:
  "ls_outbox (dm_state (retry_item e now item d)) =
     filter (\<lambda>r. ob_version_id r \<noteq> oi_version_id item) (ls_outbox (dm_state d)) \<and>
     settled e (oi_payload item) \<or>
   ls_outbox (dm_state (retry_item e now item d)) =
     map (\<lambda>r. if ob_version_id r = oi_version_id item then postponed now (oi_attempts item) r else r)
       (ls_outbox (dm_state d))"
proof (cases "e_payload_parse e (oi_payload item)")
  case (Inl err)
  then show ?thesis by (simp add: retry_item_def settled_def)
next
  case (Inr p)
  obtain c n u where up: "upload_version e (dm_client d) (dm_net d) (op_game_id p) (op_create_version p)
      (dm_cache d (op_blob_hex p)) = ((c, n), u)" by (metis surj_pair)
  show ?thesis
  proof (cases u)
    case u: (Inl err)
    then show ?thesis
      using Inr up by (simp add: retry_item_def bump_outbox_attempt_def postponed_def)
  next
    case u: (Inr out)
    have "accepted e (op_game_id p) (op_create_version p) out"
      using up unfolding u by (rule upload_version_accepted)
    then have "settled e (oi_payload item)" using Inr by (auto simp: settled_def)
    then show ?thesis using Inr up u by (cases out) (simp_all add: retry_item_def Let_def)
  qed
qed

lemma retry_items_row:
  assumes "distinct (map oi_version_id items)" and "r \<in> set (ls_outbox (dm_state d))"
  shows "(if ob_version_id r \<notin> oi_version_id ` set items
          then r \<in> set (ls_outbox (dm_state (fold (retry_item e now) items d)))
          else \<exists>item \<in> set items. oi_version_id item = ob_version_id r \<and>
            (settled e (oi_payload item) \<or>
             postponed now (oi_attempts item) r \<in> set (ls_outbox (dm_state (fold (retry_item e now) items d)))))"
  using assms
proof (induction items arbitrary: d r)
  case Nil
  then show ?case by simp
next
  case (Cons item items)
  let ?d1 = "retry_item e now item d"
  have dist: "distinct (map oi_version_id items)" using Cons.prems by simp
  show ?case
  proof (cases "ob_version_id r = oi_version_id item")
    case False
    then have "r \<in> set (ls_outbox (dm_state ?d1))"
      using Cons.prems retry_item_rows [of e now item d] by auto
    from Cons.IH [OF dist this] show ?thesis using False by (auto split: if_splits)
  next
    case True
    have "postponed now (oi_attempts item) r \<in> set (ls_outbox (dm_state ?d1))"
      if "\<not> settled e (oi_payload item)"
      using that Cons.prems True retry_item_rows [of e now item d] by auto
    then have "\<not> settled e (oi_payload item) \<Longrightarrow> postponed now (oi_attempts item) r \<in>
        set (ls_outbox (dm_state (fold (retry_item e now) items ?d1)))"
      using Cons.IH [OF dist, of "postponed now (oi_attempts item) r"] Cons.prems True by auto
    then show ?thesis using True by auto
  qed
qed

lemma due_outbox_items:
  "set (due_outbox s now) = outbox_item_of ` {r \<in> set (ls_outbox s). is_due now r}"
  by (simp add: due_outbox_def)

lemma due_outbox_distinct:
  assumes "distinct (map ob_version_id (ls_outbox s))"
  shows "distinct (map oi_version_id (due_outbox s now))"
proof -
  have "mset (map ob_version_id (sort_key ob_next_retry (filter (is_due now) (ls_outbox s)))) =
      mset (map ob_version_id (filter (is_due now) (ls_outbox s)))" by simp
  then have "distinct (map ob_version_id (sort_key ob_next_retry (filter (is_due now) (ls_outbox s))))"
    using distinct_map_filter_key [OF assms] by (metis mset_eq_imp_distinct_iff)
  then show ?thesis by (simp add: due_outbox_def outbox_item_of_def comp_def)
qed


section \<open>Concrete inputs\<close>

definition ex_create :: create_version_req where
  "ex_create =
     \<lparr>cv_parent = None, cv_kind = Full, cv_files = sn_files ex_snapshot, cv_blob_hash = '''',
      cv_bytes = 0, cv_device_id = 2\<rparr>"

definition ex_op :: outbox_payload where
  "ex_op = \<lparr>op_game_id = 7, op_blob_hex = '''', op_create_version = ex_create\<rparr>"

text \<open>A daemon without a server: every request fails.\<close>

definition ex_env :: "unit env" where
  "ex_env =
     \<lparr>e_blake3 = ex_hash, e_glob = ex_glob, e_pattern = ex_pattern,
      e_lib = ex_lib [ex_am] [ex_entries],
      e_payload_json = (\<lambda>p. if p = ex_op then Inr [7] else Inl ''json''),
      e_payload_parse = (\<lambda>b. if b = [7] then Inr ex_op else Inl ''json''),
      e_http = (\<lambda>r n. (n, Inl ''offline'')), e_show_uuid = (\<lambda>u. ''u''), e_show_time = (\<lambda>t. ''t'')\<rparr>"

definition ex_job :: backup_job where
  "ex_job =
     \<lparr>bj_game_id = 7, bj_patterns = [''/s''], bj_anchor = ex_anchor, bj_registry_keys = [],
      bj_excludes = [''log'']\<rparr>"

definition ex_daemon :: "unit daemon" where
  "ex_daemon =
     \<lparr>dm_state = init, dm_cache = Map.empty, dm_fs = ex_tree,
      dm_client = set_access_token (client_new ''https://savr/'') ''tok'', dm_net = ()\<rparr>"

definition ex_run :: "unit daemon \<times> (daemon_error + backup_outcome)" where
  "ex_run = run_backup ex_env True 2 10 ex_job 50 3 ex_daemon"

lemma ex_codec: "payload_codec ex_env"
  by (simp add: payload_codec_def ex_env_def)

lemma ex_run_queued: "snd ex_run = Inr Queued"
  by code_simp

lemma ex_run_eq: "run_backup ex_env True 2 10 ex_job 50 3 ex_daemon = (fst ex_run, Inr Queued)"
  using ex_run_queued by (metis ex_run_def prod.collapse)

theorem run_backup_durable_witness:
  "dm_fs (fst ex_run) = dm_fs ex_daemon \<and>
   (\<exists>new bytes. packed ex_env 2 10 ex_job 3 ex_daemon new bytes \<and>
      delivered ex_env 50 7 (planned_create ex_env 2 10 ex_daemon 7 new bytes) ex_daemon (fst ex_run) (Inr Queued))"
  using run_backup_durable [OF ex_run_eq ex_codec] by (simp add: ex_job_def)

theorem diff_counter_bounded_witness:
  "prior_diffs ex_env (dm_state (fst ex_run)) (bj_game_id ex_job) \<le> 10"
  by (rule diff_counter_bounded [OF ex_run_eq, THEN conjunct1]) code_simp

theorem backoff_capped_witness: "backoff_delay 3 \<le> backoff_delay 20"
  using backoff_capped [of 3 20] by simp

lemma ex_run_outbox:
  "ls_outbox (dm_state (fst ex_run)) =
     [\<lparr>ob_version_id = 50, ob_payload = [7], ob_attempts = 0, ob_next_retry = Some 3\<rparr>]"
  by code_simp


end
