(* ===== verification/Restore.thy ===== *)
theory Restore
  imports Backup
begin

text \<open>
  The restore pipeline of the daemon (\<open>savr-daemon/src/restore.rs\<close>): refuse while the game runs,
  back up the present files, find the chain of versions from the target back to a full one,
  download, verify and unpack each archive of the chain, and put the merged files in place. The
  walk along the parents is a loop that the code does not bound, so it is a partial function
  (\<open>None\<close> is not returning); that it returns is shown for histories whose parents come earlier.
  A downloaded archive is its bytes: the scratch file it is written to is read back at once.
\<close>

section \<open>Definitions\<close>

record restore_request =
  rq_game_id :: uuid
  rq_version_id :: uuid
  rq_anchor :: path
  rq_patterns :: "string list"
  rq_registry_keys :: "string list"

definition versions_by_id :: "version list \<Rightarrow> uuid \<Rightarrow> version option" where
  "versions_by_id vs = map_of (rev (map (\<lambda>v. (v_id v, v)) vs))"

partial_function (option) chain_loop ::
  "(uuid \<Rightarrow> version option) \<Rightarrow> uuid option \<Rightarrow> version list \<Rightarrow> (string + version list) option" where
  "chain_loop by_id cursor chain =
     (case cursor of
        None \<Rightarrow> Some (Inr chain)
      | Some i \<Rightarrow>
          (case by_id i of
             None \<Rightarrow> Some (Inl ''version missing from history'')
           | Some v \<Rightarrow>
               if v_kind v = Full then Some (Inr (chain @ [v]))
               else chain_loop by_id (v_parent v) (chain @ [v])))"

declare chain_loop.simps [code]

definition build_chain :: "version list \<Rightarrow> uuid \<Rightarrow> (string + version list) option" where
  "build_chain versions target =
     (case chain_loop (versions_by_id versions) (Some target) [] of
        None \<Rightarrow> None
      | Some (Inl e) \<Rightarrow> Some (Inl e)
      | Some (Inr chain) \<Rightarrow>
          if chain = [] \<or> v_kind (last chain) \<noteq> Full
          then Some (Inl ''differential chain never reaches a full backup'')
          else Some (Inr (rev chain)))"

definition verify_blob :: "(byte list \<Rightarrow> blake3_hash) \<Rightarrow> byte list \<Rightarrow> blake3_hash \<Rightarrow> daemon_error + unit" where
  "verify_blob blake3 bytes expected =
     (if blake3 bytes \<noteq> expected then Inl (Refused ''archive integrity check failed'') else Inr ())"

text \<open>Every entry below a directory that is not a directory itself, as a relative path.\<close>

fun walk_rel_inner :: "path \<Rightarrow> node \<Rightarrow> string list" and walk_rel_entries :: "path \<Rightarrow> (string \<times> node) list \<Rightarrow> string list" where
  "walk_rel_inner p (Dir es) = walk_rel_entries p es"
| "walk_rel_inner p (File bs m) = [slash_join p]"
| "walk_rel_inner p Special = [slash_join p]"
| "walk_rel_entries p [] = []"
| "walk_rel_entries p ((x, n) # es) = walk_rel_inner (p @ [Normal x]) n @ walk_rel_entries p es"

definition walk_rel :: "node \<Rightarrow> path \<Rightarrow> string list" where
  "walk_rel fs dir =
     (case lookup fs (loc dir) of Some (Dir es) \<Rightarrow> walk_rel_entries [] es | _ \<Rightarrow> [])"

definition merge_staged :: "node \<Rightarrow> path \<Rightarrow> string list \<Rightarrow> (string \<times> path) list \<Rightarrow> (string \<times> path) list" where
  "merge_staged fs staged deletions merged =
     fold AList.delete deletions
       (fold (\<lambda>rel. AList.update rel (path_join staged (components rel))) (walk_rel fs staged) merged)"

text \<open>Download, verify, unpack and merge the archives of a chain, oldest first. \<open>m\<close> is the
  metadata of the files that unpacking creates.\<close>

fun fetch_chain ::
  "'n env \<Rightarrow> file_meta \<Rightarrow> path \<Rightarrow> version list \<Rightarrow> (string \<times> path) list \<Rightarrow> 'n daemon \<Rightarrow>
   'n daemon \<times> (daemon_error + (string \<times> path) list)" where
  "fetch_chain e m scratch [] merged d = (d, Inr merged)"
| "fetch_chain e m scratch (v # vs) merged d =
     (let staged = path_join scratch [Normal (e_show_uuid e (v_id v))] in
      case blob_get_call (e_http e) (dm_client d) (dm_net d) (v_blob_hash v) of
        ((c, n), written, Inl err) \<Rightarrow> (d\<lparr>dm_client := c, dm_net := n\<rparr>, Inl (ClientError err))
      | ((c, n), written, Inr _) \<Rightarrow>
          (let d1 = d\<lparr>dm_client := c, dm_net := n\<rparr>; bytes = (case written of None \<Rightarrow> [] | Some b \<Rightarrow> b) in
           case verify_blob (e_blake3 e) bytes (v_blob_hash v) of
             Inl err \<Rightarrow> (d1, Inl err)
           | Inr _ \<Rightarrow>
               (case unpack (e_lib e) m bytes staged (dm_fs d1) of
                  (fs, Inl err) \<Rightarrow> (d1\<lparr>dm_fs := fs\<rparr>, Inl (CoreError err))
                | (fs, Inr u) \<Rightarrow>
                    fetch_chain e m scratch vs
                      (merge_staged fs staged (am_deletions (up_meta u)) merged)
                      (d1\<lparr>dm_fs := fs\<rparr>))))"

text \<open>\<open>Path::with_extension\<close> and \<open>fs::rename\<close> of a regular file.\<close>

definition file_stem :: "string \<Rightarrow> string" where
  "file_stem s =
     (let parts = split_on (CHR ''.'') s; stem = join_with ''.'' (butlast parts)
      in if stem = '''' then s else stem)"

definition with_extension :: "string \<Rightarrow> path \<Rightarrow> path" where
  "with_extension ext p =
     (case file_name p of None \<Rightarrow> p | Some s \<Rightarrow> butlast p @ [Normal (file_stem s @ ''.'' @ ext)])"

definition rename_file :: "string list \<Rightarrow> string list \<Rightarrow> node \<Rightarrow> fs_error + node" where
  "rename_file p q n =
     (case lookup n p of
        Some (File bs m) \<Rightarrow>
          if p = q then Inr n else bind_res (write_file bs m q n) (remove_file p)
      | None \<Rightarrow> Inl NotFound
      | _ \<Rightarrow> Inl Unsupported)"

definition swap_in :: "path \<Rightarrow> file_meta \<Rightarrow> string \<times> path \<Rightarrow> node \<Rightarrow> fs_error + node" where
  "swap_in anchor m rs n =
     (let dest = path_join anchor (components (fst rs)); tmp = with_extension ''savr-restore-tmp'' dest in
      bind_res (case path_parent dest of None \<Rightarrow> Inr n | Some p \<Rightarrow> create_dir_all (loc p) n) (\<lambda>n1.
      bind_res (read_file n1 (loc (snd rs))) (\<lambda>bs.
      bind_res (write_file bs m (loc tmp) n1) (rename_file (loc tmp) (loc dest)))))"

fun swap_all :: "path \<Rightarrow> file_meta \<Rightarrow> (string \<times> path) list \<Rightarrow> node \<Rightarrow> fs_error + node" where
  "swap_all anchor m [] n = Inr n"
| "swap_all anchor m (rs # merged) n = bind_res (swap_in anchor m rs n) (swap_all anchor m merged)"

definition drop_stale :: "path \<Rightarrow> (string \<times> path) list \<Rightarrow> file_entry list \<Rightarrow> node \<Rightarrow> node" where
  "drop_stale anchor merged fs n =
     fold (\<lambda>f n.
        if map_of merged (fe_rel_path f) = None
        then (case remove_file (loc (path_join anchor (components (fe_rel_path f)))) n of
                Inl e \<Rightarrow> n | Inr n' \<Rightarrow> n')
        else n) fs n"

text \<open>Steps 4 to 6: put the merged files in place, remove what the target does not have, and make
  the target the local base. A failing write leaves the files written before it (and perhaps its
  own temporary file, which is left out).\<close>

fun swap_prefix :: "path \<Rightarrow> file_meta \<Rightarrow> (string \<times> path) list \<Rightarrow> node \<Rightarrow> node" where
  "swap_prefix anchor m [] n = n"
| "swap_prefix anchor m (rs # merged) n =
     (case swap_in anchor m rs n of Inl e \<Rightarrow> n | Inr n' \<Rightarrow> swap_prefix anchor m merged n')"

definition apply_restore ::
  "restore_request \<Rightarrow> file_meta \<Rightarrow> version list \<Rightarrow> (string \<times> path) list \<Rightarrow> 'n daemon \<Rightarrow>
   'n daemon \<times> (daemon_error + unit)" where
  "apply_restore req m chain merged d =
     (case swap_all (rq_anchor req) m merged (dm_fs d) of
        Inl err \<Rightarrow>
          (d\<lparr>dm_fs := swap_prefix (rq_anchor req) m merged (dm_fs d)\<rparr>, Inl (CoreError (IoErr err)))
      | Inr n \<Rightarrow>
          (let n' = (case get_snapshot (dm_state d) (rq_game_id req) of
                       None \<Rightarrow> n
                     | Some s \<Rightarrow> drop_stale (rq_anchor req) merged (ss_files s) n)
           in if chain = [] then (d\<lparr>dm_fs := n'\<rparr>, Inl (Refused ''empty restore chain''))
              else
                (let target = last chain in
                 (d\<lparr>dm_fs := n',
                    dm_state := put_snapshot (dm_state d) (rq_game_id req) (v_files target)
                      (v_created_at target) (Some (v_id target))\<rparr>, Inr ()))))"

text \<open>\<open>None\<close>: the search for the chain does not return.\<close>

definition run_restore ::
  "'n env \<Rightarrow> uuid \<Rightarrow> restore_request \<Rightarrow> bool \<Rightarrow> path \<Rightarrow> file_meta \<Rightarrow> uuid \<Rightarrow> time \<Rightarrow> 'n daemon \<Rightarrow>
   ('n daemon \<times> (daemon_error + unit)) option" where
  "run_restore e device req game_running scratch m oid now d =
     (if game_running then Some (d, Inl (Refused ''game is running''))
      else if rq_patterns req = [] \<and> rq_registry_keys req = []
      then Some (d, Inl (Refused ''no known save paths for this game''))
      else
        (case run_backup e True device (-1)
                \<lparr>bj_game_id = rq_game_id req, bj_patterns = rq_patterns req, bj_anchor = rq_anchor req,
                 bj_registry_keys = rq_registry_keys req, bj_excludes = []\<rparr> oid now d of
           (d1, Inl err) \<Rightarrow> Some (d1, Inl (Refused ''pre-restore backup failed, aborting restore''))
         | (d1, Inr _) \<Rightarrow>
             (case list_versions_call (e_http e) (dm_client d1) (dm_net d1) (rq_game_id req) of
                ((c, n), Inl err) \<Rightarrow> Some (d1\<lparr>dm_client := c, dm_net := n\<rparr>, Inl (ClientError err))
              | ((c, n), Inr versions) \<Rightarrow>
                  (let d2 = d1\<lparr>dm_client := c, dm_net := n\<rparr> in
                   case build_chain versions (rq_version_id req) of
                     None \<Rightarrow> None
                   | Some (Inl err) \<Rightarrow> Some (d2, Inl (Refused err))
                   | Some (Inr chain) \<Rightarrow>
                       (case fetch_chain e m scratch chain [] d2 of
                          (d3, Inl err) \<Rightarrow> Some (d3, Inl err)
                        | (d3, Inr merged) \<Rightarrow> Some (apply_restore req m chain merged d3))))))"

section \<open>The chain of versions\<close>

text \<open>The versions a walk from a cursor meets: each the parent of the one before, the first full
  one ends it.\<close>

fun is_walk :: "(uuid \<Rightarrow> version option) \<Rightarrow> uuid option \<Rightarrow> version list \<Rightarrow> bool" where
  "is_walk by_id c [] = (c = None)"
| "is_walk by_id c (v # vs) =
     (Option.bind c by_id = Some v \<and> (if v_kind v = Full then vs = [] else is_walk by_id (v_parent v) vs))"

lemma chain_loop_walk:
  assumes "chain_loop by_id c chain = Some r"
  shows "r = Inr out \<longrightarrow> (\<exists>vs. out = chain @ vs \<and> is_walk by_id c vs)"
proof (rule chain_loop.raw_induct [OF _ assms], rule impI)
  fix loop by_id c chain r
  assume 1: "\<And>by_id c chain r. loop by_id c chain = Some r \<Longrightarrow>
      r = Inr out \<longrightarrow> (\<exists>vs. out = chain @ vs \<and> is_walk by_id c vs)"
    "(case c of None \<Rightarrow> Some (Inr chain)
      | Some i \<Rightarrow> (case by_id i of None \<Rightarrow> Some (Inl ''version missing from history'')
           | Some v \<Rightarrow> if v_kind v = Full then Some (Inr (chain @ [v]))
               else loop by_id (v_parent v) (chain @ [v]))) = Some r"
    "r = Inr out"
  show "\<exists>vs. out = chain @ vs \<and> is_walk by_id c vs"
  proof (cases c)
    case None
    with 1(2,3) show ?thesis by auto
  next
    case (Some i)
    show ?thesis
    proof (cases "by_id i")
      case None
      with 1(2,3) Some show ?thesis by auto
    next
      case v: (Some v)
      show ?thesis
      proof (cases "v_kind v = Full")
        case True
        with 1(2,3) Some v show ?thesis by (auto intro: exI [of _ "[v]"])
      next
        case False
        with 1(2) Some v have "loop by_id (v_parent v) (chain @ [v]) = Some r" by simp
        from 1(1) [OF this] 1(3) obtain vs where "out = (chain @ [v]) @ vs" "is_walk by_id (v_parent v) vs"
          by blast
        with Some v False show ?thesis by (auto intro: exI [of _ "v # vs"])
      qed
    qed
  qed
qed

lemma chain_loop_returns:
  assumes rank: "\<And>i v p. by_id i = Some v \<Longrightarrow> v_kind v \<noteq> Full \<Longrightarrow> v_parent v = Some p \<Longrightarrow>
      by_id p \<noteq> None \<Longrightarrow> rank p < (rank i :: nat)"
  shows "\<exists>r. chain_loop by_id c chain = Some r"
proof (cases c)
  case None
  then show ?thesis by (simp add: chain_loop.simps)
next
  case (Some i)
  have "\<exists>r. chain_loop by_id (Some i) chain = Some r"
  proof (induction "rank i" arbitrary: i chain rule: less_induct)
    case less
    show ?case
    proof (cases "by_id i")
      case None
      then show ?thesis by (simp add: chain_loop.simps)
    next
      case v: (Some v)
      show ?thesis
      proof (cases "v_kind v = Full \<or> v_parent v = None")
        case True
        with v show ?thesis by (auto simp: chain_loop.simps)
      next
        case False
        then obtain p where p: "v_parent v = Some p" by auto
        have "\<exists>r. chain_loop by_id (Some p) (chain @ [v]) = Some r"
        proof (cases "by_id p")
          case None
          then show ?thesis by (simp add: chain_loop.simps)
        next
          case (Some w)
          with rank [OF v _ p] False less show ?thesis by simp
        qed
        with v p False show ?thesis by (simp add: chain_loop.simps [of by_id "Some i"])
      qed
    qed
  qed
  with Some show ?thesis by simp
qed

lemma versions_by_id_Some: "versions_by_id vs i = Some v \<Longrightarrow> v \<in> set vs \<and> v_id v = i"
  unfolding versions_by_id_def by (auto dest!: map_of_SomeD)

text \<open>A chain: a full version first, each later one a differential on the one before it.\<close>

definition is_chain :: "version list \<Rightarrow> bool" where
  "is_chain vs =
     (vs \<noteq> [] \<and> v_kind (hd vs) = Full \<and>
      successively (\<lambda>v w. v_kind w = Differential \<and> v_parent w = Some (v_id v)) vs)"

lemma is_walk_chain:
  "is_walk (versions_by_id vs) c ws \<Longrightarrow> ws \<noteq> [] \<Longrightarrow> v_kind (last ws) = Full \<Longrightarrow>
   is_chain (rev ws) \<and> c = Some (v_id (hd ws)) \<and> set ws \<subseteq> set vs"
proof (induction ws arbitrary: c)
  case (Cons w ws)
  from Cons.prems obtain i where i: "c = Some i" "versions_by_id vs i = Some w"
    by (cases c) auto
  then have w: "w \<in> set vs" "v_id w = i" using versions_by_id_Some by blast+
  show ?case
  proof (cases "ws = []")
    case True
    with Cons.prems i w show ?thesis by (simp add: is_chain_def)
  next
    case False
    with Cons.prems have k: "v_kind w \<noteq> Full" and walk: "is_walk (versions_by_id vs) (v_parent w) ws"
      by (auto split: if_splits)
    from Cons.IH [OF walk False] Cons.prems False
    have IH: "is_chain (rev ws)" "v_parent w = Some (v_id (hd ws))" "set ws \<subseteq> set vs" by auto
    from k have "v_kind w = Differential" by (cases "v_kind w") auto
    with IH False i w show ?thesis
      by (auto simp: is_chain_def successively_append_iff hd_append last_rev)
  qed
qed simp

lemma build_chain_facts:
  assumes "build_chain versions target = Some (Inr chain)"
  shows "is_chain chain" and "v_id (last chain) = target" and "set chain \<subseteq> set versions"
proof -
  from assms obtain ws where ws: "chain_loop (versions_by_id versions) (Some target) [] = Some (Inr ws)"
    "ws \<noteq> []" "v_kind (last ws) = Full" "chain = rev ws"
    by (auto simp: build_chain_def split: option.splits sum.splits if_splits)
  from chain_loop_walk [OF ws(1)] have "is_walk (versions_by_id versions) (Some target) ws" by simp
  from is_walk_chain [OF this ws(2,3)] ws
  show "is_chain chain" and "v_id (last chain) = target" and "set chain \<subseteq> set versions"
    by (simp_all add: last_rev)
qed

text \<open>The restore chain is right when it is found: it consists of versions of the listed
  history, starts with a full version, each later one is a differential whose parent is the one
  before it, and it ends with the version asked for.\<close>

theorem build_chain_correct:
  assumes "build_chain versions target = Some (Inr chain)"
  shows "is_chain chain \<and> v_id (last chain) = target \<and> set chain \<subseteq> set versions"
  using build_chain_facts [OF assms] by blast

section \<open>Nothing is overwritten before every archive is verified\<close>

text \<open>The archive of a version was downloaded, has the announced hash and could be unpacked.\<close>

definition verified :: "'n env \<Rightarrow> file_meta \<Rightarrow> version \<Rightarrow> bool" where
  "verified e m v =
     (\<exists>c n cn bytes dest fs. blob_get_call (e_http e) c n (v_blob_hash v) = (cn, Some bytes, Inr ()) \<and>
        e_blake3 e bytes = v_blob_hash v \<and> is_ok (snd (unpack (e_lib e) m bytes dest fs)))"

lemma blob_get_written: "blob_get_call http c n h = (cn, w, Inr u) \<Longrightarrow> \<exists>b. w = Some b"
  by (auto simp: blob_get_call_def split: prod.splits sum.splits resp_body.splits)

text \<open>One step of the loop: it stops with an error, or the archive is verified and unpacked below
  the scratch directory and the loop goes on.\<close>

lemma fetch_chain_step:
  assumes "fetch_chain e m scratch (v # vs) merged d = (d', r)"
  obtains (stop) err where "r = Inl err" "dm_state d' = dm_state d"
      "\<forall>p. \<not> prefix (loc scratch) p \<longrightarrow> files (dm_fs d') p = files (dm_fs d) p"
  | (step) c n fs u bytes where "verified e m v"
      "unpack (e_lib e) m bytes (scratch @ [Normal (e_show_uuid e (v_id v))]) (dm_fs d) = (fs, Inr u)"
      "e_blake3 e bytes = v_blob_hash v"
      "fetch_chain e m scratch vs
         (merge_staged fs (scratch @ [Normal (e_show_uuid e (v_id v))]) (am_deletions (up_meta u)) merged)
         (d\<lparr>dm_client := c, dm_net := n, dm_fs := fs\<rparr>) = (d', r)"
      "\<forall>p. \<not> prefix (loc scratch) p \<longrightarrow> files fs p = files (dm_fs d) p"
proof -
  let ?staged = "scratch @ [Normal (e_show_uuid e (v_id v))]"
  have sub: "prefix (loc scratch) p" if "prefix (loc ?staged) p" for p
    using that by (simp add: loc_def loc_from_append) (metis append_prefixD)
  obtain c n w g where get: "blob_get_call (e_http e) (dm_client d) (dm_net d) (v_blob_hash v) = ((c, n), w, g)"
    by (metis surj_pair)
  let ?d1 = "d\<lparr>dm_client := c, dm_net := n\<rparr>"
  show thesis
  proof (cases g)
    case (Inl err)
    with assms get have "r = Inl (ClientError err)" "d' = ?d1" by (simp_all add: Let_def)
    then show thesis by (intro stop) simp_all
  next
    case g: (Inr un)
    from blob_get_written [OF get [unfolded g]] obtain bytes where w: "w = Some bytes" ..
    obtain fs ur where up: "unpack (e_lib e) m bytes ?staged (dm_fs d) = (fs, ur)" by (metis surj_pair)
    have out: "\<forall>p. \<not> prefix (loc scratch) p \<longrightarrow> files fs p = files (dm_fs d) p"
      using unpack_confined [OF up] sub by blast
    show thesis
    proof (cases "e_blake3 e bytes = v_blob_hash v")
      case False
      with assms get g w have "r = Inl (Refused ''archive integrity check failed'')" "d' = ?d1"
        by (simp_all add: Let_def verify_blob_def)
      then show thesis by (intro stop) simp_all
    next
      case hash: True
      note run = assms [unfolded fetch_chain.simps Let_def get prod.case g sum.case w option.case
          verify_blob_def, simplified hash up, simplified]
      show thesis
      proof (cases ur)
        case (Inl err)
        with run up have "r = Inl (CoreError err)" "d' = ?d1\<lparr>dm_fs := fs\<rparr>" by simp_all
        with out show thesis by (intro stop) simp_all
      next
        case (Inr u)
        from get g w have "blob_get_call (e_http e) (dm_client d) (dm_net d) (v_blob_hash v) = ((c, n), Some bytes, Inr ())"
          by simp
        with hash up Inr have "verified e m v" unfolding verified_def by (metis is_ok_simps(2) snd_conv)
        moreover from run up Inr have "fetch_chain e m scratch vs
            (merge_staged fs ?staged (am_deletions (up_meta u)) merged) (?d1\<lparr>dm_fs := fs\<rparr>) = (d', r)"
          by simp
        ultimately show thesis using up Inr hash out by (intro step [where bytes = bytes]) simp_all
      qed
    qed
  qed
qed

lemma fetch_chain_safe:
  "fetch_chain e m scratch vs merged d = (d', r) \<Longrightarrow>
   dm_state d' = dm_state d \<and>
   (\<forall>p. \<not> prefix (loc scratch) p \<longrightarrow> files (dm_fs d') p = files (dm_fs d) p) \<and>
   (is_ok r \<longrightarrow> (\<forall>v \<in> set vs. verified e m v))"
proof (induction vs arbitrary: merged d)
  case Nil
  then show ?case by auto
next
  case (Cons v vs)
  from Cons.prems show ?case
  proof (cases rule: fetch_chain_step)
    case (stop err)
    then show ?thesis by simp
  next
    case (step c n fs u bytes)
    from Cons.IH [OF step(4)] step(1,5) show ?thesis by simp
  qed
qed

lemma run_restore_cases:
  assumes "run_restore e device req running scratch m oid now d = Some (d', r)"
    and "payload_codec e"
  shows "(\<not> is_ok r \<and> (\<forall>p. \<not> prefix (loc scratch) p \<longrightarrow> files (dm_fs d') p = files (dm_fs d) p)) \<or>
    (\<not> running \<and> (\<exists>chain merged d3. is_chain chain \<and> v_id (last chain) = rq_version_id req \<and>
       (\<forall>v \<in> set chain. verified e m v) \<and>
       (\<forall>p. \<not> prefix (loc scratch) p \<longrightarrow> files (dm_fs d3) p = files (dm_fs d) p) \<and>
       apply_restore req m chain merged d3 = (d', r)))"
proof (cases "running \<or> rq_patterns req = [] \<and> rq_registry_keys req = []")
  case True
  with assms(1) have "d' = d \<and> \<not> is_ok r" by (auto simp: run_restore_def split: if_splits)
  then show ?thesis by simp
next
  case False
  let ?job = "\<lparr>bj_game_id = rq_game_id req, bj_patterns = rq_patterns req, bj_anchor = rq_anchor req,
                 bj_registry_keys = rq_registry_keys req, bj_excludes = []\<rparr>"
  obtain d1 br where b: "run_backup e True device (-1) ?job oid now d = (d1, br)" by (metis surj_pair)
  have fs1: "dm_fs d1 = dm_fs d" using run_backup_fs [OF b assms(2)] .
  obtain c n lr where l: "list_versions_call (e_http e) (dm_client d1) (dm_net d1) (rq_game_id req) = ((c, n), lr)"
    by (metis surj_pair)
  let ?d2 = "d1\<lparr>dm_client := c, dm_net := n\<rparr>"
  from False have nr: "\<not> running" "\<not> (rq_patterns req = [] \<and> rq_registry_keys req = [])" by auto
  note run = assms(1) [unfolded run_restore_def Let_def if_not_P [OF nr(1)] if_not_P [OF nr(2)] b prod.case l]
  show ?thesis
  proof (cases "\<exists>o' versions chain. br = Inr o' \<and> lr = Inr versions \<and>
      build_chain versions (rq_version_id req) = Some (Inr chain)")
    case False
    with run fs1 have "\<not> is_ok r \<and> dm_fs d' = dm_fs d"
      by (auto split: sum.splits option.splits)
    then show ?thesis by simp
  next
    case True
    then obtain o' versions chain where br: "br = Inr o'" "lr = Inr versions"
      and ch: "build_chain versions (rq_version_id req) = Some (Inr chain)" by blast
    obtain d3 fr where f: "fetch_chain e m scratch chain [] ?d2 = (d3, fr)" by (metis surj_pair)
    note safe = fetch_chain_safe [OF f]
    show ?thesis
    proof (cases fr)
      case (Inl err)
      with run br ch f have "d' = d3 \<and> \<not> is_ok r" by auto
      with safe fs1 show ?thesis by simp
    next
      case (Inr merged)
      with run br ch f have a: "apply_restore req m chain merged d3 = (d', r)" by simp
      show ?thesis
        by (intro disjI2 conjI nr(1) exI [of _ chain] exI [of _ merged] exI [of _ d3])
          (use safe Inr fs1 a build_chain_facts [OF ch] in simp_all)
    qed
  qed
qed

text \<open>C9: a restore does not put a save at risk before it has everything it needs. It is refused
  while the game runs. And whenever a file outside the scratch directory differs afterwards, or
  the restore succeeds, then a chain from a full version to the one asked for was found, every
  archive of it was downloaded, matched its announced hash and unpacked, before the first file
  was replaced: an unreachable server, a failed pre-restore backup, a broken history or a corrupt
  archive leaves the saves alone. When it succeeds, the local base is the restored version.\<close>

theorem restore_verified:
  assumes run: "run_restore e device req running scratch m oid now d = Some (d', r)"
    and codec: "payload_codec e"
    and effect: "is_ok r \<or> (\<exists>p. \<not> prefix (loc scratch) p \<and> files (dm_fs d') p \<noteq> files (dm_fs d) p)"
  shows "\<not> running \<and>
    (\<exists>chain merged d3. is_chain chain \<and> v_id (last chain) = rq_version_id req \<and>
       (\<forall>v \<in> set chain. verified e m v) \<and>
       (\<forall>p. \<not> prefix (loc scratch) p \<longrightarrow> files (dm_fs d3) p = files (dm_fs d) p) \<and>
       apply_restore req m chain merged d3 = (d', r) \<and>
       (is_ok r \<longrightarrow> base_is (dm_state d') (rq_game_id req) (v_files (last chain)) (Some (rq_version_id req))))"
proof -
  from run_restore_cases [OF run codec] effect obtain chain merged d3 where
    c: "\<not> running" "is_chain chain" "v_id (last chain) = rq_version_id req" "\<forall>v \<in> set chain. verified e m v"
      "\<forall>p. \<not> prefix (loc scratch) p \<longrightarrow> files (dm_fs d3) p = files (dm_fs d) p"
      and a: "apply_restore req m chain merged d3 = (d', r)" by blast
  have "is_ok r \<Longrightarrow> base_is (dm_state d') (rq_game_id req) (v_files (last chain)) (Some (rq_version_id req))"
    using a c(2,3) by (auto simp: apply_restore_def is_chain_def Let_def split: sum.splits)
  with c a show ?thesis by blast
qed

section \<open>What merging a chain gives\<close>

subsection \<open>A freshly unpacked directory\<close>

fun plain_node :: "node \<Rightarrow> bool" and plain_entries :: "(string \<times> node) list \<Rightarrow> bool" where
  "plain_node (Dir es) = plain_entries es"
| "plain_node (File bs m) = True"
| "plain_node Special = False"
| "plain_entries [] = True"
| "plain_entries ((x, n) # es) = (valid_name x \<and> x \<notin> fst ` set es \<and> plain_node n \<and> plain_entries es)"

lemma plain_wf: "plain_node n \<Longrightarrow> wf_node n" "plain_entries es \<Longrightarrow> wf_entries es"
  by (induction n and es rule: plain_node_plain_entries.induct) auto

lemma plain_update:
  "plain_entries es \<Longrightarrow> valid_name x \<Longrightarrow> plain_node n \<Longrightarrow> plain_entries (AList.update x n es)"
proof (induction es)
  case (Cons y es)
  then show ?case by (cases y) (auto simp: dom_update)
qed simp

lemma plain_lookup: "plain_entries es \<Longrightarrow> map_of es x = Some n \<Longrightarrow> plain_node n"
  by (induction es) (auto split: if_splits)

lemma put_file_plain:
  "plain_node n \<Longrightarrow> list_all valid_name p \<Longrightarrow> put_file p b n = Inr n' \<Longrightarrow> plain_node n'"
proof (induction p arbitrary: n n')
  case Nil
  then show ?case using put_file_not_Nil by blast
next
  case (Cons x p)
  then have "writable n (x # p)" by (simp add: writable_iff_put_file [of _ _ b])
  then obtain es where n: "n = Dir es" using writable_not_dir by blast
  show ?case
  proof (cases p)
    case Nil
    with Cons.prems n show ?thesis
      by (auto simp: put_file_single plain_update split: option.splits node.splits)
  next
    case p: (Cons y p')
    let ?k = "case map_of es x of None \<Rightarrow> Dir [] | Some n \<Rightarrow> n"
    from Cons.prems n p obtain k' where k': "put_file p b ?k = Inr k'" "n' = Dir (AList.update x k' es)"
      by (auto simp: put_file_Cons split: sum.splits)
    have "plain_node ?k" using Cons.prems n by (auto split: option.splits intro: plain_lookup)
    with Cons.IH k' Cons.prems n show ?thesis by (auto simp: plain_update)
  qed
qed

lemma put_file_below:
  "q \<noteq> [] \<Longrightarrow> put_file (p @ q) b n = Inr n' \<Longrightarrow>
   \<exists>k'. lookup n' p = Some k' \<and> put_file q b (case lookup n p of None \<Rightarrow> Dir [] | Some k \<Rightarrow> k) = Inr k'"
proof (induction p arbitrary: n n')
  case Nil
  then show ?case by simp
next
  case (Cons x p)
  then have "writable n (x # p @ q)" by (simp add: writable_iff_put_file [of _ _ b])
  then obtain es where n: "n = Dir es" using writable_not_dir by blast
  let ?k = "case map_of es x of None \<Rightarrow> Dir [] | Some n \<Rightarrow> n"
  obtain y pq where pq: "p @ q = y # pq" using Cons.prems by (cases "p @ q") auto
  with Cons.prems n obtain k' where k': "put_file (p @ q) b ?k = Inr k'" "n' = Dir (AList.update x k' es)"
    by (auto simp: put_file_Cons split: sum.splits)
  from Cons.IH [OF Cons.prems(1) k'(1)] obtain j where j: "lookup k' p = Some j"
    "put_file q b (case lookup ?k p of None \<Rightarrow> Dir [] | Some k \<Rightarrow> k) = Inr j" by blast
  have "(case lookup n (x # p) of None \<Rightarrow> Dir [] | Some k \<Rightarrow> k) = (case lookup ?k p of None \<Rightarrow> Dir [] | Some k \<Rightarrow> k)"
    by (cases p) (auto simp: n split: option.splits)
  with j k' show ?case by (simp add: update_conv')
qed

lemma put_all_below:
  assumes "\<And>w. w \<in> set ws \<Longrightarrow> rel_ok (fst w)"
    and "put_all put_file (map (\<lambda>w. (p @ fst w, (snd w, m))) ws) n = Inr n'"
    and "plain_node (case lookup n p of None \<Rightarrow> Dir [] | Some k \<Rightarrow> k)"
  shows "plain_node (case lookup n' p of None \<Rightarrow> Dir [] | Some k \<Rightarrow> k)"
  using assms
proof (induction ws arbitrary: n)
  case Nil
  then show ?case by simp
next
  case (Cons w ws)
  then obtain n1 where n1: "put_file (p @ fst w) (snd w, m) n = Inr n1"
    and rest: "put_all put_file (map (\<lambda>w. (p @ fst w, (snd w, m))) ws) n1 = Inr n'"
    by (auto simp: bind_res_Inr_iff)
  have w: "fst w \<noteq> []" "list_all valid_name (fst w)" using Cons.prems(1) [of w] by (auto simp: rel_ok_def)
  from put_file_below [OF w(1) n1] obtain k' where k': "lookup n1 p = Some k'"
    "put_file (fst w) (snd w, m) (case lookup n p of None \<Rightarrow> Dir [] | Some k \<Rightarrow> k) = Inr k'" by blast
  from put_file_plain [OF Cons.prems(3) w(2) k'(2)] k'(1)
  have "plain_node (case lookup n1 p of None \<Rightarrow> Dir [] | Some k \<Rightarrow> k)" by simp
  with Cons.IH [OF Cons.prems(1) rest] show ?case by simp
qed

lemma walk_leaves:
  "plain_node n \<Longrightarrow> walk_rel_inner p n = map (\<lambda>l. slash_join (fst l)) (leaves p n)"
  "plain_entries es \<Longrightarrow> walk_rel_entries p es = map (\<lambda>l. slash_join (fst l)) (leaves_entries p es)"
  by (induction p n and p es rule: walk_rel_inner_walk_rel_entries.induct) auto

lemma walk_rel_iff:
  assumes "plain_node (case lookup fs (loc dir) of None \<Rightarrow> Dir [] | Some k \<Rightarrow> k)"
    and "\<And>bs m. lookup fs (loc dir) \<noteq> Some (File bs m)"
  shows "rel \<in> set (walk_rel fs dir) \<longleftrightarrow> (\<exists>q. rel = join_with ''/'' q \<and> files fs (loc dir @ q) \<noteq> None)"
proof (cases "lookup fs (loc dir)")
  case None
  then have "files fs (loc dir @ q) = None" for q by (simp add: files_def lookup_append)
  with None show ?thesis by (simp add: walk_rel_def)
next
  case (Some k)
  with assms obtain es where k: "k = Dir es" by (cases k) auto
  have plain: "plain_node (Dir es)" using assms(1) Some k by simp
  note iff = leaves_iff(1) [OF plain_wf(1) [OF plain], of _ _ _ "[]"]
  have "rel \<in> set (walk_rel fs dir) \<longleftrightarrow> (\<exists>l \<in> set (leaves [] (Dir es)). rel = slash_join (fst l))"
    using Some k walk_leaves(2) [of es "[]"] plain by (auto simp: walk_rel_def)
  also have "\<dots> \<longleftrightarrow> (\<exists>q bs m. rel = slash_join (map Normal q) \<and> files (Dir es) q = Some (bs, m))"
    unfolding Bex_def split_paired_Ex iff append_Nil fst_conv by blast
  also have "\<dots> \<longleftrightarrow> (\<exists>q. rel = join_with ''/'' q \<and> files fs (loc dir @ q) \<noteq> None)"
    unfolding files_lookup [OF Some] k slash_join_Normal by (auto simp del: files_simps)
  finally show ?thesis .
qed

subsection \<open>Unpacking a well-formed archive\<close>

text \<open>An archive that holds the given files and deletions; this is what packing produces.\<close>

definition archive_holds :: "archive_lib \<Rightarrow> byte list \<Rightarrow> (string list \<times> byte list) list \<Rightarrow> string list \<Rightarrow> bool" where
  "archive_holds lib bytes ws dels =
     ((\<exists>mb mt reg. al_entries lib bytes = map Inr ((META_PATH, mb) #
         (case reg of None \<Rightarrow> [] | Some r \<Rightarrow> [(REGISTRY_PATH, r)]) @
         map (\<lambda>w. (FILES_PREFIX @ join_with ''/'' (fst w), snd w)) ws) \<and>
         al_meta_parse lib mb = Inr mt \<and> am_deletions mt = dels) \<and>
      (\<forall>w \<in> set ws. rel_ok (fst w)) \<and> distinct (map fst ws))"

definition payload_at :: "(string list \<times> byte list) list \<Rightarrow> string \<Rightarrow> byte list option" where
  "payload_at ws = map_of (map (\<lambda>w. (join_with ''/'' (fst w), snd w)) ws)"

lemma extract_file_ok:
  assumes "rel_ok q" and "extract_file fs m dest (join_with ''/'' q) bs = (fs', Inr u)"
  shows "put_file (loc dest @ q) (bs, m) fs = Inr fs'"
proof -
  from assms(1) have "q \<noteq> []" by (simp add: rel_ok_def)
  then have "path_parent (dest @ map Normal q) = Some (dest @ map Normal (butlast q))"
    by (simp add: path_parent_def last_map map_butlast [symmetric] butlast_append)
  moreover have "butlast (loc dest @ q) = loc dest @ butlast q"
    using \<open>q \<noteq> []\<close> by (simp add: butlast_append)
  ultimately show ?thesis
    using assms names_dir_join [OF assms(1)]
    by (auto simp: extract_file_def components_join put_file_def create_file_def Let_def
        simp del: path_join_Normal split: sum.splits)
qed

lemma unpack_loop_put_all:
  "(\<And>w. w \<in> set ws \<Longrightarrow> rel_ok (fst w)) \<Longrightarrow>
   unpack_loop lib m dest (map (\<lambda>w. Inr (FILES_PREFIX @ join_with ''/'' (fst w), snd w)) ws) meta reg fs =
     (fs', Inr r) \<Longrightarrow>
   put_all put_file (map (\<lambda>w. (loc dest @ fst w, (snd w, m))) ws) fs = Inr fs' \<and> r = (meta, reg)"
proof (induction ws arbitrary: fs)
  case (Cons w ws)
  have w: "rel_ok (fst w)" using Cons.prems by simp
  have safe: "is_safe_rel_path (map Normal (fst w))" by (auto simp: safe_iff)
  obtain fs1 er where ex: "extract_file fs m dest (join_with ''/'' (fst w)) (snd w) = (fs1, er)"
    by (metis surj_pair)
  from Cons.prems(2) ex safe components_join [OF w] obtain u where er: "er = Inr u"
    and rest: "unpack_loop lib m dest (map (\<lambda>w. Inr (FILES_PREFIX @ join_with ''/'' (fst w), snd w)) ws)
      meta reg fs1 = (fs', Inr r)"
    by (cases er) auto
  from extract_file_ok [OF w ex [unfolded er]] Cons.IH [OF Cons.prems(1) rest] show ?case by simp
qed simp

lemma unpack_holds:
  assumes "archive_holds lib bytes ws dels" and "unpack lib m bytes dest fs = (fs', Inr u)"
  shows "put_all put_file (map (\<lambda>w. (loc dest @ fst w, (snd w, m))) ws) fs = Inr fs'"
    and "am_deletions (up_meta u) = dels"
proof -
  from assms(1) obtain mb mt reg where es: "al_entries lib bytes = map Inr ((META_PATH, mb) #
         (case reg of None \<Rightarrow> [] | Some r \<Rightarrow> [(REGISTRY_PATH, r)]) @
         map (\<lambda>w. (FILES_PREFIX @ join_with ''/'' (fst w), snd w)) ws)"
    and mt: "al_meta_parse lib mb = Inr mt" "am_deletions mt = dels"
    and rels: "\<And>w. w \<in> set ws \<Longrightarrow> rel_ok (fst w)" by (auto simp: archive_holds_def)
  let ?loop = "unpack_loop lib m dest (map (\<lambda>w. Inr (FILES_PREFIX @ join_with ''/'' (fst w), snd w)) ws)
      (Some mt) reg fs"
  from assms(2) es mt have "\<exists>meta r. ?loop = (fs', Inr (Some meta, r)) \<and> u = \<lparr>up_meta = meta, up_registry = r\<rparr>"
    by (cases reg) (auto simp: unpack_def comp_def split: prod.splits sum.splits option.splits)
  with unpack_loop_put_all [OF rels] mt(2)
  show "put_all put_file (map (\<lambda>w. (loc dest @ fst w, (snd w, m))) ws) fs = Inr fs'"
    and "am_deletions (up_meta u) = dels" by fastforce+
qed

lemma payload_at_Some:
  assumes "\<forall>w \<in> set ws. rel_ok (fst w)" and "distinct (map fst ws)" and "list_all valid_name q"
  shows "payload_at ws (join_with ''/'' q) = map_of ws q"
  using assms
proof (induction ws)
  case (Cons w ws)
  then have "join_with ''/'' (fst w) = join_with ''/'' q \<longleftrightarrow> fst w = q"
    using join_with_inject by (metis list.set_intros(1) rel_ok_def)
  with Cons show ?case by (cases w) (auto simp: payload_at_def)
qed (simp add: payload_at_def)

subsection \<open>One step of the merge\<close>

definition merged_bytes :: "node \<Rightarrow> (string \<times> path) list \<Rightarrow> string \<Rightarrow> byte list option" where
  "merged_bytes fs merged rel = Option.bind (map_of merged rel) (\<lambda>p. map_option fst (files fs (loc p)))"

definition overlay ::
  "(string list \<times> byte list) list \<Rightarrow> string list \<Rightarrow> (string \<Rightarrow> 'b option) \<Rightarrow> (byte list \<Rightarrow> 'b) \<Rightarrow> string \<Rightarrow> 'b option" where
  "overlay ws dels c f rel =
     (if rel \<in> set dels then None
      else case payload_at ws rel of Some b \<Rightarrow> Some (f b) | None \<Rightarrow> c rel)"

lemma map_of_fold_update:
  "map_of (fold (\<lambda>r. AList.update r (f r)) rs xs) k = (if k \<in> set rs then Some (f k) else map_of xs k)"
  by (induction rs arbitrary: xs) (auto simp: update_conv')

lemma map_of_fold_delete:
  "map_of (fold AList.delete ks xs) k = (if k \<in> set ks then None else map_of xs k)"
  by (induction ks arbitrary: xs) (auto simp: delete_conv')

lemma map_of_merge_staged:
  "map_of (merge_staged fs staged dels merged) rel =
     (if rel \<in> set dels then None
      else if rel \<in> set (walk_rel fs staged) then Some (path_join staged (components rel))
      else map_of merged rel)"
  by (simp add: merge_staged_def map_of_fold_delete map_of_fold_update)

lemma put_all_lookup_file:
  assumes "\<And>w. w \<in> set ws \<Longrightarrow> fst w \<noteq> []"
    and "put_all put_file (map (\<lambda>w. (p @ fst w, (snd w, m))) ws) n = Inr n'"
    and "\<And>bs m. lookup n p \<noteq> Some (File bs m)"
  shows "lookup n' p \<noteq> Some (File bs m')"
proof
  assume l: "lookup n' p = Some (File bs m')"
  then have "files n' p \<noteq> None" by (simp add: files_def)
  moreover have "p \<notin> fst ` set (map (\<lambda>w. (p @ fst w, (snd w, m))) ws)" using assms(1) by auto
  from tree.put_all_frame [OF assms(2) this] have "files n' p = files n p" .
  ultimately have "files n p \<noteq> None" by simp
  with assms(3) show False by (auto simp: files_Some_iff)
qed

lemma map_of_puts:
  assumes "distinct (map fst ws)"
  shows "map_of (rev (map (\<lambda>w. (p @ fst w, (snd w, m))) ws)) (p @ q) = map_option (\<lambda>b. (b, m)) (map_of ws q)"
proof -
  let ?puts = "map (\<lambda>w. (p @ fst w, (snd w, m))) ws"
  have "distinct (map fst ?puts)" using assms by (simp add: comp_def distinct_map inj_on_def)
  moreover have "map_of ?puts (p @ q) = map_option (\<lambda>b. (b, m)) (map_of ws q)"
    by (induction ws) auto
  ultimately show ?thesis by (simp add: map_of_rev_distinct)
qed

lemma unpacked_at:
  assumes holds: "archive_holds lib bytes ws dels"
    and up: "unpack lib m bytes staged fs = (fs', Inr u)"
    and fresh: "lookup fs (loc staged) = None"
  shows "files fs' (loc staged @ q) = map_option (\<lambda>b. (b, m)) (map_of ws q)"
proof -
  have "distinct (map fst ws)" using holds by (simp add: archive_holds_def)
  moreover have "files fs (loc staged @ q) = None" using fresh by (simp add: files_def lookup_append)
  ultimately show ?thesis
    unfolding tree.put_all_get [OF unpack_holds(1) [OF holds up]] map_add_def
    by (simp add: map_of_puts split: option.splits)
qed

lemma unpacked_walk:
  assumes holds: "archive_holds lib bytes ws dels"
    and up: "unpack lib m bytes staged fs = (fs', Inr u)"
    and fresh: "lookup fs (loc staged) = None"
  shows "rel \<in> set (walk_rel fs' staged) \<longleftrightarrow> (\<exists>q. rel = join_with ''/'' q \<and> rel_ok q \<and> map_of ws q \<noteq> None)"
proof -
  note put = unpack_holds(1) [OF holds up]
  from holds have rels: "\<forall>w \<in> set ws. rel_ok (fst w)" by (simp add: archive_holds_def)
  have "plain_node (case lookup fs' (loc staged) of None \<Rightarrow> Dir [] | Some k \<Rightarrow> k)"
    by (rule put_all_below [OF _ put]) (use rels fresh in auto)
  moreover have "lookup fs' (loc staged) \<noteq> Some (File bs m')" for bs m'
    by (rule put_all_lookup_file [OF _ put]) (use rels fresh in \<open>auto simp: rel_ok_def\<close>)
  ultimately have "rel \<in> set (walk_rel fs' staged) \<longleftrightarrow> (\<exists>q. rel = join_with ''/'' q \<and> map_of ws q \<noteq> None)"
    by (subst walk_rel_iff) (auto simp: unpacked_at [OF assms])
  moreover have "rel_ok q" if "map_of ws q \<noteq> None" for q using rels that by (force dest: map_of_SomeD)
  ultimately show ?thesis by blast
qed

lemma merge_step:
  assumes holds: "archive_holds lib bytes ws dels"
    and up: "unpack lib m bytes staged fs = (fs', Inr u)"
    and fresh: "lookup fs (loc staged) = None"
    and old: "\<forall>rel p. map_of merged rel = Some p \<longrightarrow> \<not> prefix (loc staged) (loc p)"
  shows "merged_bytes fs' (merge_staged fs' staged (am_deletions (up_meta u)) merged) =
    overlay ws dels (merged_bytes fs merged) id"
proof
  fix rel
  note dels = unpack_holds(2) [OF holds up] and at = unpacked_at [OF holds up fresh]
    and walk = unpacked_walk [OF holds up fresh]
  from holds have rels: "\<forall>w \<in> set ws. rel_ok (fst w)" and dist: "distinct (map fst ws)"
    by (auto simp: archive_holds_def)
  show "merged_bytes fs' (merge_staged fs' staged (am_deletions (up_meta u)) merged) rel =
      overlay ws dels (merged_bytes fs merged) id rel"
  proof (cases "rel \<in> set (walk_rel fs' staged)")
    case True
    then obtain q where q: "rel = join_with ''/'' q" "rel_ok q" "map_of ws q \<noteq> None" using walk by blast
    then have "payload_at ws rel = map_of ws q"
      using payload_at_Some [OF rels dist] by (simp add: rel_ok_def)
    with q at True show ?thesis
      by (auto simp: merged_bytes_def map_of_merge_staged overlay_def dels components_join)
  next
    case False
    have "payload_at ws rel = None"
    proof (rule ccontr)
      assume "payload_at ws rel \<noteq> None"
      then obtain w where "w \<in> set ws" "rel = join_with ''/'' (fst w)"
        by (auto simp: payload_at_def dest!: map_of_SomeD)
      with rels dist walk False show False by (metis (no_types, lifting) map_of_is_SomeI option.discI prod.collapse)
    qed
    moreover have "files fs' (loc p) = files fs (loc p)" if "map_of merged rel = Some p" for p
      using that old unpack_confined [OF up] by blast
    ultimately show ?thesis using False
      by (auto simp: merged_bytes_def map_of_merge_staged overlay_def dels split: option.splits)
        (cases "map_of merged rel"; simp)
  qed
qed

subsection \<open>The whole chain\<close>

lemma put_file_lookup_None:
  "put_file p b n = Inr n' \<Longrightarrow> \<not> prefix q p \<Longrightarrow> lookup n q = None \<Longrightarrow> lookup n' q = None"
proof (induction p arbitrary: n n' q)
  case Nil
  then show ?case using put_file_not_Nil by blast
next
  case (Cons x p)
  then have "writable n (x # p)" by (simp add: writable_iff_put_file [of _ _ b])
  then obtain es where n: "n = Dir es" using writable_not_dir by blast
  from Cons.prems obtain y q' where q: "q = y # q'" by (cases q) auto
  let ?k = "case map_of es x of None \<Rightarrow> Dir [] | Some n \<Rightarrow> n"
  show ?case
  proof (cases "y = x")
    case False
    with Cons.prems n q show ?thesis
      by (cases p) (auto simp: put_file_single put_file_Cons update_conv' split: option.splits node.splits sum.splits)
  next
    case True
    with Cons.prems q have np: "\<not> prefix q' p" by simp
    then have "q' \<noteq> []" by auto
    show ?thesis
    proof (cases p)
      case Nil
      with Cons.prems n q True \<open>q' \<noteq> []\<close> show ?thesis
        by (cases q') (auto simp: put_file_single update_conv' split: option.splits node.splits)
    next
      case p: (Cons z p')
      with Cons.prems n obtain k' where k': "put_file p b ?k = Inr k'" "n' = Dir (AList.update x k' es)"
        by (auto simp: put_file_Cons split: sum.splits)
      have "lookup ?k q' = None"
        using Cons.prems n q True \<open>q' \<noteq> []\<close> by (cases q') (auto split: option.splits)
      with Cons.IH [OF k'(1) np] k' q True show ?thesis by (simp add: update_conv')
    qed
  qed
qed

lemma put_all_lookup_None:
  "put_all put_file ws n = Inr n' \<Longrightarrow> \<forall>w \<in> set ws. \<not> prefix q (fst w) \<Longrightarrow> lookup n q = None \<Longrightarrow>
   lookup n' q = None"
proof (induction ws arbitrary: n)
  case (Cons w ws)
  obtain p b where w: "w = (p, b)" by (cases w)
  with Cons.prems obtain n1 where "put_file p b n = Inr n1" "put_all put_file ws n1 = Inr n'"
    by (auto simp: bind_res_Inr_iff)
  with Cons w put_file_lookup_None [of p b n n1 q] show ?case by simp
qed simp

text \<open>The archives of a chain carry it: the first holds all its files, each later one the
  differences to the version before it, as \<open>run_backup\<close> packs them.\<close>

definition version_snapshot :: "version \<Rightarrow> snapshot" where
  "version_snapshot v = \<lparr>sn_game_id = v_game_id v, sn_files = v_files v, sn_taken_at = v_created_at v\<rparr>"

definition content_hashes :: "(byte list \<Rightarrow> blake3_hash) \<Rightarrow> (string list \<times> byte list) list \<Rightarrow> string \<Rightarrow> blake3_hash option" where
  "content_hashes blake3 ws rel = map_option blake3 (payload_at ws rel)"

fun carries ::
  "(byte list \<Rightarrow> blake3_hash) \<Rightarrow> (version \<Rightarrow> (string list \<times> byte list) list) \<Rightarrow> (version \<Rightarrow> string list) \<Rightarrow>
   version \<Rightarrow> version list \<Rightarrow> bool" where
  "carries blake3 pay dels prev [] = True"
| "carries blake3 pay dels prev (v # vs) =
     (let df = snapshot_diff (version_snapshot prev) (version_snapshot v) in
      distinct_paths (v_files v) \<and> content_hashes blake3 (pay v) = hashes (df_changed df) \<and>
      dels v = df_deleted df \<and> carries blake3 pay dels v vs)"

definition chain_carries ::
  "(byte list \<Rightarrow> blake3_hash) \<Rightarrow> (version \<Rightarrow> (string list \<times> byte list) list) \<Rightarrow> (version \<Rightarrow> string list) \<Rightarrow>
   version list \<Rightarrow> bool" where
  "chain_carries blake3 pay dels vs =
     (vs \<noteq> [] \<and> content_hashes blake3 (pay (hd vs)) = hashes (v_files (hd vs)) \<and> dels (hd vs) = [] \<and>
      carries blake3 pay dels (hd vs) (tl vs))"

fun merge_all ::
  "(version \<Rightarrow> (string list \<times> byte list) list) \<Rightarrow> (version \<Rightarrow> string list) \<Rightarrow> version list \<Rightarrow>
   (string \<Rightarrow> byte list option) \<Rightarrow> string \<Rightarrow> byte list option" where
  "merge_all pay dels [] c = c"
| "merge_all pay dels (v # vs) c = merge_all pay dels vs (overlay (pay v) (dels v) c id)"

lemma merge_all_hashes:
  "carries blake3 pay dels prev vs \<Longrightarrow> (\<lambda>r. map_option blake3 (c r)) = hashes (v_files prev) \<Longrightarrow>
   (\<lambda>r. map_option blake3 (merge_all pay dels vs c r)) = hashes (v_files (last (prev # vs)))"
proof (induction vs arbitrary: prev c)
  case (Cons v vs)
  let ?df = "snapshot_diff (version_snapshot prev) (version_snapshot v)"
  from Cons.prems have v: "distinct_paths (v_files v)" "content_hashes blake3 (pay v) = hashes (df_changed ?df)"
    "dels v = df_deleted ?df" "carries blake3 pay dels v vs" by (auto simp: Let_def)
  have ov: "map_option blake3 (overlay (pay v) (dels v) c id r) = apply_diff ?df (hashes (v_files prev)) r" for r
    using fun_cong [OF v(2), of r] fun_cong [OF Cons.prems(2), of r] v(3)
    by (auto simp: overlay_def apply_diff_def content_hashes_def split: option.splits)
  have "apply_diff ?df (hashes (v_files prev)) = hashes (v_files v)"
    using apply_diff_new [of "version_snapshot v" "version_snapshot prev"] v(1) by (simp add: version_snapshot_def)
  with ov have "(\<lambda>r. map_option blake3 (overlay (pay v) (dels v) c id r)) = hashes (v_files v)" by presburger
  from Cons.IH [OF v(4) this] show ?case by simp
qed simp

definition staged_at :: "'n env \<Rightarrow> path \<Rightarrow> version \<Rightarrow> string list" where
  "staged_at e scratch v = loc scratch @ [e_show_uuid e (v_id v)]"

lemma loc_staged: "loc (scratch @ [Normal (e_show_uuid e (v_id v))]) = staged_at e scratch v"
  by (simp add: staged_at_def loc_def loc_from_append)

lemma staged_apart:
  "prefix (staged_at e scratch w) (staged_at e scratch v @ q) \<Longrightarrow>
   e_show_uuid e (v_id w) = e_show_uuid e (v_id v)"
  by (simp add: staged_at_def)

lemma fetch_chain_merges:
  assumes "fetch_chain e m scratch vs merged d = (d', Inr merged')"
    and "\<forall>v \<in> set vs. \<forall>bytes. e_blake3 e bytes = v_blob_hash v \<longrightarrow> archive_holds (e_lib e) bytes (pay v) (dels v)"
    and "\<forall>v \<in> set vs. lookup (dm_fs d) (staged_at e scratch v) = None"
    and "distinct (map (\<lambda>v. e_show_uuid e (v_id v)) vs)"
    and "\<forall>rel p. map_of merged rel = Some p \<longrightarrow> (\<forall>v \<in> set vs. \<not> prefix (staged_at e scratch v) (loc p))"
  shows "merged_bytes (dm_fs d') merged' = merge_all pay dels vs (merged_bytes (dm_fs d) merged)"
  using assms
proof (induction vs arbitrary: merged d)
  case Nil
  then show ?case by simp
next
  case (Cons v vs)
  let ?staged = "scratch @ [Normal (e_show_uuid e (v_id v))]"
  from Cons.prems(1) show ?case
  proof (cases rule: fetch_chain_step)
    case (stop err)
    then show ?thesis by simp
  next
    case (step c n fs u bytes)
    have holds: "archive_holds (e_lib e) bytes (pay v) (dels v)" using Cons.prems(2) step(3) by simp
    have fresh: "lookup (dm_fs d) (loc ?staged) = None" using Cons.prems(3) by (simp add: loc_staged)
    let ?merged = "merge_staged fs ?staged (am_deletions (up_meta u)) merged"
    have names: "e_show_uuid e (v_id w) \<noteq> e_show_uuid e (v_id v)" if "w \<in> set vs" for w
      using Cons.prems(4) that by (auto simp: image_iff)
    have one: "merged_bytes fs ?merged = overlay (pay v) (dels v) (merged_bytes (dm_fs d) merged) id"
      by (rule merge_step [OF holds step(2) fresh]) (use Cons.prems(5) in \<open>auto simp: loc_staged\<close>)
    have still: "lookup fs (staged_at e scratch w) = None" if "w \<in> set vs" for w
      by (rule put_all_lookup_None [OF unpack_holds(1) [OF holds step(2)]])
        (use Cons.prems(3) that names in \<open>auto simp: loc_staged dest: staged_apart\<close>)
    have paths: "\<not> prefix (staged_at e scratch w) (loc p)"
      if "map_of ?merged rel = Some p" "w \<in> set vs" for rel p w
    proof (cases "map_of merged rel = Some p")
      case True
      with Cons.prems(5) that show ?thesis by auto
    next
      case False
      with that have "rel \<in> set (walk_rel fs ?staged)" and p: "p = path_join ?staged (components rel)"
        by (auto simp: map_of_merge_staged split: if_splits)
      with unpacked_walk [OF holds step(2) fresh] obtain q where "rel = join_with ''/'' q" "rel_ok q" by blast
      then have "loc p = staged_at e scratch v @ q"
        unfolding p by (simp add: components_join loc_staged [symmetric] loc_def loc_from_append loc_from_Normal)
      with staged_apart names that(2) show ?thesis by metis
    qed
    have "merged_bytes (dm_fs d') merged' = merge_all pay dels vs
        (merged_bytes (dm_fs (d\<lparr>dm_client := c, dm_net := n, dm_fs := fs\<rparr>)) ?merged)"
      by (rule Cons.IH [OF step(4)]) (use Cons.prems still paths in auto)
    with one show ?thesis by simp
  qed
qed

text \<open>C5: restoring a version reproduces it. Take a chain whose archives carry it (the first all
  its files, each later one the changes and deletions against the version before it, as a backup
  packs them), where bytes with a version's hash are that archive, and scratch directories that do
  not exist yet. When download and merge succeed, the merged set is exactly the target version: a
  path has a file in it just when the target lists the path, and the file's bytes have the hash
  that the target lists.\<close>

theorem restore_reproduces_target:
  assumes fetch: "fetch_chain e m scratch chain [] d = (d', Inr merged)"
    and carries: "chain_carries (e_blake3 e) pay dels chain"
    and archives: "\<forall>v \<in> set chain. \<forall>bytes. e_blake3 e bytes = v_blob_hash v \<longrightarrow>
      archive_holds (e_lib e) bytes (pay v) (dels v)"
    and fresh: "\<forall>v \<in> set chain. lookup (dm_fs d) (staged_at e scratch v) = None"
    and names: "distinct (map (\<lambda>v. e_show_uuid e (v_id v)) chain)"
  shows "map_option (e_blake3 e) (merged_bytes (dm_fs d') merged rel) = hashes (v_files (last chain)) rel"
proof -
  from carries obtain v vs where chain: "chain = v # vs" by (cases chain) (auto simp: chain_carries_def)
  have "merged_bytes (dm_fs d') merged = merge_all pay dels chain (merged_bytes (dm_fs d) [])"
    by (rule fetch_chain_merges [OF fetch archives fresh names]) simp
  also have "\<dots> = merge_all pay dels vs (overlay (pay v) (dels v) (\<lambda>r. None) id)"
  proof -
    have "merged_bytes (dm_fs d) [] = (\<lambda>r. None)" by (simp add: merged_bytes_def fun_eq_iff)
    then show ?thesis by (simp add: chain)
  qed
  finally have m: "merged_bytes (dm_fs d') merged = \<dots>" .
  have "(\<lambda>r. map_option (e_blake3 e) (overlay (pay v) (dels v) (\<lambda>r. None) id r)) = hashes (v_files v)"
  proof
    fix r
    have "dels v = []" "hashes (v_files v) r = map_option (e_blake3 e) (payload_at (pay v) r)"
      using carries by (auto simp: chain chain_carries_def content_hashes_def fun_eq_iff)
    then show "map_option (e_blake3 e) (overlay (pay v) (dels v) (\<lambda>r. None) id r) = hashes (v_files v) r"
      by (simp add: overlay_def split: option.splits)
  qed
  from merge_all_hashes [OF _ this, of pay dels vs] carries
  have "(\<lambda>r. map_option (e_blake3 e) (merge_all pay dels vs (overlay (pay v) (dels v) (\<lambda>r. None) id) r)) =
      hashes (v_files (last (v # vs)))"
    by (simp add: chain chain_carries_def)
  then show ?thesis unfolding m chain by metis
qed

section \<open>Concrete inputs\<close>

text \<open>A server with a full version and a differential one that changes \<open>a\<close> and deletes \<open>b\<close>, and
  a device whose saves are an older state it has already backed up.\<close>

definition ex_entry :: "string \<Rightarrow> byte \<Rightarrow> file_entry" where
  "ex_entry rel b = \<lparr>fe_rel_path = rel, fe_size = 1, fe_mtime = 5, fe_hash = ex_hash [b]\<rparr>"

definition ex_v1 :: version where
  "ex_v1 =
     \<lparr>v_id = 1, v_game_id = 7, v_device_id = 2, v_parent = None, v_kind = Full,
      v_files = [ex_entry ''a'' 1, ex_entry ''b'' 2], v_blob_hash = ex_hash [], v_bytes = 0, v_seq = 1,
      v_created_at = 3\<rparr>"

definition ex_v2 :: version where
  "ex_v2 =
     \<lparr>v_id = 2, v_game_id = 7, v_device_id = 2, v_parent = Some 1, v_kind = Differential,
      v_files = [ex_entry ''a'' 3], v_blob_hash = ex_hash [0], v_bytes = 1, v_seq = 2, v_created_at = 4\<rparr>"

definition ex_am2 :: archive_meta where
  "ex_am2 =
     \<lparr>am_game_id = 7, am_device_id = 2, am_parent = Some 1, am_kind = Differential,
      am_files = v_files ex_v2, am_deletions = [''b''], am_created_at = 4\<rparr>"

definition ex_entries2 :: "tar_entry list" where
  "ex_entries2 = [(META_PATH, [0]), (''files/a'', [3])]"

definition ex_server :: "unit transport" where
  "ex_server r n =
     (n, case rq_endpoint r of
           VersionsEp g \<Rightarrow> Inr \<lparr>hs_status = 200, hs_body = VersionsResp [ex_v2, ex_v1]\<rparr>
         | BlobEp h \<Rightarrow> Inr \<lparr>hs_status = 200, hs_body = BytesResp [Inr (if h = [] then [] else [0])]\<rparr>
         | _ \<Rightarrow> Inl ''offline'')"

definition ex_renv :: "unit env" where
  "ex_renv =
     ex_env\<lparr>e_lib := ex_lib [ex_am, ex_am2] [ex_entries, ex_entries2], e_http := ex_server,
            e_show_uuid := (\<lambda>u. if u = 1 then ''v1'' else ''v2'')\<rparr>"

definition ex_rdaemon :: "unit daemon" where
  "ex_rdaemon =
     ex_daemon\<lparr>dm_fs := Dir [(''s'', Dir [(''a'', File [5] ex_meta), (''b'', File [2] ex_meta)])],
               dm_state := put_snapshot init 7 [ex_entry ''a'' 5, ex_entry ''b'' 2] 2 None\<rparr>"

definition ex_rreq :: restore_request where
  "ex_rreq =
     \<lparr>rq_game_id = 7, rq_version_id = 2, rq_anchor = ex_anchor, rq_patterns = [''/s''],
      rq_registry_keys = []\<rparr>"

definition ex_scratch :: path where
  "ex_scratch = [RootDir, Normal ''tmp'']"

definition ex_restore :: "(unit daemon \<times> (daemon_error + unit)) option" where
  "ex_restore = run_restore ex_renv 2 ex_rreq False ex_scratch ex_meta 50 9 ex_rdaemon"

lemma ex_chain: "build_chain [ex_v2, ex_v1] 2 = Some (Inr [ex_v1, ex_v2])"
  by code_simp

theorem build_chain_correct_witness: "is_chain [ex_v1, ex_v2] \<and> v_id (last [ex_v1, ex_v2]) = 2"
  using build_chain_correct [OF ex_chain] by blast

lemma ex_restore_ok: "map_option snd ex_restore = Some (Inr ())"
  by code_simp

lemma ex_restore_files:
  "map_option (\<lambda>r. (files (dm_fs (fst r)) [''s'', ''a''], files (dm_fs (fst r)) [''s'', ''b''])) ex_restore =
     Some (Some ([3], ex_meta), None)"
  by code_simp

theorem restore_verified_witness:
  "\<exists>d' chain merged d3. ex_restore = Some (d', Inr ()) \<and> is_chain chain \<and> v_id (last chain) = 2 \<and>
     (\<forall>v \<in> set chain. verified ex_renv ex_meta v) \<and>
     apply_restore ex_rreq ex_meta chain merged d3 = (d', Inr ())"
proof -
  from ex_restore_ok obtain d' where run: "ex_restore = Some (d', Inr ())" by (cases ex_restore) auto
  have codec: "payload_codec ex_renv" using ex_codec by (simp add: payload_codec_def ex_renv_def)
  from restore_verified [OF run [unfolded ex_restore_def] codec] run show ?thesis
    by (simp add: ex_rreq_def) blast
qed

text \<open>What the two archives hold.\<close>

definition ex_pay :: "version \<Rightarrow> (string list \<times> byte list) list" where
  "ex_pay v = (if v_id v = 1 then [([''a''], [1]), ([''b''], [2])] else [([''a''], [3])])"

definition ex_dels :: "version \<Rightarrow> string list" where
  "ex_dels v = (if v_id v = 1 then [] else [''b''])"

lemma ex_hash_inj: "ex_hash x = ex_hash y \<longleftrightarrow> x = y"
proof -
  have "inj (\<lambda>b :: byte. char_of (unat b) :: char)"
  proof (rule injI)
    fix a b :: byte
    assume "(char_of (unat a) :: char) = char_of (unat b)"
    then have "unat a mod 256 = unat b mod 256" by (metis of_char_of)
    moreover have "unat a < 256" "unat b < 256" using unsigned_less [of a] unsigned_less [of b] by simp_all
    ultimately show "a = b" by (simp add: word_unat_eq_iff)
  qed
  then show ?thesis by (simp add: ex_hash_def inj_map_eq_map)
qed

lemma ex_archives:
  "\<forall>v \<in> set [ex_v1, ex_v2]. \<forall>bytes. e_blake3 ex_renv bytes = v_blob_hash v \<longrightarrow>
     archive_holds (e_lib ex_renv) bytes (ex_pay v) (ex_dels v)"
proof (intro ballI allI impI)
  fix v bytes
  assume v: "v \<in> set [ex_v1, ex_v2]" and h: "e_blake3 ex_renv bytes = v_blob_hash v"
  have e: "e_blake3 ex_renv = ex_hash" by (simp add: ex_renv_def ex_env_def)
  have hold1: "archive_holds (e_lib ex_renv) [] (ex_pay ex_v1) (ex_dels ex_v1)"
    unfolding archive_holds_def
    by (intro conjI, rule exI [of _ "[]"], rule exI [of _ ex_am], rule exI [of _ None])
       (simp_all add: ex_renv_def ex_lib_def ex_entries_def ex_pay_def ex_v1_def FILES_PREFIX_def
          ex_am_def ex_dels_def rel_ok_def valid_name_def)
  have hold2: "archive_holds (e_lib ex_renv) [0] (ex_pay ex_v2) (ex_dels ex_v2)"
    unfolding archive_holds_def
    by (intro conjI, rule exI [of _ "[0]"], rule exI [of _ ex_am2], rule exI [of _ None])
       (simp_all add: ex_renv_def ex_lib_def ex_entries2_def ex_pay_def ex_v2_def FILES_PREFIX_def
          ex_am2_def ex_dels_def rel_ok_def valid_name_def)
  from v consider "v = ex_v1" | "v = ex_v2" by auto
  then show "archive_holds (e_lib ex_renv) bytes (ex_pay v) (ex_dels v)"
  proof cases
    case 1
    with h e have "bytes = []" by (simp add: ex_v1_def ex_hash_inj)
    with 1 hold1 show ?thesis by simp
  next
    case 2
    with h e have "bytes = [0]" by (simp add: ex_v2_def ex_hash_inj)
    with 2 hold2 show ?thesis by simp
  qed
qed

lemma ex_carries: "chain_carries (e_blake3 ex_renv) ex_pay ex_dels [ex_v1, ex_v2]"
proof -
  have d: "snapshot_diff (version_snapshot ex_v1) (version_snapshot ex_v2) =
      \<lparr>df_changed = [ex_entry ''a'' 3], df_deleted = [''b'']\<rparr>" by code_simp
  have e: "e_blake3 ex_renv = ex_hash" by (simp add: ex_renv_def ex_env_def)
  show ?thesis
    by (simp add: chain_carries_def d e)
       (simp add: fun_eq_iff content_hashes_def payload_at_def ex_pay_def ex_dels_def ex_v1_def ex_v2_def
          hashes_def by_path_def ex_entry_def distinct_paths_def)
qed

definition ex_fetch :: "unit daemon \<times> (daemon_error + (string \<times> path) list)" where
  "ex_fetch = fetch_chain ex_renv ex_meta ex_scratch [ex_v1, ex_v2] [] ex_rdaemon"

lemma ex_fetch_ok: "snd ex_fetch = Inr [(''a'', ex_scratch @ [Normal ''v2'', Normal ''a''])]"
  by code_simp

theorem restore_reproduces_target_witness:
  "map_option ex_hash
     (merged_bytes (dm_fs (fst ex_fetch)) [(''a'', ex_scratch @ [Normal ''v2'', Normal ''a''])] ''a'') =
   hashes (v_files ex_v2) ''a''"
proof -
  have f: "fetch_chain ex_renv ex_meta ex_scratch [ex_v1, ex_v2] [] ex_rdaemon =
      (fst ex_fetch, Inr [(''a'', ex_scratch @ [Normal ''v2'', Normal ''a''])])"
    using ex_fetch_ok by (metis ex_fetch_def prod.collapse)
  have fresh: "\<forall>v \<in> set [ex_v1, ex_v2]. lookup (dm_fs ex_rdaemon) (staged_at ex_renv ex_scratch v) = None"
    by code_simp
  have names: "distinct (map (\<lambda>v. e_show_uuid ex_renv (v_id v)) [ex_v1, ex_v2])" by code_simp
  from restore_reproduces_target [OF f ex_carries ex_archives fresh names, of "''a''"] show ?thesis
    by (simp add: ex_renv_def ex_env_def)
qed

end
