(* ===== verification/Server_Error.thy ===== *)
theory Server_Error
  imports Core_Types
begin

text \<open>
  \<open>savr-server/src/error.rs\<close>: the error envelope of the REST interface, an HTTP status, a code,
  a message and a detail object. A message is either text of the source or the display of an
  error of a library, which stays symbolic here.
\<close>

datatype sqlx_error = RowNotFound | UniqueViolation | ForeignKeyViolation

datatype message = Text string | SqlxMessage sqlx_error | IoMessage string

datatype json_value = JNull | JVersion version | JId uuid

datatype detail =
    NoDetail
  | CurrentTag string
  | BlobHash string
  | Tips json_value json_value

record api_error =
  ae_status :: nat
  ae_code :: string
  ae_message :: message
  ae_detail :: detail

definition api_error_new :: "nat \<Rightarrow> string \<Rightarrow> message \<Rightarrow> api_error" where
  "api_error_new status c m =
     \<lparr>ae_status = status, ae_code = c, ae_message = m, ae_detail = NoDetail\<rparr>"

definition internal :: "message \<Rightarrow> api_error" where
  "internal m = api_error_new 500 ''internal'' m"

definition unauthorized :: "string \<Rightarrow> api_error" where
  "unauthorized m = api_error_new 401 ''unauthorized'' (Text m)"

definition not_found :: "string \<Rightarrow> api_error" where
  "not_found m = api_error_new 404 ''not_found'' (Text m)"

definition bad_request :: "string \<Rightarrow> api_error" where
  "bad_request m = api_error_new 400 ''bad_request'' (Text m)"

definition too_many :: "string \<Rightarrow> api_error" where
  "too_many m = api_error_new 429 ''rate_limited'' (Text m)"

definition config_conflict :: "string \<Rightarrow> api_error" where
  "config_conflict current_tag =
     \<lparr>ae_status = 409, ae_code = ''config_conflict'',
      ae_message = Text ''config tag is stale; refetch /config and retry'',
      ae_detail = CurrentTag current_tag\<rparr>"

definition blob_missing :: "string \<Rightarrow> api_error" where
  "blob_missing hash =
     \<lparr>ae_status = 422, ae_code = ''blob_missing'',
      ae_message = Text (''blob '' @ hash @ '' not present; PUT it before creating the version''),
      ae_detail = BlobHash hash\<rparr>"

definition conflict :: "json_value \<Rightarrow> json_value \<Rightarrow> api_error" where
  "conflict head incoming =
     \<lparr>ae_status = 409, ae_code = ''conflict'',
      ae_message = Text ''version parent is not the current head'',
      ae_detail = Tips head incoming\<rparr>"

definition from_sqlx :: "sqlx_error \<Rightarrow> api_error" where
  "from_sqlx e = internal (SqlxMessage e)"

lemmas api_error_defs =
  api_error_new_def internal_def unauthorized_def not_found_def bad_request_def too_many_def
  config_conflict_def blob_missing_def conflict_def from_sqlx_def

end
