(* ===== verification/Server_Db.thy ===== *)
theory Server_Db
  imports Server_Error
begin

text \<open>
  The server's database (\<open>savr-server/migrations/*.sql\<close>, \<open>savr-server/src/db.rs\<close>): games,
  versions, blobs and conflict resolutions. A table is a list of rows in insertion order, or a
  map where the primary key is all the code asks for. The constraints of the schema (primary
  keys, \<open>UNIQUE\<close>, foreign keys, which sqlx enforces) are checked by the operations that write,
  and a violation is an error that leaves the database as it was, as the transaction's rollback
  does. Columns hold the typed values that \<open>row_to_version\<close> reads back.

  The second half states the integrity invariant and shows that the operations keep it.
\<close>

section \<open>Tables\<close>

record account_row =
  a_id :: uuid
  a_owner_hash :: string
  a_created_at :: time

record device_row =
  d_id :: uuid
  d_account :: uuid
  d_name :: string
  d_os :: string
  d_token_hash :: string
  d_last_seen :: "time option"
  d_revoked :: bool

record blob_row =
  b_bytes :: "64 word"
  b_refcount :: int
  b_created_at :: time

record game_row =
  g_id :: uuid
  g_account :: uuid
  g_title :: string
  g_steam_appid :: "32 word option"
  g_head :: "uuid option"

record version_row = version +
  vr_account :: uuid

record pairing_row =
  p_id :: uuid
  p_account :: uuid
  p_code_hash :: string
  p_expires_at :: time
  p_used :: bool
  p_created_at :: time

record resolved_row =
  rc_id :: uuid
  rc_account :: uuid
  rc_game :: uuid
  rc_winner :: uuid
  rc_loser :: uuid
  rc_keep_both :: bool
  rc_redirect :: "string option"
  rc_resolved_at :: time

record db =
  db_accounts :: "account_row list"
  db_devices :: "device_row list"
  db_blobs :: "string \<rightharpoonup> blob_row"
  db_games :: "game_row list"
  db_versions :: "version_row list"
  db_config :: "uuid \<rightharpoonup> string \<times> synced_config"
  db_pairing :: "pairing_row list"
  db_resolved :: "resolved_row list"

definition empty_db :: db where
  "empty_db =
     \<lparr>db_accounts = [], db_devices = [], db_blobs = Map.empty, db_games = [], db_versions = [],
      db_config = Map.empty, db_pairing = [], db_resolved = []\<rparr>"

text \<open>The result of an operation: the database after it, and what it returns.\<close>

type_synonym 'a db_result = "db \<times> (api_error + 'a)"

section \<open>Column encodings\<close>

definition kind_to_str :: "version_kind \<Rightarrow> string" where
  "kind_to_str k = (case k of Full \<Rightarrow> ''full'' | Differential \<Rightarrow> ''diff'')"

definition kind_from_str :: "string \<Rightarrow> version_kind" where
  "kind_from_str s = (if s = ''diff'' then Differential else Full)"

definition os_str :: "os \<Rightarrow> string" where
  "os_str os = (case os of Windows \<Rightarrow> ''windows'' | Linux \<Rightarrow> ''linux'' | Macos \<Rightarrow> ''macos'')"

definition os_from_str :: "string \<Rightarrow> os" where
  "os_from_str s = (case os_parse s of Some os \<Rightarrow> os | None \<Rightarrow> Linux)"

lemma kind_roundtrip [simp]: "kind_from_str (kind_to_str k) = k"
  by (cases k) (simp_all add: kind_from_str_def kind_to_str_def)

lemma os_roundtrip [simp]: "os_from_str (os_str os) = os"
  by (cases os) (simp_all add: os_from_str_def os_str_def os_parse_def)

section \<open>Reading\<close>

definition row_to_version :: "version_row \<Rightarrow> version" where
  "row_to_version r = version.truncate r"

definition find_version :: "db \<Rightarrow> uuid \<Rightarrow> version_row option" where
  "find_version d i = List.find (\<lambda>r. v_id r = i) (db_versions d)"

definition find_game :: "db \<Rightarrow> uuid \<Rightarrow> uuid \<Rightarrow> game_row option" where
  "find_game d account game = List.find (\<lambda>g. g_id g = game \<and> g_account g = account) (db_games d)"

definition load_version :: "db \<Rightarrow> uuid \<Rightarrow> api_error + version" where
  "load_version d i = map_sum id row_to_version (ok_or (find_version d i) (from_sqlx RowNotFound))"

definition get_head :: "db \<Rightarrow> uuid \<Rightarrow> uuid \<Rightarrow> api_error + head_response" where
  "get_head d account game =
     bind_res (ok_or (find_game d account game) (not_found ''game'')) (\<lambda>g.
     Inr \<lparr>hr_head = g_head g,
          hr_seq = Option.bind (g_head g) (\<lambda>h. map_option v_seq (find_version d h))\<rparr>)"

definition versions_of :: "db \<Rightarrow> uuid \<Rightarrow> uuid \<Rightarrow> version_row list" where
  "versions_of d account game =
     filter (\<lambda>r. v_game_id r = game \<and> vr_account r = account) (db_versions d)"

definition list_versions :: "db \<Rightarrow> uuid \<Rightarrow> uuid \<Rightarrow> version list" where
  "list_versions d account game =
     map row_to_version (rev (sort_key v_seq (versions_of d account game)))"

definition account_references_blob :: "db \<Rightarrow> uuid \<Rightarrow> string \<Rightarrow> bool" where
  "account_references_blob d account h =
     list_ex (\<lambda>r. vr_account r = account \<and> v_blob_hash r = h) (db_versions d)"

text \<open>The configuration of an account; the tag is always that of its column.\<close>

definition read_config :: "db \<Rightarrow> uuid \<Rightarrow> synced_config option" where
  "read_config d account = map_option (\<lambda>(tag, cfg). cfg\<lparr>sc_tag := tag\<rparr>) (db_config d account)"

text \<open>
  \<open>ORDER BY game_id, seq\<close>: the text form of a UUID orders like its value, and a stable sort by
  \<open>seq\<close> and then by \<open>game_id\<close> is that order.
\<close>

definition versions_since :: "db \<Rightarrow> uuid \<Rightarrow> (uuid \<rightharpoonup> nat) \<Rightarrow> (uuid \<times> uuid \<times> nat) list" where
  "versions_since d account last_seq =
     map (\<lambda>r. (v_game_id r, v_id r, v_seq r))
       (filter (\<lambda>r. v_seq r > (case last_seq (v_game_id r) of None \<Rightarrow> 0 | Some n \<Rightarrow> n))
         (sort_key v_game_id (sort_key v_seq
           (filter (\<lambda>r. vr_account r = account) (db_versions d)))))"

section \<open>Writing\<close>

subsection \<open>Games\<close>

record ensured_game =
  e_id :: uuid
  e_title :: string
  e_steam_appid :: "32 word option"
  e_head :: "uuid option"

definition ensured_of_row :: "game_row \<Rightarrow> ensured_game" where
  "ensured_of_row g =
     \<lparr>e_id = g_id g, e_title = g_title g, e_steam_appid = g_steam_appid g, e_head = g_head g\<rparr>"

definition insert_game :: "game_row \<Rightarrow> db \<Rightarrow> sqlx_error + db" where
  "insert_game g d =
     (if list_ex (\<lambda>h. g_account h = g_account g \<and> g_title h = g_title g) (db_games d) then Inr d
      else if list_ex (\<lambda>h. g_id h = g_id g) (db_games d) then Inl UniqueViolation
      else if \<not> list_ex (\<lambda>a. a_id a = g_account g) (db_accounts d) then Inl ForeignKeyViolation
      else Inr (d\<lparr>db_games := db_games d @ [g]\<rparr>))"

definition ensure_game ::
  "db \<Rightarrow> uuid \<Rightarrow> string \<Rightarrow> 32 word option \<Rightarrow> uuid \<Rightarrow> ensured_game db_result" where
  "ensure_game d account title steam_appid new_id =
     (let existing =
        (case steam_appid of
           Some appid \<Rightarrow>
             List.find (\<lambda>g. g_account g = account \<and> g_steam_appid g = Some appid) (db_games d)
         | None \<Rightarrow> None) in
      case existing of
        Some g \<Rightarrow> (d, Inr (ensured_of_row g))
      | None \<Rightarrow>
          (case insert_game \<lparr>g_id = new_id, g_account = account, g_title = title,
                             g_steam_appid = steam_appid, g_head = None\<rparr> d of
             Inl e \<Rightarrow> (d, Inl (from_sqlx e))
           | Inr d1 \<Rightarrow>
               (d1, map_sum id ensured_of_row
                  (ok_or (List.find (\<lambda>g. g_account g = account \<and> g_title g = title) (db_games d1))
                    (from_sqlx RowNotFound)))))"

subsection \<open>Versions\<close>

datatype advance =
    FastForward version
  | Conflict "version option" version

definition next_seq :: "db \<Rightarrow> uuid \<Rightarrow> nat" where
  "next_seq d game = foldr max (map v_seq (filter (\<lambda>r. v_game_id r = game) (db_versions d))) 0 + 1"

definition insert_version :: "version_row \<Rightarrow> db \<Rightarrow> sqlx_error + db" where
  "insert_version r d =
     (if list_ex (\<lambda>w. v_id w = v_id r) (db_versions d) then Inl UniqueViolation
      else if list_ex (\<lambda>w. v_game_id w = v_game_id r \<and> v_seq w = v_seq r) (db_versions d)
        then Inl UniqueViolation
      else if \<not> list_ex (\<lambda>g. g_id g = v_game_id r) (db_games d) then Inl ForeignKeyViolation
      else if \<not> list_ex (\<lambda>v. d_id v = v_device_id r) (db_devices d) then Inl ForeignKeyViolation
      else if (case v_parent r of None \<Rightarrow> False
                 | Some p \<Rightarrow> p \<noteq> v_id r \<and> \<not> list_ex (\<lambda>w. v_id w = p) (db_versions d))
        then Inl ForeignKeyViolation
      else if db_blobs d (v_blob_hash r) = None then Inl ForeignKeyViolation
      else Inr (d\<lparr>db_versions := db_versions d @ [r]\<rparr>))"

definition add_refcount :: "int \<Rightarrow> string \<Rightarrow> db \<Rightarrow> db" where
  "add_refcount n h d =
     d\<lparr>db_blobs := (db_blobs d)(h := map_option (\<lambda>b. b\<lparr>b_refcount := b_refcount b + n\<rparr>) (db_blobs d h))\<rparr>"

text \<open>\<open>UPDATE games SET head = ? WHERE id = ? AND account_id = ? AND head IS ?\<close>, with the number
  of rows it changed.\<close>

definition head_matches :: "uuid \<Rightarrow> uuid \<Rightarrow> uuid option \<Rightarrow> game_row \<Rightarrow> bool" where
  "head_matches account game expected g \<longleftrightarrow>
     g_id g = game \<and> g_account g = account \<and> g_head g = expected"

definition cas_head :: "uuid \<Rightarrow> uuid \<Rightarrow> uuid option \<Rightarrow> uuid \<Rightarrow> db \<Rightarrow> db \<times> nat" where
  "cas_head account game expected new d =
     (d\<lparr>db_games := map (\<lambda>g. if head_matches account game expected g then g\<lparr>g_head := Some new\<rparr> else g)
                     (db_games d)\<rparr>,
      length (filter (head_matches account game expected) (db_games d)))"

definition new_version_row ::
  "db \<Rightarrow> uuid \<Rightarrow> uuid \<Rightarrow> create_version_req \<Rightarrow> uuid \<Rightarrow> time \<Rightarrow> version_row" where
  "new_version_row d account game req i now =
     \<lparr>v_id = i, v_game_id = game, v_device_id = cv_device_id req, v_parent = cv_parent req,
      v_kind = cv_kind req, v_files = cv_files req, v_blob_hash = cv_blob_hash req,
      v_bytes = cv_bytes req, v_seq = next_seq d game, v_created_at = now, vr_account = account\<rparr>"

definition create_version ::
  "db \<Rightarrow> uuid \<Rightarrow> uuid \<Rightarrow> create_version_req \<Rightarrow> uuid \<Rightarrow> time \<Rightarrow> advance db_result" where
  "create_version d account game req i now =
     (case insert_version (new_version_row d account game req i now) d of
        Inl e \<Rightarrow> (d, Inl (from_sqlx e))
      | Inr d1 \<Rightarrow>
          (let d2 = add_refcount 1 (cv_blob_hash req) d1 in
           case find_game d2 account game of
             None \<Rightarrow> (d, Inl (from_sqlx RowNotFound))
           | Some g \<Rightarrow>
               (let prev_head = g_head g;
                    (d3, n) = cas_head account game (cv_parent req) i d2;
                    advanced = (n = 1) in
                (d3,
                 bind_res (load_version d3 i) (\<lambda>incoming.
                 if advanced then Inr (FastForward incoming)
                 else (case prev_head of
                         None \<Rightarrow> Inr (Conflict None incoming)
                       | Some h \<Rightarrow>
                           bind_res (load_version d3 h) (\<lambda>hv. Inr (Conflict (Some hv) incoming))))))))"

subsection \<open>Conflict resolution\<close>

text \<open>
  \<open>uuid_str\<close> is the display of a UUID (the \<open>uuid\<close> crate's), \<open>i\<close> the fresh id of the audit
  row. The redirect note names the first eight characters of the loser.
\<close>

definition insert_resolved :: "resolved_row \<Rightarrow> db \<Rightarrow> sqlx_error + db" where
  "insert_resolved r d =
     (if list_ex (\<lambda>q. rc_id q = rc_id r) (db_resolved d) then Inl UniqueViolation
      else Inr (d\<lparr>db_resolved := db_resolved d @ [r]\<rparr>))"

definition resolution_row ::
  "(uuid \<Rightarrow> string) \<Rightarrow> uuid \<Rightarrow> uuid \<Rightarrow> uuid \<Rightarrow> uuid \<Rightarrow> bool \<Rightarrow> uuid \<Rightarrow> time \<Rightarrow> resolved_row" where
  "resolution_row uuid_str account game winner loser keep_both i now =
     \<lparr>rc_id = i, rc_account = account, rc_game = game, rc_winner = winner, rc_loser = loser,
      rc_keep_both = keep_both,
      rc_redirect =
        (if keep_both then Some (''restore-conflict-'' @ take 8 (uuid_str loser)) else None),
      rc_resolved_at = now\<rparr>"

definition resolve_conflict ::
  "(uuid \<Rightarrow> string) \<Rightarrow> db \<Rightarrow> uuid \<Rightarrow> uuid \<Rightarrow> uuid \<Rightarrow> bool \<Rightarrow> uuid \<Rightarrow> time \<Rightarrow>
   (head_response \<times> nat) db_result" where
  "resolve_conflict uuid_str d account game winner keep_both i now =
     (case find_game d account game of
        None \<Rightarrow> (d, Inl (not_found ''game''))
      | Some g \<Rightarrow>
          (let cur_head = g_head g in
           case List.find (\<lambda>r. v_id r = winner \<and> v_game_id r = game \<and> vr_account r = account)
                  (db_versions d) of
             None \<Rightarrow> (d, Inl (not_found ''winner version''))
           | Some w \<Rightarrow>
               (let (d1, n) = cas_head account game cur_head winner d in
                if n \<noteq> 1
                then (d, Inl (conflict (case cur_head of None \<Rightarrow> JNull | Some h \<Rightarrow> JId h) (JId winner)))
                else
                  (case (case cur_head of
                           None \<Rightarrow> Inr d1
                         | Some loser \<Rightarrow>
                             if loser \<noteq> winner
                             then insert_resolved
                               (resolution_row uuid_str account game winner loser keep_both i now) d1
                             else Inr d1) of
                     Inl e \<Rightarrow> (d, Inl (from_sqlx e))
                   | Inr d2 \<Rightarrow>
                       (d2, Inr (\<lparr>hr_head = Some winner, hr_seq = Some (v_seq w)\<rparr>, v_seq w))))))"

section \<open>The integrity invariant\<close>

definition version_ids :: "db \<Rightarrow> uuid set" where
  "version_ids d = v_id ` set (db_versions d)"

definition game_keys :: "db \<Rightarrow> (uuid \<times> uuid) set" where
  "game_keys d = (\<lambda>g. (g_id g, g_account g)) ` set (db_games d)"

definition versions_wf :: "db \<Rightarrow> bool" where
  "versions_wf d \<longleftrightarrow>
     distinct (map v_id (db_versions d)) \<and>
     distinct (map (\<lambda>r. (v_game_id r, v_seq r)) (db_versions d)) \<and>
     (\<forall>r \<in> set (db_versions d).
        (v_game_id r, vr_account r) \<in> game_keys d \<and>
        v_device_id r \<in> d_id ` set (db_devices d) \<and>
        set_option (v_parent r) \<subseteq> version_ids d \<and>
        db_blobs d (v_blob_hash r) \<noteq> None)"

definition games_wf :: "db \<Rightarrow> bool" where
  "games_wf d \<longleftrightarrow>
     distinct (map g_id (db_games d)) \<and>
     distinct (map (\<lambda>g. (g_account g, g_title g)) (db_games d)) \<and>
     (\<forall>g \<in> set (db_games d). \<forall>h. g_head g = Some h \<longrightarrow>
        (\<exists>r \<in> set (db_versions d). v_id r = h \<and> v_game_id r = g_id g \<and> vr_account r = g_account g))"

definition references :: "string \<Rightarrow> db \<Rightarrow> nat" where
  "references h d = length (filter (\<lambda>r. v_blob_hash r = h) (db_versions d))"

definition refcount_wf :: "db \<Rightarrow> bool" where
  "refcount_wf d \<longleftrightarrow> (\<forall>h b. db_blobs d h = Some b \<longrightarrow> b_refcount b = int (references h d))"

definition db_wf :: "db \<Rightarrow> bool" where
  "db_wf d \<longleftrightarrow> versions_wf d \<and> games_wf d \<and> refcount_wf d"

lemma db_wf_empty: "db_wf empty_db"
  by (simp add: db_wf_def versions_wf_def games_wf_def refcount_wf_def empty_db_def)

subsection \<open>Lookups in a well-formed database\<close>

lemma find_game_wf:
  "games_wf d \<Longrightarrow>
   find_game d a g = Some r \<longleftrightarrow> r \<in> set (db_games d) \<and> g_id r = g \<and> g_account r = a"
  unfolding find_game_def games_wf_def by (subst find_key_iff [where k = g_id and c = g]) auto

lemma find_version_wf:
  "versions_wf d \<Longrightarrow> find_version d i = Some r \<longleftrightarrow> r \<in> set (db_versions d) \<and> v_id r = i"
  unfolding find_version_def versions_wf_def by (subst find_key_iff [where k = v_id and c = i]) auto

lemma head_row:
  assumes "db_wf d" and "g \<in> set (db_games d)" and "g_head g = Some h"
  obtains r where "r \<in> set (db_versions d)" "v_id r = h" "v_game_id r = g_id g" "vr_account r = g_account g"
  using assms unfolding db_wf_def games_wf_def by blast

lemma next_seq_greater:
  "r \<in> set (db_versions d) \<Longrightarrow> v_game_id r = game \<Longrightarrow> v_seq r < next_seq d game"
proof -
  have "x \<in> set xs \<Longrightarrow> x \<le> foldr max xs 0" for x :: nat and xs
    by (induction xs) auto
  then show "r \<in> set (db_versions d) \<Longrightarrow> v_game_id r = game \<Longrightarrow> v_seq r < next_seq d game"
    by (simp add: next_seq_def less_Suc_eq_le)
qed

lemma row_to_version_simps [simp]:
  "v_id (row_to_version r) = v_id r" "v_game_id (row_to_version r) = v_game_id r"
  "v_device_id (row_to_version r) = v_device_id r" "v_parent (row_to_version r) = v_parent r"
  "v_kind (row_to_version r) = v_kind r" "v_files (row_to_version r) = v_files r"
  "v_blob_hash (row_to_version r) = v_blob_hash r" "v_bytes (row_to_version r) = v_bytes r"
  "v_seq (row_to_version r) = v_seq r" "v_created_at (row_to_version r) = v_created_at r"
  by (simp_all add: row_to_version_def version.truncate_def)

lemma new_version_row_simps [simp]:
  "v_id (new_version_row d a g req i now) = i"
  "v_game_id (new_version_row d a g req i now) = g"
  "v_device_id (new_version_row d a g req i now) = cv_device_id req"
  "v_parent (new_version_row d a g req i now) = cv_parent req"
  "v_kind (new_version_row d a g req i now) = cv_kind req"
  "v_files (new_version_row d a g req i now) = cv_files req"
  "v_blob_hash (new_version_row d a g req i now) = cv_blob_hash req"
  "v_seq (new_version_row d a g req i now) = next_seq d g"
  "vr_account (new_version_row d a g req i now) = a"
  by (simp_all add: new_version_row_def)

subsection \<open>The compare-and-swap of a head\<close>

lemma cas_head_count:
  assumes "games_wf d" and "find_game d a g = Some r"
  shows "snd (cas_head a g expected new d) = (if g_head r = expected then 1 else 0)"
proof -
  from assms have r: "r \<in> set (db_games d)" "g_id r = g" "g_account r = a"
    by (simp_all add: find_game_wf)
  have only: "r' = r" if "r' \<in> set (db_games d)" "g_id r' = g" for r'
    using that r assms(1) distinct_map_inj [of g_id "db_games d"] by (auto simp: games_wf_def)
  show ?thesis
  proof (cases "g_head r = expected")
    case True
    with r assms(1) have "filter (head_matches a g expected) (db_games d) = [r]"
      by (intro filter_key_singleton [where k = g_id and c = g])
        (auto simp: head_matches_def games_wf_def)
    with True show ?thesis by (simp add: cas_head_def)
  next
    case False
    then have "filter (head_matches a g expected) (db_games d) = []"
      using only by (auto simp: filter_empty_conv head_matches_def)
    with False show ?thesis by (simp add: cas_head_def)
  qed
qed

lemma cas_head_frame [simp]:
  "db_versions (fst (cas_head a g e n d)) = db_versions d"
  "db_blobs (fst (cas_head a g e n d)) = db_blobs d"
  "db_devices (fst (cas_head a g e n d)) = db_devices d"
  "db_resolved (fst (cas_head a g e n d)) = db_resolved d"
  "db_accounts (fst (cas_head a g e n d)) = db_accounts d"
  "db_config (fst (cas_head a g e n d)) = db_config d"
  "db_pairing (fst (cas_head a g e n d)) = db_pairing d"
  by (simp_all add: cas_head_def)

lemma cas_head_keys [simp]:
  "map g_id (db_games (fst (cas_head a g e n d))) = map g_id (db_games d)"
  "map (\<lambda>r. (g_account r, g_title r)) (db_games (fst (cas_head a g e n d))) =
   map (\<lambda>r. (g_account r, g_title r)) (db_games d)"
  by (simp_all add: cas_head_def)

lemma game_keys_cas_head [simp]: "game_keys (fst (cas_head a g e n d)) = game_keys d"
proof -
  have "map (\<lambda>r. (g_id r, g_account r)) (db_games (fst (cas_head a g e n d))) =
        map (\<lambda>r. (g_id r, g_account r)) (db_games d)"
    by (simp add: cas_head_def)
  from arg_cong [OF this, of set] show ?thesis by (simp add: game_keys_def)
qed

lemma cas_head_row_iff:
  "r' \<in> set (db_games (fst (cas_head a g e n d))) \<longleftrightarrow>
   (\<exists>r \<in> set (db_games d). r' = (if head_matches a g e r then r\<lparr>g_head := Some n\<rparr> else r))"
  by (auto simp: cas_head_def)

lemma find_game_cas_head:
  assumes "find_game d a g = Some r"
  shows "find_game (fst (cas_head a g e n d)) a g =
         Some (if g_head r = e then r\<lparr>g_head := Some n\<rparr> else r)"
proof -
  have "List.find (\<lambda>x. g_id x = g \<and> g_account x = a)
          (map (\<lambda>x. if head_matches a g e x then x\<lparr>g_head := Some n\<rparr> else x) xs) =
        map_option (\<lambda>x. if g_head x = e then x\<lparr>g_head := Some n\<rparr> else x)
          (List.find (\<lambda>x. g_id x = g \<and> g_account x = a) xs)" for xs
    by (induction xs) (auto simp: head_matches_def)
  with assms show ?thesis by (simp add: find_game_def cas_head_def)
qed

lemma find_game_cas_head_other:
  assumes "g' \<noteq> g \<or> a' \<noteq> a"
  shows "find_game (fst (cas_head a g e n d)) a' g' = find_game d a' g'"
proof -
  have "List.find (\<lambda>x. g_id x = g' \<and> g_account x = a')
          (map (\<lambda>x. if head_matches a g e x then x\<lparr>g_head := Some n\<rparr> else x) xs) =
        List.find (\<lambda>x. g_id x = g' \<and> g_account x = a') xs" for xs
    using assms by (induction xs) (auto simp: head_matches_def)
  then show ?thesis by (simp add: find_game_def cas_head_def)
qed

lemma games_wf_cas_head:
  assumes "games_wf d" and "r \<in> set (db_versions d)" "v_id r = n" "v_game_id r = g" "vr_account r = a"
  shows "games_wf (fst (cas_head a g e n d))"
  using assms unfolding games_wf_def cas_head_keys cas_head_frame
  by (auto simp: cas_head_row_iff head_matches_def split: if_splits) blast

subsection \<open>Inserting a version\<close>

text \<open>What the constraints of the schema guarantee once a row is in.\<close>

lemma insert_version_Inr_iff:
  "insert_version r d = Inr d' \<longleftrightarrow>
     d' = d\<lparr>db_versions := db_versions d @ [r]\<rparr> \<and>
     v_id r \<notin> version_ids d \<and>
     (\<forall>w \<in> set (db_versions d). v_game_id w = v_game_id r \<longrightarrow> v_seq w \<noteq> v_seq r) \<and>
     v_game_id r \<in> g_id ` set (db_games d) \<and>
     v_device_id r \<in> d_id ` set (db_devices d) \<and>
     set_option (v_parent r) \<subseteq> insert (v_id r) (version_ids d) \<and>
     db_blobs d (v_blob_hash r) \<noteq> None"
  unfolding insert_version_def version_ids_def list_ex_key
  by (cases "v_parent r") (auto simp: list_ex_iff)

lemma references_append [simp]:
  "references h (d\<lparr>db_versions := vs @ [r]\<rparr>) =
     length (filter (\<lambda>r. v_blob_hash r = h) vs) + (if v_blob_hash r = h then 1 else 0)"
  by (simp add: references_def)

lemma references_frame [simp]:
  "references h (add_refcount n k d) = references h d"
  "references h (fst (cas_head a g e i d)) = references h d"
  by (simp_all add: references_def add_refcount_def)

lemma add_refcount_frame [simp]:
  "db_versions (add_refcount n h d) = db_versions d"
  "db_games (add_refcount n h d) = db_games d"
  "db_devices (add_refcount n h d) = db_devices d"
  "db_resolved (add_refcount n h d) = db_resolved d"
  "db_accounts (add_refcount n h d) = db_accounts d"
  "db_config (add_refcount n h d) = db_config d"
  "db_pairing (add_refcount n h d) = db_pairing d"
  "dom (db_blobs (add_refcount n h d)) = dom (db_blobs d)"
  "find_game (add_refcount n h d) a g = find_game d a g"
  by (auto simp: add_refcount_def find_game_def split: if_splits)

lemma add_refcount_None [simp]: "db_blobs (add_refcount n h d) k = None \<longleftrightarrow> db_blobs d k = None"
  by (simp add: add_refcount_def)

lemma refcount_wf_insert:
  "refcount_wf d \<Longrightarrow>
   refcount_wf (add_refcount 1 (v_blob_hash r) (d\<lparr>db_versions := db_versions d @ [r]\<rparr>))"
  unfolding refcount_wf_def by (auto simp: add_refcount_def references_def)

lemma versions_wf_insert:
  assumes "versions_wf d" and "insert_version r d = Inr d'"
    and "(v_game_id r, vr_account r) \<in> game_keys d"
  shows "versions_wf d'"
  using assms unfolding insert_version_Inr_iff versions_wf_def version_ids_def game_keys_def
  by auto

lemma versions_wf_cong:
  assumes "versions_wf d" and "db_versions d' = db_versions d"
    and "game_keys d \<subseteq> game_keys d'" and "d_id ` set (db_devices d) \<subseteq> d_id ` set (db_devices d')"
    and "dom (db_blobs d) \<subseteq> dom (db_blobs d')"
  shows "versions_wf d'"
  using assms unfolding versions_wf_def version_ids_def by (auto simp: dom_def subset_iff)

text \<open>
  The two ways a call of \<^const>\<open>create_version\<close> can go in a well-formed database: it fails and
  changes nothing, or it stores the row and reports the outcome of the compare-and-swap.
\<close>

definition store_version :: "db \<Rightarrow> uuid \<Rightarrow> uuid \<Rightarrow> create_version_req \<Rightarrow> uuid \<Rightarrow> time \<Rightarrow> db" where
  "store_version d account game req i now =
     fst (cas_head account game (cv_parent req) i
       (add_refcount 1 (cv_blob_hash req)
         (d\<lparr>db_versions := db_versions d @ [new_version_row d account game req i now]\<rparr>)))"

lemma store_version_frame [simp]:
  "db_versions (store_version d a g req i now) = db_versions d @ [new_version_row d a g req i now]"
  "db_devices (store_version d a g req i now) = db_devices d"
  "db_resolved (store_version d a g req i now) = db_resolved d"
  "db_accounts (store_version d a g req i now) = db_accounts d"
  "db_config (store_version d a g req i now) = db_config d"
  "db_pairing (store_version d a g req i now) = db_pairing d"
  by (simp_all add: store_version_def)

lemma store_version_wf:
  assumes wf: "db_wf d"
    and ins: "insert_version (new_version_row d a g req i now) d = Inr d1"
    and game: "find_game d a g = Some gr"
  shows "db_wf (store_version d a g req i now)"
proof -
  let ?r = "new_version_row d a g req i now"
  let ?d2 = "add_refcount 1 (v_blob_hash ?r) d1"
  from ins have d1: "d1 = d\<lparr>db_versions := db_versions d @ [?r]\<rparr>" by (simp add: insert_version_Inr_iff)
  from game wf have gr: "gr \<in> set (db_games d)" "g_id gr = g" "g_account gr = a"
    by (auto simp: db_wf_def find_game_wf)
  then have "(v_game_id ?r, vr_account ?r) \<in> game_keys d" by (auto simp: game_keys_def)
  with wf ins have "versions_wf d1" by (meson db_wf_def versions_wf_insert)
  then have "versions_wf (fst (cas_head a g (cv_parent req) i ?d2))"
    by (rule versions_wf_cong) (simp_all add: game_keys_def [of "add_refcount _ _ _"] game_keys_def [of d1])
  moreover have "games_wf ?d2"
    using wf by (auto simp: db_wf_def games_wf_def d1)
  then have "games_wf (fst (cas_head a g (cv_parent req) i ?d2))"
    by (rule games_wf_cas_head [where r = ?r]) (simp_all add: d1)
  moreover have "refcount_wf (fst (cas_head a g (cv_parent req) i ?d2))"
    using refcount_wf_insert [of d ?r] wf by (simp add: db_wf_def d1 refcount_wf_def)
  ultimately show ?thesis by (simp add: db_wf_def store_version_def d1)
qed

lemma find_version_store_new:
  "i \<notin> version_ids d \<Longrightarrow>
   find_version (store_version d a g req i now) i = Some (new_version_row d a g req i now)"
proof -
  have "i \<notin> v_id ` set rs \<Longrightarrow> v_id r = i \<Longrightarrow> List.find (\<lambda>r. v_id r = i) (rs @ [r]) = Some r"
    for rs and r :: version_row by (induction rs) auto
  then show "i \<notin> version_ids d \<Longrightarrow> ?thesis"
    by (simp add: find_version_def version_ids_def)
qed

lemma find_version_store_old:
  "find_version d h = Some r \<Longrightarrow> find_version (store_version d a g req i now) h = Some r"
proof -
  have "List.find P xs = Some x \<Longrightarrow> List.find P (xs @ ys) = Some x" for P xs ys and x :: version_row
    by (induction xs) auto
  then show "find_version d h = Some r \<Longrightarrow> ?thesis" by (simp add: find_version_def)
qed

definition head_version :: "db \<Rightarrow> game_row \<Rightarrow> version option" where
  "head_version d g = map_option row_to_version (Option.bind (g_head g) (find_version d))"

lemma create_version_cases:
  assumes wf: "db_wf d"
  obtains (fail) e where "create_version d a g req i now = (d, Inl (from_sqlx e))"
      and "find_game d a g = None \<or> insert_version (new_version_row d a g req i now) d = Inl e"
  | (ok) gr d1 where "find_game d a g = Some gr"
      and "insert_version (new_version_row d a g req i now) d = Inr d1"
      and "create_version d a g req i now =
             (store_version d a g req i now,
              Inr (if g_head gr = cv_parent req
                   then FastForward (row_to_version (new_version_row d a g req i now))
                   else Conflict (head_version d gr) (row_to_version (new_version_row d a g req i now))))"
proof (cases "insert_version (new_version_row d a g req i now) d")
  case (Inl e)
  then show thesis by (intro fail [of e]) (simp_all add: create_version_def)
next
  case ins: (Inr d1)
  let ?r = "new_version_row d a g req i now"
  let ?d2 = "add_refcount 1 (cv_blob_hash req) d1"
  let ?s = "store_version d a g req i now"
  from ins have d1: "d1 = d\<lparr>db_versions := db_versions d @ [?r]\<rparr>" and new: "i \<notin> version_ids d"
    by (simp_all add: insert_version_Inr_iff)
  have fg: "find_game d1 a g = find_game d a g" by (simp add: d1 find_game_def)
  show thesis
  proof (cases "find_game d a g")
    case None
    with ins fg show thesis by (intro fail [of RowNotFound]) (simp_all add: create_version_def)
  next
    case (Some gr)
    have s: "?s = fst (cas_head a g (cv_parent req) i ?d2)" by (simp add: store_version_def d1)
    have "games_wf ?d2" using wf by (auto simp: db_wf_def games_wf_def d1)
    with fg Some have n: "snd (cas_head a g (cv_parent req) i ?d2) = (if g_head gr = cv_parent req then 1 else 0)"
      by (intro cas_head_count) simp_all
    have new_loaded: "load_version ?s i = Inr (row_to_version ?r)"
      using find_version_store_new [OF new] by (simp add: load_version_def)
    have old_loaded: "\<exists>r. find_version d h = Some r \<and> load_version ?s h = Inr (row_to_version r)"
      if h: "g_head gr = Some h" for h
    proof -
      from Some wf have "gr \<in> set (db_games d)" by (auto simp: db_wf_def find_game_wf)
      then obtain r where "r \<in> set (db_versions d)" "v_id r = h"
        using head_row [OF wf _ h] by blast
      with wf have "find_version d h = Some r" by (simp add: db_wf_def find_version_wf)
      then show ?thesis
        using find_version_store_old [of d h r] by (simp add: load_version_def)
    qed
    have "create_version d a g req i now =
            (?s, Inr (if g_head gr = cv_parent req then FastForward (row_to_version ?r)
                      else Conflict (head_version d gr) (row_to_version ?r)))"
    proof (cases "g_head gr")
      case None
      then show ?thesis
        by (simp add: create_version_def ins fg Some Let_def split_beta n new_loaded s [symmetric]
            head_version_def)
    next
      case h: (Some h)
      then show ?thesis using old_loaded [OF h]
        by (auto simp: create_version_def ins fg Some Let_def split_beta n new_loaded s [symmetric]
            head_version_def)
    qed
    with Some ins show thesis by (rule ok)
  qed
qed

lemma create_version_wf:
  assumes "db_wf d"
  shows "db_wf (fst (create_version d a g req i now))"
  using assms by (rule create_version_cases [of d a g req i now])
    (simp_all add: assms store_version_wf [OF assms])

subsection \<open>The other writers\<close>

lemma insert_game_cases:
  assumes "insert_game g d = Inr d'"
  obtains "d' = d"
  | "d' = d\<lparr>db_games := db_games d @ [g]\<rparr>" "g_id g \<notin> g_id ` set (db_games d)"
      "(g_account g, g_title g) \<notin> (\<lambda>h. (g_account h, g_title h)) ` set (db_games d)"
  using assms unfolding insert_game_def list_ex_key by (force simp: list_ex_iff split: if_splits)

lemma db_wf_add_game:
  assumes "db_wf d" and "g_head g = None" and "g_id g \<notin> g_id ` set (db_games d)"
    and "(g_account g, g_title g) \<notin> (\<lambda>h. (g_account h, g_title h)) ` set (db_games d)"
  shows "db_wf (d\<lparr>db_games := db_games d @ [g]\<rparr>)"
proof -
  let ?d = "d\<lparr>db_games := db_games d @ [g]\<rparr>"
  have wf: "versions_wf d" "games_wf d" "refcount_wf d" using assms(1) by (simp_all add: db_wf_def)
  have "versions_wf ?d" by (rule versions_wf_cong [OF wf(1)]) (auto simp: game_keys_def)
  moreover have "games_wf ?d" using wf(2) assms(2-) by (simp add: games_wf_def)
  moreover have "refcount_wf ?d" using wf(3) by (simp add: refcount_wf_def references_def)
  ultimately show ?thesis by (simp add: db_wf_def)
qed

lemma ensure_game_db:
  "fst (ensure_game d a t appid i) = d \<or>
   insert_game \<lparr>g_id = i, g_account = a, g_title = t, g_steam_appid = appid, g_head = None\<rparr> d
     = Inr (fst (ensure_game d a t appid i))"
  by (auto simp: ensure_game_def Let_def split: option.splits sum.splits)

lemma ensure_game_wf:
  assumes "db_wf d"
  shows "db_wf (fst (ensure_game d a t appid i))"
  using ensure_game_db [of d a t appid i]
proof
  assume "fst (ensure_game d a t appid i) = d"
  with assms show ?thesis by simp
next
  assume "insert_game \<lparr>g_id = i, g_account = a, g_title = t, g_steam_appid = appid, g_head = None\<rparr> d
     = Inr (fst (ensure_game d a t appid i))"
  then show ?thesis by (rule insert_game_cases) (simp_all add: assms db_wf_add_game)
qed

text \<open>A resolution moves the head to a version of the same game, and may append an audit row.\<close>

lemma resolve_conflict_cases:
  assumes wf: "db_wf d"
  obtains (fail) e where "resolve_conflict us d a g w kb i now = (d, Inl e)"
  | (ok) gr wr d2 where "find_game d a g = Some gr" and "wr \<in> set (db_versions d)" and "v_id wr = w"
      and "v_game_id wr = g" and "vr_account wr = a"
      and "(g_head gr = None \<or> g_head gr = Some w) \<and> d2 = fst (cas_head a g (g_head gr) w d) \<or>
           (\<exists>loser. g_head gr = Some loser \<and> loser \<noteq> w \<and>
              d2 = (fst (cas_head a g (g_head gr) w d))
                \<lparr>db_resolved := db_resolved d @ [resolution_row us a g w loser kb i now]\<rparr>)"
      and "resolve_conflict us d a g w kb i now =
             (d2, Inr (\<lparr>hr_head = Some w, hr_seq = Some (v_seq wr)\<rparr>, v_seq wr))"
proof (cases "find_game d a g")
  case None
  then show thesis by (intro fail) (simp add: resolve_conflict_def)
next
  case g: (Some gr)
  show thesis
  proof (cases "List.find (\<lambda>r. v_id r = w \<and> v_game_id r = g \<and> vr_account r = a) (db_versions d)")
    case None
    with g show thesis by (intro fail) (simp add: resolve_conflict_def)
  next
    case w: (Some wr)
    note wr = find_Some_set [OF w]
    let ?d1 = "fst (cas_head a g (g_head gr) w d)"
    have n: "snd (cas_head a g (g_head gr) w d) = 1"
      using wf g cas_head_count [of d a g gr "g_head gr" w] by (simp add: db_wf_def)
    show thesis
    proof (cases "g_head gr = None \<or> g_head gr = Some w")
      case True
      then have "resolve_conflict us d a g w kb i now =
          (?d1, Inr (\<lparr>hr_head = Some w, hr_seq = Some (v_seq wr)\<rparr>, v_seq wr))"
        using g w n by (auto simp: resolve_conflict_def Let_def split: prod.splits)
      with True g wr show thesis by (intro ok) auto
    next
      case False
      then obtain loser where l: "g_head gr = Some loser" "loser \<noteq> w" by (cases "g_head gr") auto
      show thesis
      proof (cases "insert_resolved (resolution_row us a g w loser kb i now) ?d1")
        case (Inl e)
        with g w n l have "resolve_conflict us d a g w kb i now = (d, Inl (from_sqlx e))"
          by (auto simp: resolve_conflict_def Let_def split: prod.splits)
        then show thesis by (rule fail)
      next
        case (Inr d2)
        then have "d2 = ?d1\<lparr>db_resolved := db_resolved d @ [resolution_row us a g w loser kb i now]\<rparr>"
          by (auto simp: insert_resolved_def split: if_splits)
        moreover from Inr g w n l have "resolve_conflict us d a g w kb i now =
            (d2, Inr (\<lparr>hr_head = Some w, hr_seq = Some (v_seq wr)\<rparr>, v_seq wr))"
          by (auto simp: resolve_conflict_def Let_def split: prod.splits)
        ultimately show thesis using g wr l by (intro ok) auto
      qed
    qed
  qed
qed

lemma db_wf_resolved [simp]: "db_wf (d\<lparr>db_resolved := rs\<rparr>) = db_wf d"
  by (simp add: db_wf_def versions_wf_def games_wf_def refcount_wf_def references_def
      version_ids_def game_keys_def)

lemma db_wf_cas_head:
  assumes "db_wf d" and "r \<in> set (db_versions d)" "v_id r = n" "v_game_id r = g" "vr_account r = a"
  shows "db_wf (fst (cas_head a g e n d))"
proof -
  have wf: "versions_wf d" "games_wf d" "refcount_wf d" using assms(1) by (simp_all add: db_wf_def)
  have "versions_wf (fst (cas_head a g e n d))" by (rule versions_wf_cong [OF wf(1)]) simp_all
  moreover have "refcount_wf (fst (cas_head a g e n d))" using wf(3) by (simp add: refcount_wf_def)
  moreover have "games_wf (fst (cas_head a g e n d))" using wf(2) assms(2-) by (rule games_wf_cas_head)
  ultimately show ?thesis by (simp add: db_wf_def)
qed

lemma resolve_conflict_wf:
  assumes "db_wf d"
  shows "db_wf (fst (resolve_conflict us d a g w kb i now))"
  using assms
proof (rule resolve_conflict_cases [of d us a g w kb i now])
  fix gr wr d2
  assume wr: "wr \<in> set (db_versions d)" "v_id wr = w" "v_game_id wr = g" "vr_account wr = a"
    and d2: "(g_head gr = None \<or> g_head gr = Some w) \<and> d2 = fst (cas_head a g (g_head gr) w d) \<or>
       (\<exists>loser. g_head gr = Some loser \<and> loser \<noteq> w \<and>
          d2 = (fst (cas_head a g (g_head gr) w d))
            \<lparr>db_resolved := db_resolved d @ [resolution_row us a g w loser kb i now]\<rparr>)"
    and res: "resolve_conflict us d a g w kb i now =
       (d2, Inr (\<lparr>hr_head = Some w, hr_seq = Some (v_seq wr)\<rparr>, v_seq wr))"
  from assms wr have "db_wf (fst (cas_head a g (g_head gr) w d))" by (rule db_wf_cas_head)
  with d2 have "db_wf d2" by (metis db_wf_resolved)
  with res show ?thesis by simp
qed (simp add: assms)

end
