(* ===== verification/Server_Blobs.thy ===== *)
theory Server_Blobs
  imports Server_Db
begin

text \<open>
  The content-addressed blob store (\<open>savr-server/src/blobs.rs\<close>). The directory of objects is a
  map from the declared hash to the bytes; the temporary file of an upload is a separate map, as
  it lies beside the objects under another name. The hash function is blake3, a parameter. Both
  the database and the objects form the server's persistent state.
\<close>

record store =
  s_db :: db
  s_objs :: "string \<rightharpoonup> byte list"
  s_tmp :: "string \<rightharpoonup> byte list"

datatype blob_error = BlobIo string | BlobBody string | HashMismatch string string

definition blob_error_to_api :: "blob_error \<Rightarrow> api_error" where
  "blob_error_to_api e =
     (case e of
        HashMismatch expected got \<Rightarrow>
          bad_request (''blob content hash '' @ got @ '' does not match declared '' @ expected)
      | BlobIo m \<Rightarrow> internal (IoMessage m)
      | BlobBody m \<Rightarrow> bad_request (''upload body error: '' @ m))"

definition blob_exists :: "store \<Rightarrow> string \<Rightarrow> bool" where
  "blob_exists s h = (s_objs s h \<noteq> None)"

text \<open>\<open>delete\<close>: a missing object counts as deleted; \<open>rm_fails\<close> says for which objects the file
  system refuses the removal, an error of \<open>std::io\<close>.\<close>

definition blob_delete :: "(string \<Rightarrow> bool) \<Rightarrow> string \<Rightarrow> store \<Rightarrow> store \<times> (string + unit)" where
  "blob_delete rm_fails h s =
     (if s_objs s h = None then (s, Inr ())
      else if rm_fails h then (s, Inl ''remove_file'')
      else (s\<lparr>s_objs := (s_objs s)(h := None)\<rparr>, Inr ()))"

text \<open>
  \<open>put\<close>: the chunks of the body are appended to the temporary file; an error of the body leaves
  the temporary file behind, a wrong hash removes it, a right one renames it into place.
\<close>

fun write_chunks :: "byte list \<Rightarrow> (string + byte list) list \<Rightarrow> byte list \<times> (blob_error + unit)" where
  "write_chunks acc [] = (acc, Inr ())"
| "write_chunks acc (Inl m # cs) = (acc, Inl (BlobBody m))"
| "write_chunks acc (Inr c # cs) = write_chunks (acc @ c) cs"

definition blob_put ::
  "(byte list \<Rightarrow> blake3_hash) \<Rightarrow> string \<Rightarrow> (string + byte list) list \<Rightarrow> store \<Rightarrow> store \<times> (blob_error + nat)" where
  "blob_put blake3 h body s =
     (case write_chunks [] body of
        (written, Inl e) \<Rightarrow> (s\<lparr>s_tmp := (s_tmp s)(h \<mapsto> written)\<rparr>, Inl e)
      | (written, Inr _) \<Rightarrow>
          (let got = blake3 written in
           if got \<noteq> h then (s\<lparr>s_tmp := (s_tmp s)(h := None)\<rparr>, Inl (HashMismatch h got))
           else (s\<lparr>s_tmp := (s_tmp s)(h := None), s_objs := (s_objs s)(h \<mapsto> written)\<rparr>,
                 Inr (length written))))"

section \<open>What the store promises\<close>

text \<open>Every object is what its name says, and every blob row has its object.\<close>

definition content_addressed :: "(byte list \<Rightarrow> blake3_hash) \<Rightarrow> store \<Rightarrow> bool" where
  "content_addressed blake3 s \<longleftrightarrow> (\<forall>h bs. s_objs s h = Some bs \<longrightarrow> blake3 bs = h)"

definition blobs_backed :: "store \<Rightarrow> bool" where
  "blobs_backed s \<longleftrightarrow> dom (db_blobs (s_db s)) \<subseteq> dom (s_objs s)"

definition store_wf :: "(byte list \<Rightarrow> blake3_hash) \<Rightarrow> store \<Rightarrow> bool" where
  "store_wf blake3 s \<longleftrightarrow> db_wf (s_db s) \<and> blobs_backed s \<and> content_addressed blake3 s"

lemma write_chunks_Inr:
  "write_chunks acc body = (w, Inr u) \<Longrightarrow> \<exists>cs. body = map Inr cs \<and> w = acc @ concat cs"
proof (induction acc body rule: write_chunks.induct)
  case (1 acc)
  then show ?case by simp
next
  case (2 acc m cs)
  then show ?case by simp
next
  case (3 acc c cs)
  then obtain ds where "cs = map Inr ds" "w = (acc @ c) @ concat ds" by auto
  then have "Inr c # cs = map Inr (c # ds) \<and> w = acc @ concat (c # ds)" by simp
  then show ?case by (rule exI)
qed

lemma write_chunks_map: "write_chunks acc (map Inr cs) = (acc @ concat cs, Inr ())"
  by (induction cs arbitrary: acc) auto

lemma blob_put_cases:
  obtains (bad) e t where "blob_put blake3 h body s = (s\<lparr>s_tmp := t\<rparr>, Inl e)"
  | (good) cs t where "body = map Inr cs" and "blake3 (concat cs) = h"
      and "blob_put blake3 h body s =
             (s\<lparr>s_tmp := t, s_objs := (s_objs s)(h \<mapsto> concat cs)\<rparr>, Inr (length (concat cs)))"
proof (cases "write_chunks [] body")
  case (Pair w r)
  show thesis
  proof (cases r)
    case (Inl e)
    with Pair show thesis by (intro bad) (simp add: blob_put_def)
  next
    case (Inr u)
    with Pair obtain cs where cs: "body = map Inr cs" "w = concat cs" by (auto dest: write_chunks_Inr)
    show thesis
    proof (cases "blake3 w = h")
      case True
      with Pair Inr cs show thesis by (intro good) (simp_all add: blob_put_def)
    next
      case False
      with Pair Inr show thesis by (intro bad) (simp add: blob_put_def Let_def)
    qed
  qed
qed

lemma blob_put_db [simp]: "s_db (fst (blob_put blake3 h body s)) = s_db s"
  by (rule blob_put_cases [of blake3 h body s]) simp_all

lemma blob_put_content_addressed:
  "content_addressed blake3 s \<Longrightarrow> content_addressed blake3 (fst (blob_put blake3 h body s))"
  by (rule blob_put_cases [of blake3 h body s]) (auto simp: content_addressed_def)

lemma blob_put_mono: "dom (s_objs s) \<subseteq> dom (s_objs (fst (blob_put blake3 h body s)))"
  by (rule blob_put_cases [of blake3 h body s]) auto

lemma blob_delete_simps [simp]:
  "s_db (fst (blob_delete rm h s)) = s_db s"
  "s_tmp (fst (blob_delete rm h s)) = s_tmp s"
  by (simp_all add: blob_delete_def)

lemma blob_delete_objs: "k \<noteq> h \<Longrightarrow> s_objs (fst (blob_delete rm h s)) k = s_objs s k"
  by (simp add: blob_delete_def)

lemma blob_delete_content_addressed:
  "content_addressed blake3 s \<Longrightarrow> content_addressed blake3 (fst (blob_delete rm h s))"
  by (auto simp: content_addressed_def blob_delete_def)

end
