(* ===== verification/Server_Gc.thy ===== *)
theory Server_Gc
  imports Server_Blobs
begin

text \<open>
  Retention garbage collection (\<open>savr-server/src/db.rs\<close>, from \<open>run_gc\<close> on): which versions of a
  game are kept, and the removal of the others with the blobs nothing refers to any more. The
  arrays \<open>owning\<close> and \<open>keep\<close> are lists indexed by the position of a version in sequence order,
  built by the loops of the source.
\<close>

record gc_stats =
  versions_pruned :: nat
  blobs_deleted :: nat

record gc_version =
  gv_id :: uuid
  gv_kind :: string
  gv_blob_hash :: string

definition gc_version_of :: "version_row \<Rightarrow> gc_version" where
  "gc_version_of r = \<lparr>gv_id = v_id r, gv_kind = kind_to_str (v_kind r), gv_blob_hash = v_blob_hash r\<rparr>"

definition is_full :: "gc_version \<Rightarrow> bool" where
  "is_full v = (gv_kind v = ''full'')"

section \<open>Which versions to keep\<close>

text \<open>Nearest preceding full for each version; a full owns itself.\<close>

fun owning_loop :: "nat \<Rightarrow> nat option \<Rightarrow> gc_version list \<Rightarrow> nat option list" where
  "owning_loop i last_full [] = []"
| "owning_loop i last_full (v # vs) =
     (if is_full v then Some i # owning_loop (Suc i) (Some i) vs
      else last_full # owning_loop (Suc i) last_full vs)"

definition owning :: "gc_version list \<Rightarrow> nat option list" where
  "owning vers = owning_loop 0 None vers"

text \<open>Head and unresolved conflict tips, each with its owning full.\<close>

definition is_protected :: "uuid option \<Rightarrow> uuid set \<Rightarrow> uuid set \<Rightarrow> gc_version \<Rightarrow> bool" where
  "is_protected head referenced resolved_losers v \<longleftrightarrow>
     (let is_head = (head = Some (gv_id v)); is_tip = (gv_id v \<notin> referenced) in
      is_head \<or> (is_tip \<and> gv_id v \<notin> resolved_losers))"

definition keep_protected ::
  "uuid option \<Rightarrow> uuid set \<Rightarrow> uuid set \<Rightarrow> gc_version list \<Rightarrow> bool list" where
  "keep_protected head referenced resolved_losers vers =
     fold (\<lambda>i keep.
        if is_protected head referenced resolved_losers (vers ! i)
        then (case owning vers ! i of
                Some f \<Rightarrow> (keep[i := True])[f := True]
              | None \<Rightarrow> keep[i := True])
        else keep)
       [0..<length vers] (replicate (length vers) False)"

text \<open>The newest fulls. \<open>nat\<close> subtraction is the \<open>saturating_sub\<close> of the source.\<close>

definition full_idxs :: "gc_version list \<Rightarrow> nat list" where
  "full_idxs vers = filter (\<lambda>i. is_full (vers ! i)) [0..<length vers]"

definition kept_fulls :: "retention \<Rightarrow> gc_version list \<Rightarrow> nat list" where
  "kept_fulls ret vers =
     (let keep_from = length (full_idxs vers) - unat (rt_full ret) in drop keep_from (full_idxs vers))"

definition mark_all :: "nat list \<Rightarrow> bool list \<Rightarrow> bool list" where
  "mark_all idxs keep = fold (\<lambda>i keep. keep[i := True]) idxs keep"

text \<open>The newest differentials of each kept full. The order in which the source's hash map is
  traversed does not matter, as each step only sets entries.\<close>

definition diffs_of_full :: "gc_version list \<Rightarrow> nat \<Rightarrow> nat list" where
  "diffs_of_full vers f =
     filter (\<lambda>i. \<not> is_full (vers ! i) \<and> owning vers ! i = Some f) [0..<length vers]"

definition newest_diffs :: "retention \<Rightarrow> gc_version list \<Rightarrow> nat \<Rightarrow> nat list" where
  "newest_diffs ret vers f =
     (let group = diffs_of_full vers f; start = length group - unat (rt_diff_per_full ret)
      in drop start group)"

definition keep_set ::
  "uuid option \<Rightarrow> uuid set \<Rightarrow> uuid set \<Rightarrow> retention \<Rightarrow> gc_version list \<Rightarrow> bool list" where
  "keep_set head referenced resolved_losers ret vers =
     (let keep1 = keep_protected head referenced resolved_losers vers;
          keep2 = mark_all (kept_fulls ret vers) keep1 in
      fold (\<lambda>f keep. if f \<in> set (kept_fulls ret vers) then mark_all (newest_diffs ret vers f) keep else keep)
        (full_idxs vers) keep2)"

section \<open>Removing a version\<close>

type_synonym gc_state = "store \<times> gc_stats"

definition clear_parents :: "uuid \<Rightarrow> db \<Rightarrow> db" where
  "clear_parents i d =
     d\<lparr>db_versions := map (\<lambda>r. if v_parent r = Some i then r\<lparr>v_parent := None\<rparr> else r) (db_versions d)\<rparr>"

definition delete_version_row :: "uuid \<Rightarrow> db \<Rightarrow> sqlx_error + db" where
  "delete_version_row i d =
     (if list_ex (\<lambda>g. g_head g = Some i) (db_games d) \<or> list_ex (\<lambda>r. v_parent r = Some i \<and> v_id r \<noteq> i) (db_versions d)
      then Inl ForeignKeyViolation
      else Inr (d\<lparr>db_versions := filter (\<lambda>r. v_id r \<noteq> i) (db_versions d)\<rparr>))"

definition delete_blob_row :: "string \<Rightarrow> db \<Rightarrow> sqlx_error + db" where
  "delete_blob_row h d =
     (if list_ex (\<lambda>r. v_blob_hash r = h) (db_versions d) then Inl ForeignKeyViolation
      else Inr (d\<lparr>db_blobs := (db_blobs d)(h := None)\<rparr>))"

text \<open>The transaction: the database after it, and whether the blob row went too.\<close>

definition deref_tx :: "uuid \<Rightarrow> string \<Rightarrow> db \<Rightarrow> sqlx_error + (db \<times> bool)" where
  "deref_tx i h d =
     bind_res (delete_version_row i (clear_parents i d)) (\<lambda>d1.
     let d2 = add_refcount (-1) h d1;
         refcount = map_option b_refcount (db_blobs d2 h);
         delete_blob = (case refcount of Some r \<Rightarrow> r \<le> 0 | None \<Rightarrow> False) in
     if delete_blob then bind_res (delete_blob_row h d2) (\<lambda>d3. Inr (d3, True))
     else Inr (d2, False))"

definition delete_version_and_deref ::
  "(string \<Rightarrow> bool) \<Rightarrow> uuid \<Rightarrow> string \<Rightarrow> gc_state \<Rightarrow> gc_state \<times> (api_error + unit)" where
  "delete_version_and_deref rm_fails i h st =
     (case st of (s, stats) \<Rightarrow>
        (case deref_tx i h (s_db s) of
           Inl e \<Rightarrow> ((s, stats), Inl (from_sqlx e))
         | Inr (d', delete_blob) \<Rightarrow>
             (let s1 = s\<lparr>s_db := d'\<rparr>;
                  stats1 = stats\<lparr>versions_pruned := versions_pruned stats + 1\<rparr> in
              if delete_blob
              then (case blob_delete rm_fails h s1 of
                      (s2, Inl e) \<Rightarrow> ((s2, stats1), Inl (internal (IoMessage e)))
                    | (s2, Inr _) \<Rightarrow> ((s2, stats1\<lparr>blobs_deleted := blobs_deleted stats1 + 1\<rparr>), Inr ()))
              else ((s1, stats1), Inr ()))))"

fun prune_loop ::
  "(string \<Rightarrow> bool) \<Rightarrow> (gc_version \<times> bool) list \<Rightarrow> gc_state \<Rightarrow> gc_state \<times> (api_error + unit)" where
  "prune_loop rm_fails [] st = (st, Inr ())"
| "prune_loop rm_fails ((v, keep) # vs) st =
     (if \<not> keep
      then (case delete_version_and_deref rm_fails (gv_id v) (gv_blob_hash v) st of
              (st', Inl e) \<Rightarrow> (st', Inl e)
            | (st', Inr _) \<Rightarrow> prune_loop rm_fails vs st')
      else prune_loop rm_fails vs st)"

definition gc_versions :: "db \<Rightarrow> uuid \<Rightarrow> uuid \<Rightarrow> gc_version list" where
  "gc_versions d account game = map gc_version_of (sort_key v_seq (versions_of d account game))"

definition referenced_ids :: "db \<Rightarrow> uuid \<Rightarrow> uuid \<Rightarrow> uuid set" where
  "referenced_ids d account game =
     set (List.map_filter v_parent (versions_of d account game))"

definition resolved_loser_ids :: "db \<Rightarrow> uuid \<Rightarrow> uuid \<Rightarrow> uuid set" where
  "resolved_loser_ids d account game =
     set (map rc_loser (filter (\<lambda>q. rc_game q = game \<and> rc_account q = account) (db_resolved d)))"

definition prune_game ::
  "(string \<Rightarrow> bool) \<Rightarrow> uuid \<Rightarrow> uuid \<Rightarrow> uuid option \<Rightarrow> retention \<Rightarrow> gc_state \<Rightarrow> gc_state \<times> (api_error + unit)" where
  "prune_game rm_fails account game head ret st =
     (let d = s_db (fst st); vers = gc_versions d account game in
      if vers = [] then (st, Inr ())
      else
        (let keep = keep_set head (referenced_ids d account game) (resolved_loser_ids d account game) ret vers
         in prune_loop rm_fails (zip vers keep) st))"

section \<open>The whole collection\<close>

definition config_retention :: "db \<Rightarrow> uuid \<Rightarrow> retention" where
  "config_retention d account =
     (case read_config d account of Some c \<Rightarrow> sc_retention c | None \<Rightarrow> retention_default)"

fun gc_games ::
  "(string \<Rightarrow> bool) \<Rightarrow> uuid \<Rightarrow> retention \<Rightarrow> uuid list \<Rightarrow> gc_state \<Rightarrow> gc_state \<times> (api_error + unit)" where
  "gc_games rm_fails account ret [] st = (st, Inr ())"
| "gc_games rm_fails account ret (game # games) st =
     (let head = Option.bind (find_game (s_db (fst st)) account game) g_head in
      case prune_game rm_fails account game head ret st of
        (st', Inl e) \<Rightarrow> (st', Inl e)
      | (st', Inr _) \<Rightarrow> gc_games rm_fails account ret games st')"

fun gc_accounts :: "(string \<Rightarrow> bool) \<Rightarrow> uuid list \<Rightarrow> gc_state \<Rightarrow> gc_state \<times> (api_error + unit)" where
  "gc_accounts rm_fails [] st = (st, Inr ())"
| "gc_accounts rm_fails (account # accounts) st =
     (let d = s_db (fst st);
          ret = config_retention d account;
          games = map g_id (filter (\<lambda>g. g_account g = account) (db_games d)) in
      case gc_games rm_fails account ret games st of
        (st', Inl e) \<Rightarrow> (st', Inl e)
      | (st', Inr _) \<Rightarrow> gc_accounts rm_fails accounts st')"

definition run_gc :: "(string \<Rightarrow> bool) \<Rightarrow> store \<Rightarrow> store \<times> (api_error + gc_stats)" where
  "run_gc rm_fails s =
     (case gc_accounts rm_fails (map a_id (db_accounts (s_db s)))
             (s, \<lparr>versions_pruned = 0, blobs_deleted = 0\<rparr>) of
        ((s', stats), Inl e) \<Rightarrow> (s', Inl e)
      | ((s', stats), Inr _) \<Rightarrow> (s', Inr stats))"

section \<open>What is kept\<close>

text \<open>The loops only set entries: an entry of the result is set if it was set before or if some
  iteration sets it.\<close>

lemma length_mark_all [simp]: "length (mark_all idxs keep) = length keep"
  unfolding mark_all_def by (induction idxs arbitrary: keep) simp_all

lemma nth_mark_all [simp]:
  "j < length keep \<Longrightarrow> mark_all idxs keep ! j \<longleftrightarrow> keep ! j \<or> j \<in> set idxs"
  unfolding mark_all_def
proof (induction idxs arbitrary: keep)
  case Nil
  then show ?case by simp
next
  case (Cons i idxs)
  then show ?case by (cases "i = j") simp_all
qed

lemma fold_marks:
  assumes "\<And>i k. length (m i k) = length k"
    and "\<And>i k. j < length k \<Longrightarrow> m i k ! j \<longleftrightarrow> k ! j \<or> sets i"
  shows "length (fold m xs k) = length k \<and>
         (j < length k \<longrightarrow> (fold m xs k ! j \<longleftrightarrow> k ! j \<or> (\<exists>i \<in> set xs. sets i)))"
proof (induction xs arbitrary: k)
  case Nil
  then show ?case by simp
next
  case (Cons i xs)
  have "j < length k \<longrightarrow> j < length (m i k)" by (simp add: assms)
  with Cons [of "m i k"] show ?case by (auto simp: assms)
qed

lemma length_owning [simp]: "length (owning vers) = length vers"
proof -
  have "length (owning_loop i l vs) = length vs" for i l vs
    by (induction i l vs rule: owning_loop.induct) simp_all
  then show ?thesis by (simp add: owning_def)
qed

text \<open>The owning full of a version is the last full at or before it.\<close>

lemma owning_loop_nth:
  "j < length vs \<Longrightarrow>
   owning_loop i l vs ! j =
     (case filter (\<lambda>k. is_full (vs ! k)) [0..<Suc j] of
        [] \<Rightarrow> l | fs \<Rightarrow> Some (i + last fs))"
proof (induction i l vs arbitrary: j rule: owning_loop.induct)
  case (1 i l)
  then show ?case by simp
next
  case (2 i l v vs)
  have shift: "filter (\<lambda>k. is_full ((v # vs) ! k)) [0..<Suc j] =
      (if is_full v then [0] else []) @ map Suc (filter (\<lambda>k. is_full (vs ! k)) [0..<j])"
    unfolding upt_rec [of 0 "Suc j"] map_Suc_upt [symmetric] by (simp add: filter_map o_def)
  show ?case
  proof (cases j)
    case 0
    then show ?thesis by simp
  next
    case (Suc j')
    with 2 shift show ?thesis
      by (auto simp: last_map split: list.splits if_splits)
  qed
qed

lemma le_last_sorted: "sorted xs \<Longrightarrow> k \<in> set xs \<Longrightarrow> xs \<noteq> [] \<Longrightarrow> k \<le> last xs" for xs :: "nat list"
  by (induction xs) auto

lemma owning_Some_iff:
  assumes "j < length vers"
  shows "owning vers ! j = Some f \<longleftrightarrow>
     f \<le> j \<and> is_full (vers ! f) \<and> (\<forall>k. f < k \<and> k \<le> j \<longrightarrow> \<not> is_full (vers ! k))"
proof -
  let ?fs = "filter (\<lambda>k. is_full (vers ! k)) [0..<Suc j]"
  have o: "owning vers ! j = (case ?fs of [] \<Rightarrow> None | fs \<Rightarrow> Some (last fs))"
    using owning_loop_nth [OF assms, of 0 None] by (simp only: owning_def add_0)
  have mem: "k \<in> set ?fs \<longleftrightarrow> k \<le> j \<and> is_full (vers ! k)" for k
    by (auto simp: less_Suc_eq_le simp del: upt_Suc)
  have sd: "sorted ?fs" "distinct ?fs" by (simp_all del: upt_Suc add: sorted_wrt_filter)
  have last_iff: "?fs \<noteq> [] \<Longrightarrow> last ?fs = f \<longleftrightarrow> f \<in> set ?fs \<and> (\<forall>k \<in> set ?fs. k \<le> f)"
  proof -
    assume ne: "?fs \<noteq> []"
    have "k \<le> last ?fs" if "k \<in> set ?fs" for k
      using sd(1) that ne by (rule le_last_sorted)
    with ne show ?thesis by (metis last_in_set order_antisym)
  qed
  show ?thesis
  proof (cases "?fs = []")
    case True
    with o have "owning vers ! j = None" by simp
    moreover have "\<not> (f \<le> j \<and> is_full (vers ! f))" using True mem [of f] by auto
    ultimately show ?thesis by auto
  next
    case False
    with o have "owning vers ! j = Some (last ?fs)" by (cases ?fs) (simp_all del: upt_Suc)
    with last_iff [OF False] show ?thesis unfolding mem by (auto simp: not_le [symmetric])
  qed
qed

text \<open>The suffix of a strictly ascending list holds the elements with few others above them.\<close>

lemma in_drop_ascending:
  fixes xs :: "nat list"
  assumes "sorted_wrt (<) xs"
  shows "x \<in> set (drop (length xs - n) xs) \<longleftrightarrow> x \<in> set xs \<and> length (filter (\<lambda>y. x < y) xs) < n"
proof (cases "x \<in> set xs")
  case True
  then obtain ys zs where xs: "xs = ys @ x # zs" by (meson split_list)
  with assms have lt: "\<forall>y \<in> set ys. y < x" "\<forall>z \<in> set zs. x < z" by (auto simp: sorted_wrt_append)
  then have "filter (\<lambda>y. x < y) ys = []" "filter (\<lambda>y. x < y) zs = zs"
    by (auto simp: filter_empty_conv filter_id_conv)
  then have l: "length (filter (\<lambda>y. x < y) xs) = length zs" by (simp add: xs)
  have "x \<in> set (drop (length xs - n) xs) \<longleftrightarrow> length xs - n \<le> length ys"
  proof
    assume a: "x \<in> set (drop (length xs - n) xs)"
    show "length xs - n \<le> length ys"
    proof (rule ccontr)
      assume "\<not> ?thesis"
      then obtain k where "length xs - n = Suc (length ys + k)"
        by (metis less_iff_Suc_add not_le)
      with a have "x \<in> set (drop (Suc (length ys + k)) (ys @ x # zs))" by (simp only: xs)
      then have "x \<in> set (drop k zs)" by simp
      with lt(2) show False by (auto dest: in_set_dropD)
    qed
  qed (simp add: xs)
  also have "\<dots> \<longleftrightarrow> length zs < n" by (auto simp: xs)
  finally show ?thesis using True l by simp
qed (auto dest: in_set_dropD)

lemma ascending_filter_upt [simp]: "sorted_wrt (<) (filter P [0..<n])"
  by (simp add: sorted_wrt_filter)

text \<open>How many positions after \<open>i\<close> satisfy a predicate.\<close>

definition count_after :: "(nat \<Rightarrow> bool) \<Rightarrow> nat \<Rightarrow> nat \<Rightarrow> nat" where
  "count_after P n i = length (filter (\<lambda>k. i < k \<and> P k) [0..<n])"

lemma in_kept_fulls:
  "f \<in> set (kept_fulls ret vers) \<longleftrightarrow>
     f < length vers \<and> is_full (vers ! f) \<and>
     count_after (\<lambda>k. is_full (vers ! k)) (length vers) f < unat (rt_full ret)"
  unfolding kept_fulls_def full_idxs_def count_after_def Let_def
  by (subst in_drop_ascending) (auto simp: conj_commute)

lemma in_newest_diffs:
  "i \<in> set (newest_diffs ret vers f) \<longleftrightarrow>
     i < length vers \<and> \<not> is_full (vers ! i) \<and> owning vers ! i = Some f \<and>
     count_after (\<lambda>k. \<not> is_full (vers ! k) \<and> owning vers ! k = Some f) (length vers) i
       < unat (rt_diff_per_full ret)"
  unfolding newest_diffs_def diffs_of_full_def count_after_def Let_def
  by (subst in_drop_ascending) (auto simp: conj_commute conj_left_commute)

lemma keep_protected_spec:
  "length (keep_protected head referenced losers vers) = length vers \<and>
   (j < length vers \<longrightarrow>
      (keep_protected head referenced losers vers ! j \<longleftrightarrow>
       (\<exists>i < length vers. is_protected head referenced losers (vers ! i) \<and>
          (i = j \<or> owning vers ! i = Some j))))"
proof -
  let ?m = "\<lambda>i keep.
        if is_protected head referenced losers (vers ! i)
        then (case owning vers ! i of
                Some f \<Rightarrow> (keep[i := True])[f := True]
              | None \<Rightarrow> keep[i := True])
        else keep"
  let ?sets = "\<lambda>i. is_protected head referenced losers (vers ! i) \<and> (i = j \<or> owning vers ! i = Some j)"
  have "length (?m i k) = length k" for i and k :: "bool list"
    by (simp split: option.split)
  moreover have "?m i k ! j \<longleftrightarrow> k ! j \<or> ?sets i" if "j < length k" for i and k :: "bool list"
    using that by (auto simp: nth_update_if split: option.split)
  ultimately have "length (fold ?m xs k) = length k \<and>
      (j < length k \<longrightarrow> (fold ?m xs k ! j \<longleftrightarrow> k ! j \<or> (\<exists>i \<in> set xs. ?sets i)))" for xs k
    by (rule fold_marks)
  from this [of "[0..<length vers]" "replicate (length vers) False"] show ?thesis
    unfolding keep_protected_def by auto
qed

lemma length_keep_set [simp]: "length (keep_set head referenced losers ret vers) = length vers"
  unfolding keep_set_def Let_def
  by (subst fold_marks [where j = 0 and sets = "\<lambda>f. f \<in> set (kept_fulls ret vers) \<and> 0 \<in> set (newest_diffs ret vers f)", THEN conjunct1])
    (auto simp: keep_protected_spec)

lemma keep_set_nth:
  assumes j: "j < length vers"
  shows "keep_set head referenced losers ret vers ! j \<longleftrightarrow>
     (\<exists>i < length vers. is_protected head referenced losers (vers ! i) \<and>
        (i = j \<or> owning vers ! i = Some j)) \<or>
     j \<in> set (kept_fulls ret vers) \<or>
     (\<exists>f \<in> set (kept_fulls ret vers). j \<in> set (newest_diffs ret vers f))"
proof -
  let ?m = "\<lambda>f keep. if f \<in> set (kept_fulls ret vers) then mark_all (newest_diffs ret vers f) keep else keep"
  let ?sets = "\<lambda>f. f \<in> set (kept_fulls ret vers) \<and> j \<in> set (newest_diffs ret vers f)"
  let ?k = "mark_all (kept_fulls ret vers) (keep_protected head referenced losers vers)"
  have "length (fold ?m (full_idxs vers) ?k) = length ?k \<and>
      (j < length ?k \<longrightarrow> (fold ?m (full_idxs vers) ?k ! j \<longleftrightarrow> ?k ! j \<or> (\<exists>f \<in> set (full_idxs vers). ?sets f)))"
    by (rule fold_marks) auto
  moreover have "set (kept_fulls ret vers) \<subseteq> set (full_idxs vers)"
    by (auto simp: kept_fulls_def Let_def dest: in_set_dropD)
  ultimately show ?thesis
    using j keep_protected_spec [of head referenced losers vers j]
    unfolding keep_set_def Let_def by auto
qed

section \<open>Removing a version keeps the store well-formed\<close>

definition unlink :: "uuid \<Rightarrow> version_row \<Rightarrow> version_row" where
  "unlink i r = (if v_parent r = Some i then r\<lparr>v_parent := None\<rparr> else r)"

definition heads :: "db \<Rightarrow> uuid set" where
  "heads d = {h. \<exists>g \<in> set (db_games d). g_head g = Some h}"

definition without :: "uuid \<Rightarrow> db \<Rightarrow> db" where
  "without i d = d\<lparr>db_versions := filter (\<lambda>r. v_id r \<noteq> i) (map (unlink i) (db_versions d))\<rparr>"

lemma unlink_simps [simp]:
  "v_id (unlink i r) = v_id r" "v_game_id (unlink i r) = v_game_id r"
  "v_device_id (unlink i r) = v_device_id r" "v_kind (unlink i r) = v_kind r"
  "v_files (unlink i r) = v_files r" "v_blob_hash (unlink i r) = v_blob_hash r"
  "v_bytes (unlink i r) = v_bytes r" "v_seq (unlink i r) = v_seq r"
  "v_created_at (unlink i r) = v_created_at r" "vr_account (unlink i r) = vr_account r"
  "v_parent (unlink i r) = (if v_parent r = Some i then None else v_parent r)"
  by (simp_all add: unlink_def)

lemma delete_version_row_clear:
  assumes "i \<notin> heads d"
  shows "delete_version_row i (clear_parents i d) = Inr (without i d)"
proof -
  have "clear_parents i d = d\<lparr>db_versions := map (unlink i) (db_versions d)\<rparr>"
    by (simp add: clear_parents_def unlink_def)
  moreover have "\<not> list_ex (\<lambda>g. g_head g = Some i) (db_games d)"
    using assms by (auto simp: heads_def list_ex_iff)
  moreover have "\<not> list_ex (\<lambda>r. v_parent r = Some i \<and> v_id r \<noteq> i) (map (unlink i) (db_versions d))"
    by (auto simp: list_ex_iff)
  ultimately show ?thesis by (simp add: delete_version_row_def without_def)
qed

lemma without_simps [simp]:
  "db_games (without i d) = db_games d" "db_devices (without i d) = db_devices d"
  "db_blobs (without i d) = db_blobs d" "db_resolved (without i d) = db_resolved d"
  "db_accounts (without i d) = db_accounts d" "db_config (without i d) = db_config d"
  "db_pairing (without i d) = db_pairing d"
  by (simp_all add: without_def)

lemma without_rows: "set (db_versions (without i d)) = unlink i ` {r \<in> set (db_versions d). v_id r \<noteq> i}"
  by (auto simp: without_def)

lemma game_keys_without [simp]: "game_keys (without i d) = game_keys d"
  by (simp add: game_keys_def)

lemma version_ids_without [simp]: "version_ids (without i d) = version_ids d - {i}"
  unfolding version_ids_def without_rows image_image unlink_simps by auto

lemma versions_wf_without:
  assumes "versions_wf d"
  shows "versions_wf (without i d)"
proof -
  have keys: "map k (db_versions (without i d)) = map k (filter (\<lambda>r. v_id r \<noteq> i) (db_versions d))"
    if "\<And>r. k (unlink i r) = k r" for k :: "version_row \<Rightarrow> 'c"
    by (simp add: without_def filter_map o_def that)
  have "set_option (v_parent (unlink i r)) \<subseteq> version_ids d - {i}"
    if "r \<in> set (db_versions d)" for r
    using assms that by (cases "v_parent r") (auto simp: versions_wf_def)
  then show ?thesis
    using assms unfolding versions_wf_def version_ids_without game_keys_without
    by (auto simp: keys distinct_map_filter_key without_rows)
qed

lemma games_wf_without:
  "games_wf d \<Longrightarrow> i \<notin> heads d \<Longrightarrow> games_wf (without i d)"
  unfolding games_wf_def without_simps without_rows heads_def by (auto simp: image_iff) (metis unlink_simps(1,2,10))

lemma references_without:
  assumes "versions_wf d" and "r \<in> set (db_versions d)" and "v_id r = i"
  shows "references h (without i d) + (if v_blob_hash r = h then 1 else 0) = references h d"
proof -
  obtain us vs where rs: "db_versions d = us @ r # vs" using assms(2) by (meson split_list)
  have "i \<notin> v_id ` set us" "i \<notin> v_id ` set vs"
    using assms by (auto simp: versions_wf_def rs)
  then have "filter (\<lambda>r. v_id r \<noteq> i) us = us" "filter (\<lambda>r. v_id r \<noteq> i) vs = vs"
    by (auto simp: filter_id_conv)
  then show ?thesis using assms(3)
    by (simp add: references_def without_def filter_map o_def rs)
qed

text \<open>
  The transaction succeeds on a row that is no head, and leaves a well-formed database without
  the row, with the count of its blob one lower, and without the blob if that was the last use.
\<close>

lemma deref_tx_ok:
  assumes wf: "db_wf d" and r: "r \<in> set (db_versions d)" "v_id r = i" "v_blob_hash r = h"
    and head: "i \<notin> heads d"
  obtains d' where "deref_tx i h d = Inr (d', references h d = 1)" and "db_wf d'"
    and "db_versions d' = db_versions (without i d)" and "db_games d' = db_games d"
    and "db_accounts d' = db_accounts d" and "db_config d' = db_config d"
    and "db_resolved d' = db_resolved d"
    and "dom (db_blobs d') = dom (db_blobs d) - (if references h d = 1 then {h} else {})"
proof -
  have wfs: "versions_wf d" "games_wf d" "refcount_wf d" using wf by (simp_all add: db_wf_def)
  obtain b where b: "db_blobs d h = Some b" using wfs(1) r by (auto simp: versions_wf_def)
  have n: "references h (without i d) + 1 = references h d"
    using references_without [OF wfs(1) r(1,2), of h] r(3) by simp
  have rc: "b_refcount b = int (references h d)" using wfs(3) b by (simp add: refcount_wf_def)
  let ?d2 = "add_refcount (-1) h (without i d)"
  have vs: "versions_wf ?d2" by (rule versions_wf_cong [OF versions_wf_without [OF wfs(1)]])
      (simp_all add: game_keys_def)
  have gs: "games_wf ?d2" using games_wf_without [OF wfs(2) head] by (simp add: games_wf_def)
  have cs: "b_refcount c = int (references k ?d2)" if "db_blobs ?d2 k = Some c" for k c
  proof (cases "k = h")
    case True
    with that b rc n show ?thesis by (auto simp: add_refcount_def references_def without_def)
  next
    case False
    have "references k (without i d) = references k d"
      using references_without [OF wfs(1) r(1,2), of k] r(3) False by simp
    then show ?thesis using that False wfs(3) by (simp add: add_refcount_def refcount_wf_def references_def)
  qed
  have tx: "deref_tx i h d =
      (if references h d = 1 then bind_res (delete_blob_row h ?d2) (\<lambda>d3. Inr (d3, True)) else Inr (?d2, False))"
    using n rc b
    by (auto simp: deref_tx_def delete_version_row_clear [OF head] Let_def add_refcount_def)
  show thesis
  proof (cases "references h d = 1")
    case False
    show thesis
    proof (rule that [of ?d2])
      show "db_wf ?d2" using vs gs cs by (simp add: db_wf_def refcount_wf_def)
    qed (use tx False in auto)
  next
    case True
    let ?d3 = "?d2\<lparr>db_blobs := (db_blobs ?d2)(h := None)\<rparr>"
    from True n have none: "\<forall>r \<in> set (db_versions (without i d)). v_blob_hash r \<noteq> h"
      by (simp add: references_def filter_empty_conv)
    then have "delete_blob_row h ?d2 = Inr ?d3" by (auto simp: delete_blob_row_def list_ex_iff)
    show thesis
    proof (rule that [of ?d3])
      have "versions_wf ?d3"
        using vs none by (simp add: versions_wf_def version_ids_def game_keys_def)
      moreover have "games_wf ?d3" using gs by (simp add: games_wf_def)
      moreover have "refcount_wf ?d3" using cs by (simp add: refcount_wf_def references_def)
      ultimately show "db_wf ?d3" by (simp add: db_wf_def)
    qed (use tx True \<open>delete_blob_row h ?d2 = Inr ?d3\<close> in auto)
  qed
qed

section \<open>What a collection leaves\<close>

text \<open>\<open>shrinks d d'\<close>: only versions, links to them and blobs went from \<open>d\<close> to \<open>d'\<close>.\<close>

definition shrinks :: "db \<Rightarrow> db \<Rightarrow> bool" where
  "shrinks d d' \<longleftrightarrow>
     db_games d' = db_games d \<and> db_accounts d' = db_accounts d \<and> db_config d' = db_config d \<and>
     db_resolved d' = db_resolved d \<and>
     (\<forall>r' \<in> set (db_versions d'). \<exists>r \<in> set (db_versions d). r' = r \<or> r' = r\<lparr>v_parent := None\<rparr>)"

lemma shrinks_refl [simp]: "shrinks d d"
  by (auto simp: shrinks_def)

lemma shrinks_trans:
  assumes "shrinks d e" and "shrinks e f"
  shows "shrinks d f"
proof -
  have "\<exists>r \<in> set (db_versions d). r'' = r \<or> r'' = r\<lparr>v_parent := None\<rparr>"
    if "r'' \<in> set (db_versions f)" for r''
  proof -
    from assms(2) that obtain r' where r': "r' \<in> set (db_versions e)" "r'' = r' \<or> r'' = r'\<lparr>v_parent := None\<rparr>"
      by (auto simp: shrinks_def)
    with assms(1) obtain r where "r \<in> set (db_versions d)" "r' = r \<or> r' = r\<lparr>v_parent := None\<rparr>"
      by (auto simp: shrinks_def)
    with r'(2) have "r'' = r \<or> r'' = r\<lparr>v_parent := None\<rparr>" by auto
    with \<open>r \<in> set (db_versions d)\<close> show ?thesis by blast
  qed
  with assms show ?thesis by (simp add: shrinks_def)
qed

lemma shrinks_without: "db_versions d' = db_versions (without i d) \<Longrightarrow> db_games d' = db_games d \<Longrightarrow>
  db_accounts d' = db_accounts d \<Longrightarrow> db_config d' = db_config d \<Longrightarrow> db_resolved d' = db_resolved d \<Longrightarrow>
  shrinks d d'"
  by (auto simp: shrinks_def without_rows unlink_def)

lemma shrinks_row:
  assumes "shrinks d d'" and "r' \<in> set (db_versions d')"
  obtains r where "r \<in> set (db_versions d)" "v_id r' = v_id r" "v_game_id r' = v_game_id r"
    "vr_account r' = vr_account r" "v_kind r' = v_kind r" "v_blob_hash r' = v_blob_hash r" "v_seq r' = v_seq r"
    "v_files r' = v_files r" "v_parent r' = v_parent r \<or> v_parent r' = None"
  using assms unfolding shrinks_def by fastforce

lemma shrinks_heads: "shrinks d d' \<Longrightarrow> heads d' = heads d"
  by (simp add: shrinks_def heads_def)

text \<open>A version the collector may remove: its row is there and it is nobody's head.\<close>

definition prunable :: "db \<Rightarrow> gc_version \<Rightarrow> bool" where
  "prunable d v \<longleftrightarrow>
     (\<exists>r \<in> set (db_versions d). v_id r = gv_id v \<and> v_blob_hash r = gv_blob_hash v) \<and> gv_id v \<notin> heads d"

lemma delete_version_and_deref_ok:
  assumes wf: "store_wf blake3 s" and v: "prunable (s_db s) v"
  obtains s' stats' res where
      "delete_version_and_deref rm_fails (gv_id v) (gv_blob_hash v) (s, stats) = ((s', stats'), res)"
    and "store_wf blake3 s'" and "shrinks (s_db s) (s_db s')"
    and "db_versions (s_db s') = db_versions (without (gv_id v) (s_db s))"
    and "versions_pruned stats' = versions_pruned stats + 1"
    and "\<not> rm_fails (gv_blob_hash v) \<Longrightarrow> res = Inr ()"
proof -
  let ?h = "gv_blob_hash v" and ?d = "s_db s"
  from v obtain r where r: "r \<in> set (db_versions ?d)" "v_id r = gv_id v" "v_blob_hash r = ?h"
    and head: "gv_id v \<notin> heads ?d" by (auto simp: prunable_def)
  have dwf: "db_wf ?d" and bk: "dom (db_blobs ?d) \<subseteq> dom (s_objs s)" and ca: "content_addressed blake3 s"
    using wf by (simp_all add: store_wf_def blobs_backed_def)
  obtain d' where tx: "deref_tx (gv_id v) ?h ?d = Inr (d', references ?h ?d = 1)"
    and d': "db_wf d'" "db_versions d' = db_versions (without (gv_id v) ?d)" "db_games d' = db_games ?d"
      "db_accounts d' = db_accounts ?d" "db_config d' = db_config ?d" "db_resolved d' = db_resolved ?d"
    and blobs: "dom (db_blobs d') = dom (db_blobs ?d) - (if references ?h ?d = 1 then {?h} else {})"
    using deref_tx_ok [OF dwf r head] by blast
  have sh: "shrinks ?d d'" using d'(2-6) by (rule shrinks_without)
  let ?s1 = "s\<lparr>s_db := d'\<rparr>" and ?st1 = "stats\<lparr>versions_pruned := versions_pruned stats + 1\<rparr>"
  show thesis
  proof (cases "references ?h ?d = 1")
    case False
    show thesis
    proof (rule that)
      show "delete_version_and_deref rm_fails (gv_id v) ?h (s, stats) = ((?s1, ?st1), Inr ())"
        using False by (simp add: delete_version_and_deref_def tx Let_def)
      show "store_wf blake3 ?s1"
        using d'(1) bk ca blobs False by (simp add: store_wf_def blobs_backed_def content_addressed_def)
    qed (simp_all add: d' sh)
  next
    case True
    let ?s2 = "fst (blob_delete rm_fails ?h ?s1)" and ?res = "snd (blob_delete rm_fails ?h ?s1)"
    show thesis
    proof (rule that)
      show "delete_version_and_deref rm_fails (gv_id v) ?h (s, stats) =
          ((?s2, case ?res of Inl _ \<Rightarrow> ?st1 | Inr _ \<Rightarrow> ?st1\<lparr>blobs_deleted := blobs_deleted ?st1 + 1\<rparr>),
           case ?res of Inl e \<Rightarrow> Inl (internal (IoMessage e)) | Inr _ \<Rightarrow> Inr ())"
        by (simp add: delete_version_and_deref_def tx True Let_def split: sum.splits prod.splits)
      have "content_addressed blake3 ?s1" using ca by (simp add: content_addressed_def)
      then have "content_addressed blake3 ?s2" by (rule blob_delete_content_addressed)
      moreover have "dom (db_blobs d') \<subseteq> dom (s_objs ?s2)"
        using bk blobs True blob_delete_objs [of _ ?h rm_fails ?s1] by (auto simp: dom_def)
      ultimately show "store_wf blake3 ?s2" using d'(1) by (simp add: store_wf_def blobs_backed_def)
    qed (auto simp: d' sh blob_delete_def split: sum.splits)
  qed
qed

lemma prune_loop_ok:
  assumes "store_wf blake3 s" and "distinct (map (gv_id \<circ> fst) vs)"
    and "\<forall>(v, keep) \<in> set vs. \<not> keep \<longrightarrow> prunable (s_db s) v"
  shows "\<exists>s' stats' res. prune_loop rm_fails vs (s, stats) = ((s', stats'), res) \<and>
     store_wf blake3 s' \<and> shrinks (s_db s) (s_db s') \<and>
     version_ids (s_db s) - {gv_id v |v. (v, False) \<in> set vs} \<subseteq> version_ids (s_db s') \<and>
     (is_ok res \<longrightarrow> version_ids (s_db s') = version_ids (s_db s) - {gv_id v |v. (v, False) \<in> set vs} \<and>
        versions_pruned stats' = versions_pruned stats + length (filter (\<lambda>(v, keep). \<not> keep) vs)) \<and>
     ((\<forall>h. \<not> rm_fails h) \<longrightarrow> is_ok res)"
  using assms
proof (induction vs arbitrary: s stats)
  case Nil
  then show ?case by simp
next
  case (Cons x vs)
  obtain v keep where x: "x = (v, keep)" by (cases x)
  show ?case
  proof (cases keep)
    case True
    then show ?thesis using Cons.IH [of s stats] Cons.prems x by (auto 0 3)
  next
    case False
    then have pr: "prunable (s_db s) v" using Cons.prems(3) x by auto
    obtain s1 stats1 res1 where
      del: "delete_version_and_deref rm_fails (gv_id v) (gv_blob_hash v) (s, stats) = ((s1, stats1), res1)"
      and s1: "store_wf blake3 s1" "shrinks (s_db s) (s_db s1)"
        "db_versions (s_db s1) = db_versions (without (gv_id v) (s_db s))"
      and count: "versions_pruned stats1 = versions_pruned stats + 1"
      and ok: "\<not> rm_fails (gv_blob_hash v) \<Longrightarrow> res1 = Inr ()"
      using delete_version_and_deref_ok [OF Cons.prems(1) pr] by metis
    have ids1: "version_ids (s_db s1) = version_ids (s_db s) - {gv_id v}"
      using s1(3) version_ids_without [of "gv_id v" "s_db s"] by (simp add: version_ids_def)
    show ?thesis
    proof (cases res1)
      case (Inl e)
      then show ?thesis
        using x False del s1 ok ids1 by (auto 0 3)
    next
      case (Inr u)
      have "prunable (s_db s1) w" if w: "(w, False) \<in> set vs" for w
      proof -
        have "gv_id w \<noteq> gv_id v" using Cons.prems(2) w x by (force simp: image_iff)
        moreover have "prunable (s_db s) w" using Cons.prems(3) w by auto
        ultimately show ?thesis
          unfolding prunable_def s1(3) shrinks_heads [OF s1(2)] without_rows by auto
      qed
      then have "\<forall>(w, k) \<in> set vs. \<not> k \<longrightarrow> prunable (s_db s1) w" by auto
      then obtain s' stats' res where IH: "prune_loop rm_fails vs (s1, stats1) = ((s', stats'), res)"
        "store_wf blake3 s'" "shrinks (s_db s1) (s_db s')"
        "version_ids (s_db s1) - {gv_id v |v. (v, False) \<in> set vs} \<subseteq> version_ids (s_db s')"
        "is_ok res \<longrightarrow> version_ids (s_db s') = version_ids (s_db s1) - {gv_id v |v. (v, False) \<in> set vs} \<and>
          versions_pruned stats' = versions_pruned stats1 + length (filter (\<lambda>(v, keep). \<not> keep) vs)"
        "(\<forall>h. \<not> rm_fails h) \<longrightarrow> is_ok res"
        using Cons.IH [OF s1(1), of stats1] Cons.prems(2) by auto
      have split: "{gv_id w |w. (w, False) \<in> set (x # vs)} = insert (gv_id v) {gv_id w |w. (w, False) \<in> set vs}"
        using x False by auto
      have "prune_loop rm_fails (x # vs) (s, stats) = ((s', stats'), res)"
        using x False del Inr IH(1) by simp
      moreover from s1(2) IH(3) have "shrinks (s_db s) (s_db s')" by (rule shrinks_trans)
      moreover have "is_ok res \<longrightarrow> versions_pruned stats' =
          versions_pruned stats + length (filter (\<lambda>(v, keep). \<not> keep) (x # vs))"
        using IH(5) count x False by simp
      ultimately show ?thesis
        unfolding split using IH(2,4,5,6) ids1 by (intro exI [of _ s'] exI [of _ stats'] exI [of _ res]) blast
    qed
  qed
qed

text \<open>The versions a collection must not touch: heads, and tips whose conflict is not resolved.\<close>

definition protected_row :: "db \<Rightarrow> version_row \<Rightarrow> bool" where
  "protected_row d r \<longleftrightarrow>
     v_id r \<in> heads d \<or>
     v_id r \<notin> referenced_ids d (vr_account r) (v_game_id r) \<and>
     v_id r \<notin> resolved_loser_ids d (vr_account r) (v_game_id r)"

definition collects :: "db \<Rightarrow> db \<Rightarrow> bool" where
  "collects d d' \<longleftrightarrow>
     shrinks d d' \<and> (\<forall>r \<in> set (db_versions d). protected_row d r \<longrightarrow> v_id r \<in> version_ids d')"

lemma collects_refl [simp]: "collects d d"
  by (simp add: collects_def version_ids_def)

lemma referenced_ids_iff:
  "p \<in> referenced_ids d a g \<longleftrightarrow>
   (\<exists>r \<in> set (db_versions d). v_game_id r = g \<and> vr_account r = a \<and> v_parent r = Some p)"
  by (force simp: referenced_ids_def versions_of_def map_filter_def)

lemma shrinks_referenced: "shrinks d d' \<Longrightarrow> referenced_ids d' a g \<subseteq> referenced_ids d a g"
proof
  fix p
  assume sh: "shrinks d d'" and "p \<in> referenced_ids d' a g"
  then obtain r' where r': "r' \<in> set (db_versions d')" "v_game_id r' = g" "vr_account r' = a" "v_parent r' = Some p"
    by (auto simp: referenced_ids_iff)
  from sh r'(1) obtain r where "r \<in> set (db_versions d)" "v_game_id r' = v_game_id r" "vr_account r' = vr_account r"
    "v_parent r' = v_parent r \<or> v_parent r' = None" by (rule shrinks_row)
  with r' show "p \<in> referenced_ids d a g" by (auto simp: referenced_ids_iff)
qed

text \<open>A protected version that is still there is still protected.\<close>

lemma shrinks_protected:
  assumes "shrinks d d'" and "versions_wf d" and "r \<in> set (db_versions d)" and "protected_row d r"
    and "v_id r \<in> version_ids d'"
  obtains r' where "r' \<in> set (db_versions d')" "v_id r' = v_id r" "protected_row d' r'"
proof -
  from assms(5) obtain r' where r': "r' \<in> set (db_versions d')" "v_id r' = v_id r" by (auto simp: version_ids_def)
  from assms(1) r'(1) obtain r0 where r0: "r0 \<in> set (db_versions d)" "v_id r' = v_id r0"
    "v_game_id r' = v_game_id r0" "vr_account r' = vr_account r0" by (rule shrinks_row)
  have "r0 = r" using assms(2,3) r0 r' distinct_map_inj [of v_id "db_versions d"]
    by (simp add: versions_wf_def)
  with r0 have same: "v_game_id r' = v_game_id r" "vr_account r' = vr_account r" by simp_all
  have "resolved_loser_ids d' = resolved_loser_ids d"
    using assms(1) by (simp add: resolved_loser_ids_def shrinks_def fun_eq_iff)
  with assms(4) shrinks_referenced [OF assms(1)] have "protected_row d' r'"
    unfolding protected_row_def same r'(2) shrinks_heads [OF assms(1)] by auto
  with r' show thesis by (rule that)
qed

lemma collects_trans:
  assumes "versions_wf d" and "collects d e" and "collects e f"
  shows "collects d f"
proof -
  have "v_id r \<in> version_ids f" if r: "r \<in> set (db_versions d)" "protected_row d r" for r
  proof -
    from assms(2) r have "shrinks d e" "v_id r \<in> version_ids e" by (auto simp: collects_def)
    with assms(1) r obtain r' where "r' \<in> set (db_versions e)" "v_id r' = v_id r" "protected_row e r'"
      by (meson shrinks_protected)
    with assms(3) show ?thesis by (metis collects_def)
  qed
  with assms show ?thesis by (auto simp: collects_def intro: shrinks_trans)
qed

lemma gc_versions_rows: "set (gc_versions d a g) = gc_version_of ` set (versions_of d a g)"
  by (simp add: gc_versions_def)

lemma gc_versions_distinct:
  "versions_wf d \<Longrightarrow> distinct (map gv_id (gc_versions d a g))"
proof -
  assume "versions_wf d"
  then have "distinct (map v_id (versions_of d a g))"
    by (simp add: versions_wf_def versions_of_def distinct_map_filter_key)
  then have "distinct (map v_id (sort_key v_seq (versions_of d a g)))"
    by (simp add: distinct_map)
  then show ?thesis by (simp add: gc_versions_def gc_version_of_def o_def)
qed

lemma head_of_game:
  assumes "db_wf d" and "r \<in> set (db_versions d)" and "v_id r \<in> heads d"
  shows "Option.bind (find_game d (vr_account r) (v_game_id r)) g_head = Some (v_id r)"
proof -
  from assms(3) obtain gr where gr: "gr \<in> set (db_games d)" "g_head gr = Some (v_id r)"
    by (auto simp: heads_def)
  with assms(1) obtain r' where r': "r' \<in> set (db_versions d)" "v_id r' = v_id r" "v_game_id r' = g_id gr"
    "vr_account r' = g_account gr" by (rule head_row)
  have "r' = r" using assms r'(1,2) distinct_map_inj [of v_id "db_versions d"]
    by (simp add: db_wf_def versions_wf_def)
  with r' gr assms(1) have "find_game d (vr_account r) (v_game_id r) = Some gr"
    by (simp add: db_wf_def find_game_wf)
  with gr show ?thesis by simp
qed

text \<open>What a game's collection removes is prunable and unprotected.\<close>

lemma unkept_version:
  assumes wf: "db_wf d"
    and v: "(v, False) \<in> set (zip (gc_versions d a g)
       (keep_set (Option.bind (find_game d a g) g_head) (referenced_ids d a g)
          (resolved_loser_ids d a g) ret (gc_versions d a g)))"
  obtains r where "r \<in> set (db_versions d)" "v = gc_version_of r" "\<not> protected_row d r" "prunable d v"
proof -
  let ?vs = "gc_versions d a g" and ?hd = "Option.bind (find_game d a g) g_head"
  from v obtain i where i: "i < length ?vs" "v = ?vs ! i"
    "\<not> keep_set ?hd (referenced_ids d a g) (resolved_loser_ids d a g) ret ?vs ! i"
    by (auto simp: set_zip)
  then have np: "\<not> is_protected ?hd (referenced_ids d a g) (resolved_loser_ids d a g) v"
    by (auto simp: keep_set_nth)
  from i(1,2) have "v \<in> set ?vs" by simp
  then obtain r where r: "r \<in> set (db_versions d)" "v_game_id r = g" "vr_account r = a" "v = gc_version_of r"
    by (auto simp: gc_versions_rows versions_of_def)
  have "v_id r \<notin> heads d"
    using head_of_game [OF wf r(1)] np r(2-) by (auto simp: is_protected_def gc_version_of_def)
  moreover from this np r(2-) have "\<not> protected_row d r"
    by (auto simp: protected_row_def is_protected_def gc_version_of_def Let_def)
  ultimately show thesis using r by (intro that [of r]) (auto simp: prunable_def gc_version_of_def)
qed

text \<open>What each level of the collection guarantees: of its state before and after, and its result.\<close>

definition gc_guarantee ::
  "(byte list \<Rightarrow> blake3_hash) \<Rightarrow> (string \<Rightarrow> bool) \<Rightarrow> gc_state \<Rightarrow> gc_state \<times> (api_error + unit) \<Rightarrow> bool" where
  "gc_guarantee blake3 rm_fails st out \<longleftrightarrow>
     store_wf blake3 (fst (fst out)) \<and> collects (s_db (fst st)) (s_db (fst (fst out))) \<and>
     ((\<forall>h. \<not> rm_fails h) \<longrightarrow> is_ok (snd out))"

lemma gc_guarantee_then:
  assumes "store_wf blake3 (fst st)" and "gc_guarantee blake3 rm_fails st (st1, r1)"
    and "gc_guarantee blake3 rm_fails st1 out"
  shows "gc_guarantee blake3 rm_fails st out"
  using assms collects_trans [of "s_db (fst st)" "s_db (fst st1)" "s_db (fst (fst out))"]
  by (auto simp: gc_guarantee_def store_wf_def db_wf_def)

lemma prune_game_ok:
  assumes wf: "store_wf blake3 (fst st)"
  shows "gc_guarantee blake3 rm_fails st
     (prune_game rm_fails a g (Option.bind (find_game (s_db (fst st)) a g) g_head) ret st)"
proof -
  obtain s stats where st: "st = (s, stats)" by (cases st)
  let ?d = "s_db s"
  let ?vs = "gc_versions ?d a g" and ?hd = "Option.bind (find_game ?d a g) g_head"
  let ?keep = "keep_set ?hd (referenced_ids ?d a g) (resolved_loser_ids ?d a g) ret ?vs"
  have dwf: "db_wf ?d" "versions_wf ?d" using wf st by (simp_all add: store_wf_def db_wf_def)
  have dist: "distinct (map (gv_id \<circ> fst) (zip ?vs ?keep))"
    using gc_versions_distinct [OF dwf(2), of a g] by (simp flip: map_map)
  have pr: "\<forall>(v, keep) \<in> set (zip ?vs ?keep). \<not> keep \<longrightarrow> prunable ?d v"
    using unkept_version [OF dwf(1)] by (auto; metis)
  obtain s' stats' res where run: "prune_loop rm_fails (zip ?vs ?keep) (s, stats) = ((s', stats'), res)"
    and s': "store_wf blake3 s'" "shrinks ?d (s_db s')"
    and ids: "version_ids ?d - {gv_id v |v. (v, False) \<in> set (zip ?vs ?keep)} \<subseteq> version_ids (s_db s')"
    and ok: "(\<forall>h. \<not> rm_fails h) \<longrightarrow> is_ok res"
    using prune_loop_ok [of blake3 s "zip ?vs ?keep" rm_fails stats, OF _ dist pr] wf st by auto
  have "v_id r \<in> version_ids (s_db s')" if r: "r \<in> set (db_versions ?d)" "protected_row ?d r" for r
  proof -
    have "v_id r \<notin> {gv_id v |v. (v, False) \<in> set (zip ?vs ?keep)}"
    proof clarify
      fix v assume v: "v_id r = gv_id v" "(v, False) \<in> set (zip ?vs ?keep)"
      from dwf(1) v(2) obtain r0 where r0: "r0 \<in> set (db_versions ?d)" "v = gc_version_of r0" "\<not> protected_row ?d r0"
        by (rule unkept_version)
      have "distinct (map v_id (db_versions ?d))" using dwf(2) by (simp add: versions_wf_def)
      moreover have "v_id r0 = v_id r" using v(1) r0(2) by (simp add: gc_version_of_def)
      ultimately have "r0 = r" using r0(1) r(1) by (metis distinct_map_inj)
      with r0(3) r(2) show False by simp
    qed
    with ids r show ?thesis by (auto simp: version_ids_def)
  qed
  with run s' ok wf show ?thesis
    by (simp add: st prune_game_def Let_def gc_guarantee_def collects_def version_ids_def)
qed

lemma gc_games_ok:
  "store_wf blake3 (fst st) \<Longrightarrow> gc_guarantee blake3 rm_fails st (gc_games rm_fails a ret gs st)"
proof (induction gs arbitrary: st)
  case Nil
  then show ?case by (simp add: gc_guarantee_def)
next
  case (Cons g gs)
  let ?r = "prune_game rm_fails a g (Option.bind (find_game (s_db (fst st)) a g) g_head) ret st"
  have G: "gc_guarantee blake3 rm_fails st ?r" using Cons.prems by (rule prune_game_ok)
  obtain st1 r1 where r: "?r = (st1, r1)" by (cases ?r)
  with G have wf1: "store_wf blake3 (fst st1)" by (simp add: gc_guarantee_def)
  show ?case
  proof (cases r1)
    case (Inl e)
    with r G show ?thesis by simp
  next
    case (Inr u)
    with r gc_guarantee_then [OF Cons.prems G [unfolded r] Cons.IH [OF wf1]] show ?thesis by simp
  qed
qed

lemma gc_accounts_ok:
  "store_wf blake3 (fst st) \<Longrightarrow> gc_guarantee blake3 rm_fails st (gc_accounts rm_fails as st)"
proof (induction as arbitrary: st)
  case Nil
  then show ?case by (simp add: gc_guarantee_def)
next
  case (Cons a as)
  let ?d = "s_db (fst st)"
  let ?r = "gc_games rm_fails a (config_retention ?d a) (map g_id (filter (\<lambda>g. g_account g = a) (db_games ?d))) st"
  have G: "gc_guarantee blake3 rm_fails st ?r" using Cons.prems by (rule gc_games_ok)
  obtain st1 r1 where r: "?r = (st1, r1)" by (cases ?r)
  with G have wf1: "store_wf blake3 (fst st1)" by (simp add: gc_guarantee_def)
  show ?case
  proof (cases r1)
    case (Inl e)
    with r G show ?thesis by simp
  next
    case (Inr u)
    with r gc_guarantee_then [OF Cons.prems G [unfolded r] Cons.IH [OF wf1]] show ?thesis by simp
  qed
qed

lemma run_gc_ok:
  assumes "store_wf blake3 s"
  shows "store_wf blake3 (fst (run_gc rm_fails s))"
    and "collects (s_db s) (s_db (fst (run_gc rm_fails s)))"
    and "(\<forall>h. \<not> rm_fails h) \<Longrightarrow> is_ok (snd (run_gc rm_fails s))"
proof -
  let ?st = "(s, \<lparr>versions_pruned = 0, blobs_deleted = 0\<rparr>)"
  let ?out = "gc_accounts rm_fails (map a_id (db_accounts (s_db s))) ?st"
  have G: "gc_guarantee blake3 rm_fails ?st ?out"
    using assms by (intro gc_accounts_ok) simp
  have run: "run_gc rm_fails s = (fst (fst ?out), map_sum id (\<lambda>_. snd (fst ?out)) (snd ?out))"
    unfolding run_gc_def by (simp split: prod.split sum.split)
  have "is_ok (map_sum id f r) = is_ok r" for f :: "unit \<Rightarrow> gc_stats" and r :: "api_error + unit"
    by (cases r) simp_all
  with G have "store_wf blake3 (fst (run_gc rm_fails s)) \<and> collects (s_db s) (s_db (fst (run_gc rm_fails s))) \<and>
      ((\<forall>h. \<not> rm_fails h) \<longrightarrow> is_ok (snd (run_gc rm_fails s)))"
    unfolding run gc_guarantee_def by simp
  then show "store_wf blake3 (fst (run_gc rm_fails s))"
    and "collects (s_db s) (s_db (fst (run_gc rm_fails s)))"
    and "(\<forall>h. \<not> rm_fails h) \<Longrightarrow> is_ok (snd (run_gc rm_fails s))" by auto
qed

section \<open>A small store\<close>

text \<open>
  One account with one device and one game whose history is a full version and three
  differentials, each on the one before, the last being the head; the two middle ones share a
  blob. It is the concrete input on which the theorems below and those of later theories are
  applied.
\<close>

definition ex_row :: "uuid \<Rightarrow> uuid option \<Rightarrow> version_kind \<Rightarrow> string \<Rightarrow> nat \<Rightarrow> version_row" where
  "ex_row i p k h n =
     \<lparr>v_id = i, v_game_id = 3, v_device_id = 2, v_parent = p, v_kind = k, v_files = [],
      v_blob_hash = h, v_bytes = 1, v_seq = n, v_created_at = 0, vr_account = 1\<rparr>"

definition ex_db :: db where
  "ex_db = empty_db
     \<lparr>db_accounts := [\<lparr>a_id = 1, a_owner_hash = ''phc'', a_created_at = 0\<rparr>],
      db_devices := [\<lparr>d_id = 2, d_account = 1, d_name = ''pc'', d_os = ''linux'', d_token_hash = ''t'',
                      d_last_seen = None, d_revoked = False\<rparr>],
      db_blobs := [''a'' \<mapsto> \<lparr>b_bytes = 1, b_refcount = 1, b_created_at = 0\<rparr>,
                   ''b'' \<mapsto> \<lparr>b_bytes = 1, b_refcount = 2, b_created_at = 0\<rparr>,
                   ''c'' \<mapsto> \<lparr>b_bytes = 1, b_refcount = 1, b_created_at = 0\<rparr>],
      db_games := [\<lparr>g_id = 3, g_account = 1, g_title = ''Celeste'', g_steam_appid = Some 504230, g_head = Some 13\<rparr>],
      db_versions := [ex_row 10 None Full ''a'' 1, ex_row 11 (Some 10) Differential ''b'' 2,
                      ex_row 12 (Some 11) Differential ''b'' 3, ex_row 13 (Some 12) Differential ''c'' 4],
      db_config := [1 \<mapsto> (''t1'', synced_config_default\<lparr>sc_retention := \<lparr>rt_full = 1, rt_diff_per_full = 1\<rparr>\<rparr>)]\<rparr>"

definition ex_blake3 :: "byte list \<Rightarrow> blake3_hash" where
  "ex_blake3 bs = (if bs = [1] then ''a'' else if bs = [2] then ''b'' else if bs = [3] then ''c'' else ''x'')"

definition ex_store :: store where
  "ex_store = \<lparr>s_db = ex_db, s_objs = [''a'' \<mapsto> [1], ''b'' \<mapsto> [2], ''c'' \<mapsto> [3]], s_tmp = Map.empty\<rparr>"

lemma ex_row_simps [simp]:
  "v_id (ex_row i p k h n) = i" "v_game_id (ex_row i p k h n) = 3" "v_device_id (ex_row i p k h n) = 2"
  "v_parent (ex_row i p k h n) = p" "v_kind (ex_row i p k h n) = k" "v_blob_hash (ex_row i p k h n) = h"
  "v_seq (ex_row i p k h n) = n" "vr_account (ex_row i p k h n) = 1"
  by (simp_all add: ex_row_def)

lemma ex_db_wf: "db_wf ex_db"
proof -
  have "versions_wf ex_db"
    by (simp add: versions_wf_def ex_db_def version_ids_def game_keys_def)
  moreover have "games_wf ex_db" by (simp add: games_wf_def ex_db_def)
  moreover have "refcount_wf ex_db" by (simp add: refcount_wf_def references_def ex_db_def empty_db_def)
  ultimately show ?thesis by (simp add: db_wf_def)
qed

lemma ex_store_wf: "store_wf ex_blake3 ex_store"
  unfolding store_wf_def blobs_backed_def content_addressed_def
  by (auto simp: ex_store_def ex_db_wf) (auto simp: ex_db_def empty_db_def ex_blake3_def split: if_splits)

section \<open>Properties\<close>



text \<open>A collection keeps the store sound: constraints, exact reference counts, an object behind
  every blob row, every object with the content its name says. This holds of the state it leaves
  even when it stops at an error; and it can only stop at an error of the file system, no
  constraint of the schema ever refuses a removal.\<close>

theorem run_gc_sound:
  assumes "store_wf blake3 s"
  shows "store_wf blake3 (fst (run_gc rm_fails s)) \<and>
     ((\<forall>h. \<not> rm_fails h) \<longrightarrow> (\<exists>stats. snd (run_gc rm_fails s) = Inr stats))"
  using run_gc_ok [OF assms, of rm_fails] by (auto simp: is_ok_iff)

theorem run_gc_sound_witness:
  "store_wf ex_blake3 (fst (run_gc (\<lambda>_. False) ex_store)) \<and>
   (\<exists>stats. snd (run_gc (\<lambda>_. False) ex_store) = Inr stats)"
  using run_gc_sound [OF ex_store_wf, of "\<lambda>_. False"] by simp

text \<open>C4: nothing in use is lost. After a collection every game has the head it had, the row of
  every head and of every tip without a resolved conflict is still there with its file list and
  its blob, whose bytes can still be read and have the hash the row names, and every row that is
  left was there before with at most its link to a removed parent gone.\<close>

theorem run_gc_protects:
  assumes "store_wf blake3 s"
  shows "db_games (s_db (fst (run_gc rm_fails s))) = db_games (s_db s) \<and>
     (\<forall>r \<in> set (db_versions (s_db s)). protected_row (s_db s) r \<longrightarrow>
        (\<exists>r' bs. find_version (s_db (fst (run_gc rm_fails s))) (v_id r) = Some r' \<and>
           (r' = r \<or> r' = r\<lparr>v_parent := None\<rparr>) \<and>
           s_objs (fst (run_gc rm_fails s)) (v_blob_hash r) = Some bs \<and> blake3 bs = v_blob_hash r)) \<and>
     (\<forall>r' \<in> set (db_versions (s_db (fst (run_gc rm_fails s)))).
        \<exists>r \<in> set (db_versions (s_db s)). r' = r \<or> r' = r\<lparr>v_parent := None\<rparr>)"
proof -
  let ?s = "fst (run_gc rm_fails s)"
  have wf: "store_wf blake3 ?s" and co: "collects (s_db s) (s_db ?s)" using run_gc_ok [OF assms] by auto
  then have sh: "shrinks (s_db s) (s_db ?s)" by (simp add: collects_def)
  have vwf: "versions_wf (s_db s)" "versions_wf (s_db ?s)" using assms wf by (simp_all add: store_wf_def db_wf_def)
  have "\<exists>r' bs. find_version (s_db ?s) (v_id r) = Some r' \<and> (r' = r \<or> r' = r\<lparr>v_parent := None\<rparr>) \<and>
      s_objs ?s (v_blob_hash r) = Some bs \<and> blake3 bs = v_blob_hash r"
    if r: "r \<in> set (db_versions (s_db s))" "protected_row (s_db s) r" for r
  proof -
    from co r obtain r' where r': "r' \<in> set (db_versions (s_db ?s))" "v_id r' = v_id r"
      by (auto simp: collects_def version_ids_def)
    with sh obtain r0 where r0: "r0 \<in> set (db_versions (s_db s))" "r' = r0 \<or> r' = r0\<lparr>v_parent := None\<rparr>"
      by (auto simp: shrinks_def)
    then have "v_id r0 = v_id r" using r'(2) by auto
    then have "r0 = r" using r0(1) r(1) vwf(1) by (metis distinct_map_inj versions_wf_def)
    with r0 have eq: "r' = r \<or> r' = r\<lparr>v_parent := None\<rparr>" by simp
    then have h: "v_blob_hash r' = v_blob_hash r" by auto
    have "db_blobs (s_db ?s) (v_blob_hash r') \<noteq> None" using vwf(2) r'(1) by (simp add: versions_wf_def)
    then have "v_blob_hash r' \<in> dom (s_objs ?s)" using wf by (auto simp: store_wf_def blobs_backed_def)
    then obtain bs where bs: "s_objs ?s (v_blob_hash r') = Some bs" by blast
    with wf have "blake3 bs = v_blob_hash r'" by (simp add: store_wf_def content_addressed_def)
    moreover have "find_version (s_db ?s) (v_id r) = Some r'" using vwf(2) r' by (simp add: find_version_wf)
    ultimately show ?thesis using eq bs h by (intro exI [of _ r'] exI [of _ bs]) simp
  qed
  with sh show ?thesis by (auto simp: shrinks_def)
qed

theorem run_gc_protects_witness:
  "\<exists>r' bs. find_version (s_db (fst (run_gc (\<lambda>_. False) ex_store))) 13 = Some r' \<and>
     s_objs (fst (run_gc (\<lambda>_. False) ex_store)) ''c'' = Some bs \<and> ex_blake3 bs = ''c''"
proof -
  have "ex_row 13 (Some 12) Differential ''c'' 4 \<in> set (db_versions (s_db ex_store))"
    "protected_row (s_db ex_store) (ex_row 13 (Some 12) Differential ''c'' 4)"
    by (simp_all add: ex_store_def ex_db_def protected_row_def heads_def)
  with run_gc_protects [OF ex_store_wf, of "\<lambda>_. False", THEN conjunct2, THEN conjunct1]
  have "\<exists>r' bs. find_version (s_db (fst (run_gc (\<lambda>_. False) ex_store))) 13 = Some r' \<and>
     (r' = ex_row 13 (Some 12) Differential ''c'' 4 \<or>
      r' = (ex_row 13 (Some 12) Differential ''c'' 4)\<lparr>v_parent := None\<rparr>) \<and>
     s_objs (fst (run_gc (\<lambda>_. False) ex_store)) ''c'' = Some bs \<and> ex_blake3 bs = ''c''"
    by (auto dest!: bspec)
  then show ?thesis by blast
qed

end
