(* ===== verification/Server_History.thy ===== *)
theory Server_History
  imports Server_Gc
begin

text \<open>
  What the version history promises to its clients, proved from the operations of
  \<open>Server_Db\<close>: the compare-and-swap of the head, the race of two devices, the order of the
  sequence numbers, the replay after a reconnect, conflict resolution and the deduplication of
  games.
\<close>

section \<open>Creating a version\<close>

text \<open>The request refers to rows that exist, and its id is fresh.\<close>

definition acceptable :: "db \<Rightarrow> create_version_req \<Rightarrow> uuid \<Rightarrow> bool" where
  "acceptable d req i \<longleftrightarrow>
     i \<notin> version_ids d \<and> cv_device_id req \<in> d_id ` set (db_devices d) \<and>
     set_option (cv_parent req) \<subseteq> insert i (version_ids d) \<and> db_blobs d (cv_blob_hash req) \<noteq> None"

lemma insert_new_version_iff:
  "insert_version (new_version_row d a g req i now) d = Inr d' \<longleftrightarrow>
     d' = d\<lparr>db_versions := db_versions d @ [new_version_row d a g req i now]\<rparr> \<and>
     acceptable d req i \<and> g \<in> g_id ` set (db_games d)"
proof -
  have "\<forall>w \<in> set (db_versions d). v_game_id w = g \<longrightarrow> v_seq w \<noteq> next_seq d g"
    using next_seq_greater [of _ d g] by (metis less_irrefl)
  then show ?thesis unfolding insert_version_Inr_iff acceptable_def new_version_row_simps by blast
qed

lemma create_version_accepted:
  assumes "db_wf d" and "find_game d a g = Some gr" and "acceptable d req i"
  shows "create_version d a g req i now =
     (store_version d a g req i now,
      Inr (if g_head gr = cv_parent req
           then FastForward (row_to_version (new_version_row d a g req i now))
           else Conflict (head_version d gr) (row_to_version (new_version_row d a g req i now))))"
  using assms(1)
proof (cases rule: create_version_cases [of d a g req i now])
  case (ok gr' d1)
  with assms show ?thesis by simp
next
  case (fail e)
  have "g \<in> g_id ` set (db_games d)" using assms(1,2) by (force simp: db_wf_def find_game_wf)
  with assms(3) obtain d1 where ins: "insert_version (new_version_row d a g req i now) d = Inr d1"
    by (simp add: insert_new_version_iff)
  with fail assms(2) show ?thesis by simp
qed

lemma find_game_store_version:
  assumes "find_game d a g = Some gr"
  shows "find_game (store_version d a g req i now) a' g' =
     (if a' = a \<and> g' = g then Some (if g_head gr = cv_parent req then gr\<lparr>g_head := Some i\<rparr> else gr)
      else find_game d a' g')"
proof -
  let ?d = "add_refcount 1 (cv_blob_hash req) (d\<lparr>db_versions := db_versions d @ [new_version_row d a g req i now]\<rparr>)"
  have same: "find_game ?d x y = find_game d x y" for x y by (simp add: find_game_def)
  show ?thesis
  proof (cases "a' = a \<and> g' = g")
    case True
    with assms same find_game_cas_head [of ?d a g gr "cv_parent req" i] show ?thesis
      by (simp add: store_version_def)
  next
    case False
    with same find_game_cas_head_other [of g' g a' a "cv_parent req" i ?d] show ?thesis
      by (auto simp: store_version_def)
  qed
qed

section \<open>The order of sequence numbers\<close>

lemma seq_distinct:
  assumes "versions_wf d"
  shows "distinct (map v_seq (versions_of d a g))"
proof -
  have "distinct (map (\<lambda>r. (v_game_id r, v_seq r)) (versions_of d a g))"
    using assms by (simp add: versions_wf_def versions_of_def distinct_map_filter_key)
  then show ?thesis by (auto simp: distinct_map inj_on_def versions_of_def)
qed

lemma sort_key_strict:
  fixes k :: "'a \<Rightarrow> 'b::linorder"
  assumes "distinct (map k xs)"
  shows "sorted_wrt (<) (map k (sort_key k xs))"
proof -
  have "distinct (map k (sort_key k xs))" using assms by (simp add: distinct_map)
  then show ?thesis by (simp add: strict_sorted_iff)
qed

lemma distinct_map_sorted_wrt: "distinct (map k xs) \<longleftrightarrow> sorted_wrt (\<lambda>x y. k x \<noteq> k y) xs"
  by (induction xs) (auto simp: image_iff)

lemma sorted_wrt_both: "sorted_wrt P xs \<Longrightarrow> sorted_wrt Q xs \<Longrightarrow> sorted_wrt (\<lambda>x y. P x y \<and> Q x y) xs"
  by (induction xs) auto

text \<open>A stable sort by one key after a sort by another is the lexicographic order.\<close>

lemma insort_key_lex:
  fixes f :: "'a \<Rightarrow> 'b::linorder"
  assumes "sorted (map f zs)" and "sorted_wrt (\<lambda>x y. f x < f y \<or> f x = f y \<and> R x y) zs" and "\<forall>z \<in> set zs. R y z"
  shows "sorted_wrt (\<lambda>x y. f x < f y \<or> f x = f y \<and> R x y) (insort_key f y zs)"
  using assms by (induction zs) (fastforce simp: set_insort_key)+

lemma sort_key_lex:
  fixes f :: "'a \<Rightarrow> 'b::linorder"
  shows "sorted_wrt R ys \<Longrightarrow> sorted_wrt (\<lambda>x y. f x < f y \<or> f x = f y \<and> R x y) (sort_key f ys)"
  by (induction ys) (auto intro!: insort_key_lex)

section \<open>Properties\<close>


definition ex_req :: create_version_req where
  "ex_req = \<lparr>cv_parent = Some 13, cv_kind = Differential, cv_files = [], cv_blob_hash = ''c'',
     cv_bytes = 1, cv_device_id = 2\<rparr>"

lemma ex_game: "find_game ex_db 1 3 = Some
    \<lparr>g_id = 3, g_account = 1, g_title = ''Celeste'', g_steam_appid = Some 504230, g_head = Some 13\<rparr>"
  by (simp add: find_game_def ex_db_def)

lemma ex_acceptable: "i \<notin> {10, 11, 12, 13} \<Longrightarrow> acceptable ex_db ex_req i"
  by (simp add: acceptable_def ex_req_def ex_db_def version_ids_def)


text \<open>C40: a request that is not acceptable (a known id, an unknown device, parent or blob) or that
  names no game of the account is refused with an internal error, and the database is left
  exactly as it was.\<close>

theorem create_version_refused:
  assumes "db_wf d" and "find_game d a g = None \<or> \<not> acceptable d req i"
  shows "\<exists>e. create_version d a g req i now = (d, Inl (from_sqlx e))"
  using assms(1)
proof (cases rule: create_version_cases [of d a g req i now])
  case (fail e)
  then show ?thesis by blast
next
  case (ok gr d1)
  with assms(2) show ?thesis by (simp add: insert_new_version_iff)
qed

theorem create_version_refused_witness:
  "\<exists>e. create_version ex_db 1 3 (ex_req\<lparr>cv_blob_hash := ''zz''\<rparr>) 14 0 = (ex_db, Inl (from_sqlx e))"
  by (rule create_version_refused [OF ex_db_wf]) (simp add: acceptable_def ex_req_def ex_db_def empty_db_def)

text \<open>C2: the race of two devices. Two acceptable requests built on the same head, whichever comes
  first: the first one moves the head, the second one is told of a conflict between the first one
  and itself and does not move the head, and both versions are stored.\<close>

theorem create_version_race:
  assumes "db_wf d" and "find_game d a g = Some gr"
    and "cv_parent req1 = g_head gr" and "cv_parent req2 = g_head gr"
    and "acceptable d req1 i" and "acceptable d req2 j" and "i \<noteq> j"
    and "create_version d a g req1 i now1 = (d1, r1)" and "create_version d1 a g req2 j now2 = (d2, r2)"
  shows "\<exists>v w. r1 = Inr (FastForward v) \<and> v_id v = i \<and> r2 = Inr (Conflict (Some v) w) \<and> v_id w = j \<and>
     v_seq v < v_seq w \<and> map_option g_head (find_game d2 a g) = Some (Some i) \<and>
     set (db_versions d2) \<supseteq> set (db_versions d) \<and> {i, j} \<subseteq> version_ids d2"
proof -
  let ?row = "new_version_row d a g req1 i now1" and ?gr = "gr\<lparr>g_head := Some i\<rparr>"
  have d1: "d1 = store_version d a g req1 i now1" "r1 = Inr (FastForward (row_to_version ?row))"
    using create_version_accepted [OF assms(1,2,5), of now1] assms(3,8) by simp_all
  have wf1: "db_wf d1" using create_version_wf [OF assms(1), of a g req1 i now1] assms(8) by simp
  have g1: "find_game d1 a g = Some ?gr" using find_game_store_version [OF assms(2)] assms(3) d1 by simp
  have "dom (db_blobs d1) = dom (db_blobs d)" by (simp add: d1 store_version_def)
  then have ac: "acceptable d1 req2 j"
    using assms(6,7) by (auto simp: acceptable_def d1 version_ids_def)
  have "i \<notin> version_ids d" "j \<notin> version_ids d" using assms(5,6) by (simp_all add: acceptable_def)
  then have hv: "head_version d1 ?gr = Some (row_to_version ?row)" and ne: "cv_parent req2 \<noteq> Some i"
    using find_version_store_new [of i d a g req1 now1] assms(4,6,7)
    by (auto simp: head_version_def d1 acceptable_def)
  let ?row2 = "new_version_row d1 a g req2 j now2"
  have d2: "d2 = store_version d1 a g req2 j now2" "r2 = Inr (Conflict (Some (row_to_version ?row)) (row_to_version ?row2))"
    using create_version_accepted [OF wf1 g1 ac, of now2] assms(9) hv ne by auto
  have "map_option g_head (find_game d2 a g) = Some (Some i)"
    using find_game_store_version [OF g1, of req2 j now2 a g] ne by (simp add: d2)
  moreover have "v_seq ?row < v_seq ?row2" using next_seq_greater [of ?row d1 g] by (simp add: d1)
  ultimately show ?thesis by (auto simp: d1 d2 version_ids_def)
qed

theorem create_version_race_witness:
  "\<exists>v w d1 d2. create_version ex_db 1 3 ex_req 14 0 = (d1, Inr (FastForward v)) \<and>
     create_version d1 1 3 ex_req 15 0 = (d2, Inr (Conflict (Some v) w))"
proof -
  obtain d1 r1 d2 r2 where "create_version ex_db 1 3 ex_req 14 0 = (d1, r1)" "create_version d1 1 3 ex_req 15 0 = (d2, r2)"
    by (metis surj_pair)
  with create_version_race [OF ex_db_wf ex_game, of ex_req ex_req 14 15 0 d1 r1 0 d2 r2] show ?thesis
    by (auto simp: ex_acceptable) (auto simp: ex_req_def)
qed

text \<open>The listing of a game's versions, newest first: exactly the rows of the game and account,
  each once, with strictly decreasing sequence numbers.\<close>

theorem list_versions_newest_first:
  assumes "db_wf d"
  shows "sorted_wrt (\<lambda>v w. v_seq w < v_seq v) (list_versions d a g) \<and>
     set (list_versions d a g) = row_to_version ` {r \<in> set (db_versions d). v_game_id r = g \<and> vr_account r = a} \<and>
     length (list_versions d a g) = card {r \<in> set (db_versions d). v_game_id r = g \<and> vr_account r = a}"
proof -
  have wf: "versions_wf d" using assms by (simp add: db_wf_def)
  have "sorted_wrt (<) (map v_seq (sort_key v_seq (versions_of d a g)))"
    using wf by (intro sort_key_strict seq_distinct)
  then have "sorted_wrt (\<lambda>v w. v_seq w < v_seq v) (list_versions d a g)"
    by (simp add: list_versions_def sorted_wrt_map sorted_wrt_rev)
  moreover have "distinct (versions_of d a g)"
    using wf by (auto simp: versions_wf_def versions_of_def distinct_map intro: distinct_filter)
  then have "length (list_versions d a g) = card (set (versions_of d a g))"
    by (simp add: list_versions_def distinct_card)
  ultimately show ?thesis by (simp add: list_versions_def versions_of_def)
qed

theorem list_versions_newest_first_witness:
  "sorted_wrt (\<lambda>v w. v_seq w < v_seq v) (list_versions ex_db 1 3) \<and> length (list_versions ex_db 1 3) = 4"
  using list_versions_newest_first [OF ex_db_wf, of 1 3]
  by (auto simp: list_versions_def versions_of_def ex_db_def)

text \<open>The replay after a reconnect. A client that reports the last sequence number it saw of
  each game is sent exactly the later versions of its account (all of them for a game it does not
  mention), each once, grouped by game and in ascending sequence order inside a game.\<close>

theorem versions_since_exact:
  assumes "db_wf d"
  shows "set (versions_since d a last_seq) =
       {(v_game_id r, v_id r, v_seq r) |r. r \<in> set (db_versions d) \<and> vr_account r = a \<and>
          (case last_seq (v_game_id r) of None \<Rightarrow> 0 | Some n \<Rightarrow> n) < v_seq r} \<and>
     sorted_wrt (\<lambda>(g, _, n) (g', _, n'). g < g' \<or> g = g' \<and> n < n') (versions_since d a last_seq)"
proof
  show "set (versions_since d a last_seq) =
       {(v_game_id r, v_id r, v_seq r) |r. r \<in> set (db_versions d) \<and> vr_account r = a \<and>
          (case last_seq (v_game_id r) of None \<Rightarrow> 0 | Some n \<Rightarrow> n) < v_seq r}"
    by (auto simp: versions_since_def)
next
  let ?xs = "filter (\<lambda>r. vr_account r = a) (db_versions d)"
  let ?le = "\<lambda>r q. v_game_id r = v_game_id q \<longrightarrow> v_seq r \<noteq> v_seq q"
  have "distinct (map (\<lambda>r. (v_game_id r, v_seq r)) ?xs)"
    using assms by (simp add: db_wf_def versions_wf_def distinct_map_filter_key)
  then have d: "distinct (map (\<lambda>r. (v_game_id r, v_seq r)) (sort_key v_seq ?xs))"
    by (simp add: distinct_map)
  have "sorted_wrt (\<lambda>r q. v_seq r \<le> v_seq q) (sort_key v_seq ?xs)"
    using sorted_sort_key [of v_seq ?xs] by (simp only: sorted_wrt_map)
  moreover have "sorted_wrt (\<lambda>r q. (v_game_id r, v_seq r) \<noteq> (v_game_id q, v_seq q)) (sort_key v_seq ?xs)"
    using d by (simp only: distinct_map_sorted_wrt)
  ultimately have "sorted_wrt (\<lambda>r q. v_seq r \<le> v_seq q \<and> (v_game_id r, v_seq r) \<noteq> (v_game_id q, v_seq q)) (sort_key v_seq ?xs)"
    by (rule sorted_wrt_both)
  from sort_key_lex [OF this, of v_game_id]
  have "sorted_wrt (\<lambda>r q. v_game_id r < v_game_id q \<or> v_game_id r = v_game_id q \<and> v_seq r < v_seq q)
      (sort_key v_game_id (sort_key v_seq ?xs))"
    by (rule sorted_wrt_mono_rel [rotated]) auto
  then show "sorted_wrt (\<lambda>(g, _, n) (g', _, n'). g < g' \<or> g = g' \<and> n < n') (versions_since d a last_seq)"
    by (simp add: versions_since_def sorted_wrt_map sorted_wrt_filter)
qed

theorem versions_since_exact_witness:
  "(3, 13, 4) \<in> set (versions_since ex_db 1 [3 \<mapsto> 2]) \<and> (3, 11, 2) \<notin> set (versions_since ex_db 1 [3 \<mapsto> 2])"
proof -
  have "ex_row 13 (Some 12) Differential ''c'' 4 \<in> set (db_versions ex_db)" by (simp add: ex_db_def)
  then show ?thesis
    unfolding versions_since_exact [OF ex_db_wf, of 1 "[3 \<mapsto> 2]", THEN conjunct1] mem_Collect_eq
    by (intro conjI exI [of _ "ex_row 13 (Some 12) Differential ''c'' 4"]) auto
qed

text \<open>Conflict resolution. Choosing a stored version of the game makes it the head; no version
  is removed, and the head that was replaced, if it is another version, is recorded as the loser
  (with a sibling folder when both are kept). Then the game's head has the sequence number the
  answer gives, and the database stays well-formed.\<close>

theorem resolve_conflict_moves_head:
  assumes "db_wf d" and "find_game d a g = Some gr"
    and "wr \<in> set (db_versions d)" "v_game_id wr = g" "vr_account wr = a"
    and "i \<notin> rc_id ` set (db_resolved d)"
  shows "\<exists>d'. resolve_conflict us d a g (v_id wr) kb i now =
       (d', Inr (\<lparr>hr_head = Some (v_id wr), hr_seq = Some (v_seq wr)\<rparr>, v_seq wr)) \<and>
     db_wf d' \<and> db_versions d' = db_versions d \<and> db_blobs d' = db_blobs d \<and>
     get_head d' a g = Inr \<lparr>hr_head = Some (v_id wr), hr_seq = Some (v_seq wr)\<rparr> \<and>
     db_resolved d' = db_resolved d @
       (case g_head gr of None \<Rightarrow> []
          | Some l \<Rightarrow> if l = v_id wr then [] else [resolution_row us a g (v_id wr) l kb i now])"
proof -
  let ?w = "v_id wr" and ?d1 = "fst (cas_head a g (g_head gr) (v_id wr) d)"
  let ?new = "case g_head gr of None \<Rightarrow> []
          | Some l \<Rightarrow> if l = v_id wr then [] else [resolution_row us a g (v_id wr) l kb i now]"
  let ?d = "?d1\<lparr>db_resolved := db_resolved d @ ?new\<rparr>"
  have wfs: "versions_wf d" "games_wf d" using assms(1) by (simp_all add: db_wf_def)
  have fw: "List.find (\<lambda>r. v_id r = ?w \<and> v_game_id r = g \<and> vr_account r = a) (db_versions d) = Some wr"
    using wfs(1) assms(3-5) by (subst find_key_iff [where k = v_id and c = ?w]) (auto simp: versions_wf_def)
  have n: "snd (cas_head a g (g_head gr) ?w d) = 1"
    using cas_head_count [OF wfs(2) assms(2), of "g_head gr" ?w] by simp
  have "\<not> list_ex (\<lambda>q. rc_id q = i) (db_resolved d)" using assms(6) by (auto simp: list_ex_iff)
  then have run: "resolve_conflict us d a g ?w kb i now =
      (?d, Inr (\<lparr>hr_head = Some ?w, hr_seq = Some (v_seq wr)\<rparr>, v_seq wr))"
    using assms(2) fw n
    by (auto simp: resolve_conflict_def Let_def split_beta insert_resolved_def resolution_row_def split: option.split)
  have "find_game ?d a g = Some (gr\<lparr>g_head := Some ?w\<rparr>)"
    using find_game_cas_head [OF assms(2), of "g_head gr" ?w] by (simp add: find_game_def)
  moreover have "find_version ?d ?w = Some wr"
    using wfs(1) assms(3) by (simp add: find_version_wf find_version_def [of ?d] find_version_def [of d, symmetric])
  ultimately have "get_head ?d a g = Inr \<lparr>hr_head = Some ?w, hr_seq = Some (v_seq wr)\<rparr>"
    by (simp add: get_head_def)
  with run resolve_conflict_wf [OF assms(1), of us a g ?w kb i now] show ?thesis by auto
qed

theorem resolve_conflict_moves_head_witness:
  "\<exists>d'. fst (resolve_conflict (\<lambda>_. ''u'') ex_db 1 3 11 True 50 0) = d' \<and>
     map rc_loser (db_resolved d') = [13] \<and> get_head d' 1 3 = Inr \<lparr>hr_head = Some 11, hr_seq = Some 2\<rparr>"
proof -
  have "ex_row 11 (Some 10) Differential ''b'' 2 \<in> set (db_versions ex_db)" "50 \<notin> rc_id ` set (db_resolved ex_db)"
    by (simp_all add: ex_db_def empty_db_def)
  with resolve_conflict_moves_head [OF ex_db_wf ex_game, of "ex_row 11 (Some 10) Differential ''b'' 2" 50 "\<lambda>_. ''u''" True 0]
  show ?thesis by (auto simp: resolution_row_def) (simp add: ex_db_def empty_db_def)
qed



text \<open>Registering a game is idempotent, and a Steam app id is registered once. After a call
  that succeeds, a second call by any device for the same title and app id changes nothing and
  returns the same game; and as long as the account has a game with the app id, a call with that
  app id under any title, for instance a localised one, adds none and returns a game with it.\<close>

theorem ensure_game_once:
  assumes "ensure_game d a t appid i = (d1, Inr e)"
  shows "ensure_game d1 a t appid j = (d1, Inr e) \<and>
     (e_steam_appid e = Some n \<longrightarrow>
        (\<exists>e'. ensure_game d1 a t' (Some n) j = (d1, Inr e') \<and> e_steam_appid e' = Some n))"
proof -
  let ?g = "\<lparr>g_id = i, g_account = a, g_title = t, g_steam_appid = appid, g_head = None\<rparr>"
  have find_app: "List.find P xs = None \<Longrightarrow> List.find P (xs @ [x]) = (if P x then Some x else None)"
    for P and xs :: "game_row list" and x by (induction xs) (auto split: if_splits)
  have "ensure_game d1 a t appid j = (d1, Inr e) \<and> (\<exists>g \<in> set (db_games d1). g_account g = a \<and> e = ensured_of_row g)"
  proof (cases "\<exists>g. (case appid of Some n \<Rightarrow>
        List.find (\<lambda>g. g_account g = a \<and> g_steam_appid g = Some n) (db_games d) | None \<Rightarrow> None) = Some g")
    case True
    with assms show ?thesis by (auto simp: ensure_game_def split: option.splits dest!: find_Some_set)
  next
    case False
    then have none: "\<forall>n. appid = Some n \<longrightarrow> List.find (\<lambda>g. g_account g = a \<and> g_steam_appid g = Some n) (db_games d) = None"
      by (auto split: option.splits)
    with assms have ins: "insert_game ?g d = Inr d1"
      and e: "ok_or (List.find (\<lambda>g. g_account g = a \<and> g_title g = t) (db_games d1)) (from_sqlx RowNotFound) = Inr g \<Longrightarrow> e = ensured_of_row g"
      and ex: "\<exists>g. List.find (\<lambda>g. g_account g = a \<and> g_title g = t) (db_games d1) = Some g \<and> e = ensured_of_row g" for g
      by (auto simp: ensure_game_def ok_or_def split: option.splits sum.splits)
    from ex obtain g where g: "List.find (\<lambda>g. g_account g = a \<and> g_title g = t) (db_games d1) = Some g" "e = ensured_of_row g"
      by blast
    then have "list_ex (\<lambda>h. g_account h = a \<and> g_title h = t) (db_games d1)"
      by (auto simp: list_ex_iff dest: find_Some_set)
    then have again: "insert_game (?g\<lparr>g_id := j\<rparr>) d1 = Inr d1" by (simp add: insert_game_def)
    have "ensure_game d1 a t appid j = (d1, Inr e)"
    proof (cases "db_games d1 = db_games d")
      case True
      with none again g show ?thesis by (auto simp: ensure_game_def split: option.split)
    next
      case False
      with ins have d1: "db_games d1 = db_games d @ [?g]" "\<not> list_ex (\<lambda>h. g_account h = a \<and> g_title h = t) (db_games d)"
        by (auto simp: insert_game_def split: if_splits)
      then have "List.find (\<lambda>g. g_account g = a \<and> g_title g = t) (db_games d) = None"
        by (auto simp: find_None_set list_ex_iff)
      with d1 g have "g = ?g" by (simp add: find_app)
      with none d1 g again show ?thesis by (auto simp: ensure_game_def find_app split: option.split)
    qed
    with g show ?thesis by (auto dest: find_Some_set)
  qed
  moreover have "\<exists>e'. ensure_game d1 a t' (Some n) j = (d1, Inr e') \<and> e_steam_appid e' = Some n"
    if "g \<in> set (db_games d1)" "g_account g = a" "g_steam_appid g = Some n" for g
  proof -
    from that obtain g' where "List.find (\<lambda>g. g_account g = a \<and> g_steam_appid g = Some n) (db_games d1) = Some g'"
      using find_None_set [of "\<lambda>g. g_account g = a \<and> g_steam_appid g = Some n" "db_games d1"] by fastforce
    then show ?thesis by (auto simp: ensure_game_def ensured_of_row_def dest: find_Some_set)
  qed
  ultimately show ?thesis by (auto simp: ensured_of_row_def)
qed

theorem ensure_game_once_witness:
  "\<exists>e. ensure_game ex_db 1 ''Celeste'' (Some 504230) 60 = (ex_db, Inr e) \<and>
     (\<exists>e'. ensure_game ex_db 1 ''Celeste (JP)'' (Some 504230) 61 = (ex_db, Inr e') \<and> e_steam_appid e' = Some 504230)"
proof -
  let ?e = "\<lparr>e_id = 3, e_title = ''Celeste'', e_steam_appid = Some 504230, e_head = Some 13\<rparr>"
  have "ensure_game ex_db 1 ''Celeste'' (Some 504230) 60 = (ex_db, Inr ?e)"
    by (simp add: ensure_game_def ensured_of_row_def ex_db_def)
  with ensure_game_once [OF this, of 61 504230 "''Celeste (JP)''"] show ?thesis by simp
qed

end
