(* ===== verification/Server_Config.thy ===== *)
theory Server_Config
  imports Server_Db
begin

text \<open>
  The account configuration every device shares (\<open>savr-server/src/db.rs\<close>, \<open>get_or_seed_config\<close>
  to \<open>put_config\<close>). An update is guarded by a tag: the client sends the tag it read, the server
  checks it and then writes under a second guard. Check and write are separate statements, between
  which another request may run, so they are separate definitions here and \<open>put_config\<close> is the
  two in sequence. Fresh tags are arguments.
\<close>

definition seed_default_config :: "db \<Rightarrow> uuid \<Rightarrow> string \<Rightarrow> synced_config db_result" where
  "seed_default_config d account tag =
     (let cfg = synced_config_default\<lparr>sc_tag := tag\<rparr> in
      if db_config d account = None \<and> \<not> list_ex (\<lambda>a. a_id a = account) (db_accounts d)
      then (d, Inl (from_sqlx ForeignKeyViolation))
      else
        (let d1 = (if db_config d account = None
                   then d\<lparr>db_config := (db_config d)(account \<mapsto> (tag, cfg))\<rparr> else d) in
         (d1, ok_or (read_config d1 account) (internal (Text ''config vanished after seed'')))))"

definition get_or_seed_config :: "db \<Rightarrow> uuid \<Rightarrow> string \<Rightarrow> synced_config db_result" where
  "get_or_seed_config d account tag =
     (case read_config d account of
        Some cfg \<Rightarrow> (d, Inr cfg)
      | None \<Rightarrow> seed_default_config d account tag)"

text \<open>The first half of \<open>put_config\<close>: read the stored tag and compare.\<close>

definition put_check :: "db \<Rightarrow> uuid \<Rightarrow> synced_config \<Rightarrow> string \<Rightarrow> string db_result" where
  "put_check d account incoming seed_tag =
     (let (d1, stored) =
        (case db_config d account of
           Some (t, _) \<Rightarrow> (d, Inr t)
         | None \<Rightarrow> apsnd (map_sum id sc_tag) (seed_default_config d account seed_tag)) in
      (d1, bind_res stored (\<lambda>stored_tag.
           if sc_tag incoming \<noteq> stored_tag then Inl (config_conflict stored_tag) else Inr stored_tag)))"

text \<open>The second half: \<open>UPDATE config \<dots> WHERE account_id = ? AND tag = ?\<close>, which changes no row
  when another writer has rotated the tag.\<close>

definition put_write :: "db \<Rightarrow> uuid \<Rightarrow> synced_config \<Rightarrow> string \<Rightarrow> string \<Rightarrow> synced_config db_result" where
  "put_write d account incoming stored_tag new_tag =
     (let cfg = incoming\<lparr>sc_tag := new_tag\<rparr> in
      case db_config d account of
        Some (t, _) \<Rightarrow>
          if t = stored_tag
          then (d\<lparr>db_config := (db_config d)(account \<mapsto> (new_tag, cfg))\<rparr>, Inr cfg)
          else (d, Inl (config_conflict t))
      | None \<Rightarrow> (d, Inl (config_conflict '''')))"

definition put_config :: "db \<Rightarrow> uuid \<Rightarrow> synced_config \<Rightarrow> string \<Rightarrow> string \<Rightarrow> synced_config db_result" where
  "put_config d account incoming seed_tag new_tag =
     (case put_check d account incoming seed_tag of
        (d1, Inl e) \<Rightarrow> (d1, Inl e)
      | (d1, Inr stored_tag) \<Rightarrow> put_write d1 account incoming stored_tag new_tag)"

section \<open>Frame\<close>

text \<open>Configuration requests touch the configuration table only.\<close>

lemma db_wf_config [simp]: "db_wf (d\<lparr>db_config := c\<rparr>) = db_wf d"
  by (simp add: db_wf_def versions_wf_def games_wf_def refcount_wf_def references_def
      version_ids_def game_keys_def)

lemma db_config_same: "\<exists>c. d = d\<lparr>db_config := c\<rparr>" for d :: db
  by (rule exI [of _ "db_config d"]) simp

lemma seed_frame: "\<exists>c. fst (seed_default_config d account tag) = d\<lparr>db_config := c\<rparr>"
  using db_config_same [of d] by (auto simp: seed_default_config_def Let_def)

lemma put_check_frame: "\<exists>c. fst (put_check d account incoming tag) = d\<lparr>db_config := c\<rparr>"
  using db_config_same [of d] seed_frame [of d account tag]
  by (auto simp: put_check_def split_beta split: option.split)

lemma put_write_frame: "\<exists>c. fst (put_write d account incoming stored tag) = d\<lparr>db_config := c\<rparr>"
  using db_config_same [of d] by (auto simp: put_write_def Let_def split: option.split)

lemma get_or_seed_frame: "\<exists>c. fst (get_or_seed_config d account tag) = d\<lparr>db_config := c\<rparr>"
  using db_config_same [of d] seed_frame [of d account tag]
  by (auto simp: get_or_seed_config_def split: option.split)

lemma put_config_frame: "\<exists>c. fst (put_config d account incoming seed tag) = d\<lparr>db_config := c\<rparr>"
proof -
  obtain d1 r where r: "put_check d account incoming seed = (d1, r)" by (cases "put_check d account incoming seed")
  obtain c where c: "d1 = d\<lparr>db_config := c\<rparr>" using put_check_frame [of d account incoming seed] r by auto
  show ?thesis
  proof (cases r)
    case (Inl e)
    with r c show ?thesis by (auto simp: put_config_def)
  next
    case (Inr t)
    with r c put_write_frame [of d1 account incoming t tag] show ?thesis by (auto simp: put_config_def)
  qed
qed

section \<open>Properties\<close>

lemma put_config_stored:
  assumes "db_config d a = Some (t, c)"
  shows "put_config d a cfg seed new =
     (if sc_tag cfg = t
      then (d\<lparr>db_config := (db_config d)(a \<mapsto> (new, cfg\<lparr>sc_tag := new\<rparr>))\<rparr>, Inr (cfg\<lparr>sc_tag := new\<rparr>))
      else (d, Inl (config_conflict t)))"
  using assms by (simp add: put_config_def put_check_def put_write_def Let_def)

text \<open>C26: optimistic concurrency of the shared configuration. Two devices read the same
  configuration and both send an update, and their requests interleave so that both pass the
  check of the tag before either writes. Exactly one update is stored, the one that writes first;
  the other is told of the conflict with the tag the first one left, and a later read returns the
  first one's configuration.\<close>

theorem put_config_race:
  assumes "db_config d a = Some (t, c)" and "sc_tag cfg1 = t" and "sc_tag cfg2 = t" and "new1 \<noteq> t"
    and "put_check d a cfg1 s1 = (d1, Inr t1)" and "put_check d1 a cfg2 s2 = (d2, Inr t2)"
    and "put_write d2 a cfg1 t1 new1 = (d3, r1)" and "put_write d3 a cfg2 t2 new2 = (d4, r2)"
  shows "r1 = Inr (cfg1\<lparr>sc_tag := new1\<rparr>) \<and> r2 = Inl (config_conflict new1) \<and>
     read_config d4 a = Some (cfg1\<lparr>sc_tag := new1\<rparr>)"
proof -
  have "d1 = d" "t1 = t" using assms(1,2,5) by (auto simp: put_check_def)
  moreover from this have "d2 = d" "t2 = t" using assms(1,3,6) by (auto simp: put_check_def)
  ultimately show ?thesis using assms(1,4,7,8) by (auto simp: put_write_def read_config_def Let_def)
qed

definition ex_cfg_db :: db where
  "ex_cfg_db = empty_db\<lparr>db_config := [1 \<mapsto> (''t'', synced_config_default\<lparr>sc_tag := ''t''\<rparr>)]\<rparr>"

theorem put_config_race_witness:
  "\<exists>d3 d4 r1 r2.
     put_write ex_cfg_db 1 (synced_config_default\<lparr>sc_tag := ''t''\<rparr>) ''t'' ''u'' = (d3, r1) \<and>
     put_write d3 1 (synced_config_default\<lparr>sc_tag := ''t''\<rparr>) ''t'' ''v'' = (d4, r2) \<and> r2 = Inl (config_conflict ''u'')"
proof -
  let ?c = "synced_config_default\<lparr>sc_tag := ''t''\<rparr>"
  obtain d3 r1 where w1: "put_write ex_cfg_db 1 ?c ''t'' ''u'' = (d3, r1)"
    by (cases "put_write ex_cfg_db 1 ?c ''t'' ''u''")
  obtain d4 r2 where w2: "put_write d3 1 ?c ''t'' ''v'' = (d4, r2)" by (cases "put_write d3 1 ?c ''t'' ''v''")
  have "db_config ex_cfg_db 1 = Some (''t'', ?c)" "put_check ex_cfg_db 1 ?c s = (ex_cfg_db, Inr ''t'')" for s
    by (simp_all add: ex_cfg_db_def put_check_def)
  with put_config_race [of ex_cfg_db 1 "''t''" ?c ?c ?c "''u''" "''''" ex_cfg_db "''t''" "''''" ex_cfg_db "''t''" d3 r1 "''v''" d4 r2] w1 w2
  show ?thesis by simp
qed

lemma read_config_iff:
  "read_config d a = Some cfg \<longleftrightarrow> (\<exists>t c. db_config d a = Some (t, c) \<and> cfg = c\<lparr>sc_tag := t\<rparr>)"
  by (cases "db_config d a") (auto simp: read_config_def)

lemma read_config_None: "read_config d a = None \<longleftrightarrow> db_config d a = None"
  by (simp add: read_config_def)

lemma seed_new:
  assumes "db_config d a = None"
  shows "seed_default_config d a tag =
     (if a \<in> a_id ` set (db_accounts d)
      then (d\<lparr>db_config := (db_config d)(a \<mapsto> (tag, synced_config_default\<lparr>sc_tag := tag\<rparr>))\<rparr>,
            Inr (synced_config_default\<lparr>sc_tag := tag\<rparr>))
      else (d, Inl (from_sqlx ForeignKeyViolation)))"
  using assms by (simp add: seed_default_config_def list_ex_key read_config_def Let_def)

lemma get_or_seed_stable:
  assumes "get_or_seed_config d a seed = (d1, Inr cfg)"
  shows "read_config d1 a = Some cfg"
proof (cases "read_config d a")
  case None
  with assms show ?thesis
    by (auto simp: get_or_seed_config_def seed_new read_config_None read_config_def split: if_splits)
next
  case (Some c)
  with assms show ?thesis by (simp add: get_or_seed_config_def)
qed

text \<open>The tag protocol on every branch. The first read of an account that exists stores the
  default configuration and later reads return the same; an update with the stored tag is stored
  under the fresh tag and read back; one with any other tag changes nothing and names the stored
  tag; and an account that does not exist gets an error.\<close>

theorem config_protocol:
  "(get_or_seed_config d a seed = (d1, Inr cfg) \<longrightarrow>
      read_config d1 a = Some cfg \<and> get_or_seed_config d1 a seed' = (d1, Inr cfg)) \<and>
   (db_config d a = None \<and> a \<in> a_id ` set (db_accounts d) \<longrightarrow>
      snd (get_or_seed_config d a seed) = Inr (synced_config_default\<lparr>sc_tag := seed\<rparr>)) \<and>
   (db_config d a = None \<and> a \<notin> a_id ` set (db_accounts d) \<longrightarrow>
      get_or_seed_config d a seed = (d, Inl (from_sqlx ForeignKeyViolation))) \<and>
   (read_config d a = Some old \<and> sc_tag upd = sc_tag old \<longrightarrow>
      snd (put_config d a upd seed new) = Inr (upd\<lparr>sc_tag := new\<rparr>) \<and>
      read_config (fst (put_config d a upd seed new)) a = Some (upd\<lparr>sc_tag := new\<rparr>)) \<and>
   (read_config d a = Some old \<and> sc_tag upd \<noteq> sc_tag old \<longrightarrow>
      put_config d a upd seed new = (d, Inl (config_conflict (sc_tag old))))"
proof (intro conjI impI; (elim conjE)?)
  assume "get_or_seed_config d a seed = (d1, Inr cfg)"
  then show "read_config d1 a = Some cfg" by (rule get_or_seed_stable)
  then show "get_or_seed_config d1 a seed' = (d1, Inr cfg)" by (simp add: get_or_seed_config_def)
next
  assume "read_config d a = Some old" "sc_tag upd = sc_tag old"
  then obtain t c where "db_config d a = Some (t, c)" "sc_tag upd = t" by (auto simp: read_config_iff)
  then show "snd (put_config d a upd seed new) = Inr (upd\<lparr>sc_tag := new\<rparr>)"
    and "read_config (fst (put_config d a upd seed new)) a = Some (upd\<lparr>sc_tag := new\<rparr>)"
    by (simp_all add: put_config_stored read_config_def)
next
  assume "read_config d a = Some old" "sc_tag upd \<noteq> sc_tag old"
  then show "put_config d a upd seed new = (d, Inl (config_conflict (sc_tag old)))"
    by (auto simp: read_config_iff put_config_stored)
qed (simp_all add: get_or_seed_config_def read_config_None [THEN iffD2] seed_new)

definition ex_acc_db :: db where
  "ex_acc_db = empty_db\<lparr>db_accounts := [\<lparr>a_id = 1, a_owner_hash = ''phc'', a_created_at = 0\<rparr>]\<rparr>"

theorem config_protocol_witness:
  "snd (get_or_seed_config ex_acc_db 1 ''s'') = Inr (synced_config_default\<lparr>sc_tag := ''s''\<rparr>) \<and>
   put_config ex_cfg_db 1 (synced_config_default\<lparr>sc_tag := ''old''\<rparr>) ''s'' ''n'' = (ex_cfg_db, Inl (config_conflict ''t''))"
proof
  have "db_config ex_acc_db 1 = None \<and> 1 \<in> a_id ` set (db_accounts ex_acc_db)"
    by (simp add: ex_acc_db_def empty_db_def)
  then show "snd (get_or_seed_config ex_acc_db 1 ''s'') = Inr (synced_config_default\<lparr>sc_tag := ''s''\<rparr>)"
    by (rule config_protocol [THEN conjunct2, THEN conjunct1, THEN mp])
  let ?old = "synced_config_default\<lparr>sc_tag := ''t''\<rparr>" and ?upd = "synced_config_default\<lparr>sc_tag := ''old''\<rparr>"
  have "read_config ex_cfg_db 1 = Some ?old \<and> sc_tag ?upd \<noteq> sc_tag ?old"
    by (simp add: ex_cfg_db_def read_config_def)
  then have "put_config ex_cfg_db 1 ?upd ''s'' ''n'' = (ex_cfg_db, Inl (config_conflict (sc_tag ?old)))"
    by (rule config_protocol [THEN conjunct2, THEN conjunct2, THEN conjunct2, THEN conjunct2, THEN mp])
  then show "put_config ex_cfg_db 1 ?upd ''s'' ''n'' = (ex_cfg_db, Inl (config_conflict ''t''))" by simp
qed

end
