(* ===== verification/Server_Auth.thy ===== *)
theory Server_Auth
  imports Server_Db "HOL-Library.List_Lexorder" "HOL-Library.Char_ord" "HOL-Library.Countable"
begin

text \<open>
  Authentication (\<open>savr-server/src/auth.rs\<close>, and the devices and pairing codes of \<open>db.rs\<close>).
  Argon2 and the JWT library are parameters: \<open>argon2_hash\<close> hashes a secret, \<open>phc_valid\<close> tells
  whether a stored hash parses and \<open>argon2_verify\<close> whether a secret matches it, \<open>jwt_encode\<close> signs
  a payload, \<open>jwt_decode key now\<close> checks a token's signature and its
  expiry (with the leeway of \<open>validation\<close>) and returns its payload. A payload is a JSON object,
  each of its fields present or absent; reading it as the claims of one kind of token fails when a
  field of that kind is missing. Random material and clocks are arguments.
\<close>

section \<open>Constants\<close>

definition ACCESS_TTL_SECS :: nat where "ACCESS_TTL_SECS = 15 * 60"
definition SESSION_TTL_SECS :: nat where "SESSION_TTL_SECS = 60 * 60"
definition PAIRING_TTL_SECS :: int where "PAIRING_TTL_SECS = 5 * 60"
definition MAX_PAIR_FAILS :: "32 word" where "MAX_PAIR_FAILS = 5"
definition PAIR_LOCK_SECS :: int where "PAIR_LOCK_SECS = 5 * 60"
definition MAX_ACTIVE_PAIRING_CODES :: nat where "MAX_ACTIVE_PAIRING_CODES = 5"

definition TYP_ACCESS :: string where "TYP_ACCESS = ''access''"
definition TYP_OWNER :: string where "TYP_OWNER = ''owner''"

definition seconds :: "int \<Rightarrow> time" where
  "seconds n = n * 1000000000"

section \<open>Secrets\<close>

definition hash_secret :: "(string \<Rightarrow> message + string) \<Rightarrow> string \<Rightarrow> api_error + string" where
  "hash_secret argon2_hash secret = map_sum internal id (argon2_hash secret)"

definition verify_secret :: "(string \<Rightarrow> bool) \<Rightarrow> (string \<Rightarrow> string \<Rightarrow> bool) \<Rightarrow> string \<Rightarrow> string \<Rightarrow> bool" where
  "verify_secret phc_valid argon2_verify secret stored_hash =
     (if phc_valid stored_hash then argon2_verify secret stored_hash else False)"

section \<open>Random material\<close>

definition ALPHABET :: string where
  "ALPHABET = ''ABCDEFGHJKLMNPQRSTUVWXYZ23456789''"

definition generate_pairing_code :: "byte list \<Rightarrow> string" where
  "generate_pairing_code buf = map (\<lambda>b. ALPHABET ! (unat b mod length ALPHABET)) buf"

definition hex_digit :: "nat \<Rightarrow> char" where
  "hex_digit n = ''0123456789abcdef'' ! n"

definition to_hex :: "byte list \<Rightarrow> string" where
  "to_hex bytes = concat (map (\<lambda>b. [hex_digit (unat b div 16), hex_digit (unat b mod 16)]) bytes)"

definition generate_refresh_secret :: "byte list \<Rightarrow> string" where
  "generate_refresh_secret buf = to_hex buf"

section \<open>Tokens\<close>

record access_claims =
  ac_sub :: string
  ac_acc :: string
  ac_exp :: nat
  ac_typ :: string

record session_claims =
  se_acc :: string
  se_role :: string
  se_exp :: nat
  se_typ :: string

record jwt_payload =
  pl_sub :: "string option"
  pl_acc :: "string option"
  pl_role :: "string option"
  pl_exp :: "nat option"
  pl_typ :: "string option"

definition access_to_payload :: "access_claims \<Rightarrow> jwt_payload" where
  "access_to_payload c =
     \<lparr>pl_sub = Some (ac_sub c), pl_acc = Some (ac_acc c), pl_role = None, pl_exp = Some (ac_exp c),
      pl_typ = Some (ac_typ c)\<rparr>"

definition session_to_payload :: "session_claims \<Rightarrow> jwt_payload" where
  "session_to_payload c =
     \<lparr>pl_sub = None, pl_acc = Some (se_acc c), pl_role = Some (se_role c), pl_exp = Some (se_exp c),
      pl_typ = Some (se_typ c)\<rparr>"

text \<open>Deserialisation: \<open>typ\<close> has a default, the other fields are required.\<close>

definition payload_to_access :: "jwt_payload \<Rightarrow> access_claims option" where
  "payload_to_access p =
     (case (pl_sub p, pl_acc p, pl_exp p) of
        (Some s, Some a, Some e) \<Rightarrow>
          Some \<lparr>ac_sub = s, ac_acc = a, ac_exp = e,
                ac_typ = (case pl_typ p of None \<Rightarrow> [] | Some t \<Rightarrow> t)\<rparr>
      | _ \<Rightarrow> None)"

definition payload_to_session :: "jwt_payload \<Rightarrow> session_claims option" where
  "payload_to_session p =
     (case (pl_acc p, pl_role p, pl_exp p) of
        (Some a, Some r, Some e) \<Rightarrow>
          Some \<lparr>se_acc = a, se_role = r, se_exp = e,
                se_typ = (case pl_typ p of None \<Rightarrow> [] | Some t \<Rightarrow> t)\<rparr>
      | _ \<Rightarrow> None)"

type_synonym jwt_encoder = "byte list \<Rightarrow> jwt_payload \<Rightarrow> message + string"
type_synonym jwt_decoder = "byte list \<Rightarrow> nat \<Rightarrow> string \<Rightarrow> jwt_payload option"

definition mint_access_token ::
  "jwt_encoder \<Rightarrow> (uuid \<Rightarrow> string) \<Rightarrow> byte list \<Rightarrow> nat \<Rightarrow> uuid \<Rightarrow> uuid \<Rightarrow> api_error + string" where
  "mint_access_token jwt_encode uuid_str secret now account device =
     map_sum internal id (jwt_encode secret (access_to_payload
       \<lparr>ac_sub = uuid_str device, ac_acc = uuid_str account, ac_exp = now + ACCESS_TTL_SECS, ac_typ = TYP_ACCESS\<rparr>))"

definition mint_owner_session ::
  "jwt_encoder \<Rightarrow> (uuid \<Rightarrow> string) \<Rightarrow> byte list \<Rightarrow> nat \<Rightarrow> uuid \<Rightarrow> api_error + string" where
  "mint_owner_session jwt_encode uuid_str secret now account =
     map_sum internal id (jwt_encode secret (session_to_payload
       \<lparr>se_acc = uuid_str account, se_role = TYP_OWNER, se_exp = now + SESSION_TTL_SECS, se_typ = TYP_OWNER\<rparr>))"

definition verify_access :: "jwt_decoder \<Rightarrow> byte list \<Rightarrow> nat \<Rightarrow> string \<Rightarrow> api_error + access_claims" where
  "verify_access jwt_decode secret now token =
     bind_res (ok_or (Option.bind (jwt_decode secret now token) payload_to_access)
                 (unauthorized ''invalid or expired access token'')) (\<lambda>claims.
     if ac_typ claims \<noteq> TYP_ACCESS then Inl (unauthorized ''not an access token'') else Inr claims)"

definition verify_owner_session :: "jwt_decoder \<Rightarrow> byte list \<Rightarrow> nat \<Rightarrow> string \<Rightarrow> api_error + session_claims" where
  "verify_owner_session jwt_decode secret now token =
     bind_res (ok_or (Option.bind (jwt_decode secret now token) payload_to_session)
                 (unauthorized ''invalid or expired session token'')) (\<lambda>claims.
     if se_typ claims \<noteq> TYP_OWNER \<or> se_role claims \<noteq> TYP_OWNER
     then Inl (unauthorized ''not an owner session'') else Inr claims)"

section \<open>Devices\<close>

definition create_device ::
  "db \<Rightarrow> uuid \<Rightarrow> uuid \<Rightarrow> string \<Rightarrow> os \<Rightarrow> string \<Rightarrow> time \<Rightarrow> unit db_result" where
  "create_device d account device name os token_hash now =
     (if list_ex (\<lambda>v. d_id v = device) (db_devices d) then (d, Inl (from_sqlx UniqueViolation))
      else if \<not> list_ex (\<lambda>a. a_id a = account) (db_accounts d) then (d, Inl (from_sqlx ForeignKeyViolation))
      else (d\<lparr>db_devices := db_devices d @
              [\<lparr>d_id = device, d_account = account, d_name = name, d_os = os_str os,
                d_token_hash = token_hash, d_last_seen = Some now, d_revoked = False\<rparr>]\<rparr>,
            Inr ()))"

definition device_active :: "db \<Rightarrow> uuid \<Rightarrow> uuid \<Rightarrow> bool" where
  "device_active d account device =
     (case List.find (\<lambda>v. d_id v = device \<and> d_account v = account) (db_devices d) of
        None \<Rightarrow> False | Some v \<Rightarrow> \<not> d_revoked v)"

definition device_credentials :: "db \<Rightarrow> uuid \<Rightarrow> (uuid \<times> string \<times> bool) option" where
  "device_credentials d device =
     map_option (\<lambda>v. (d_account v, d_token_hash v, d_revoked v))
       (List.find (\<lambda>v. d_id v = device) (db_devices d))"

definition list_devices :: "db \<Rightarrow> uuid \<Rightarrow> device list" where
  "list_devices d account =
     map (\<lambda>v. \<lparr>dv_id = d_id v, dv_name = d_name v, dv_os = os_from_str (d_os v),
              dv_last_seen = (case d_last_seen v of None \<Rightarrow> 0 | Some t \<Rightarrow> t)\<rparr>)
       (sort_key d_name (filter (\<lambda>v. d_account v = account \<and> \<not> d_revoked v) (db_devices d)))"

definition revoke_device :: "db \<Rightarrow> uuid \<Rightarrow> uuid \<Rightarrow> db \<times> bool" where
  "revoke_device d account device =
     (let hit = (\<lambda>v. d_id v = device \<and> d_account v = account) in
      (d\<lparr>db_devices := map (\<lambda>v. if hit v then v\<lparr>d_revoked := True\<rparr> else v) (db_devices d)\<rparr>,
       length (filter hit (db_devices d)) = 1))"

definition touch_device :: "db \<Rightarrow> uuid \<Rightarrow> uuid \<Rightarrow> time \<Rightarrow> db" where
  "touch_device d account device now =
     d\<lparr>db_devices := map (\<lambda>v. if d_id v = device \<and> d_account v = account
                               then v\<lparr>d_last_seen := Some now\<rparr> else v) (db_devices d)\<rparr>"

section \<open>Pairing codes\<close>

definition code_live :: "time \<Rightarrow> pairing_row \<Rightarrow> bool" where
  "code_live now p \<longleftrightarrow> \<not> p_used p \<and> now < p_expires_at p"

definition create_pairing_code ::
  "(string \<Rightarrow> api_error + string) \<Rightarrow> db \<Rightarrow> uuid \<Rightarrow> time \<Rightarrow> byte list \<Rightarrow> uuid \<Rightarrow> (string \<times> time) db_result" where
  "create_pairing_code hash d account now entropy i =
     (let active = length (filter (\<lambda>p. p_account p = account \<and> code_live now p) (db_pairing d)) in
      if MAX_ACTIVE_PAIRING_CODES \<le> active
      then (d, Inl (too_many ''too many active pairing codes; wait for one to expire''))
      else
        (let code = generate_pairing_code entropy;
             expires_at = now + seconds PAIRING_TTL_SECS in
         case hash code of
           Inl e \<Rightarrow> (d, Inl e)
         | Inr code_hash \<Rightarrow>
             if list_ex (\<lambda>p. p_id p = i) (db_pairing d) then (d, Inl (from_sqlx UniqueViolation))
             else if \<not> list_ex (\<lambda>a. a_id a = account) (db_accounts d) then (d, Inl (from_sqlx ForeignKeyViolation))
             else (d\<lparr>db_pairing := db_pairing d @
                     [\<lparr>p_id = i, p_account = account, p_code_hash = code_hash,
                       p_expires_at = expires_at, p_used = False, p_created_at = now\<rparr>]\<rparr>,
                   Inr (code, expires_at))))"

text \<open>\<open>UPDATE pairing_codes SET used = 1 WHERE id = ? AND used = 0\<close>, and whether it changed a row.\<close>

definition burn_code :: "uuid \<Rightarrow> db \<Rightarrow> db \<times> bool" where
  "burn_code i d =
     (let hit = (\<lambda>p. p_id p = i \<and> \<not> p_used p) in
      (d\<lparr>db_pairing := map (\<lambda>p. if hit p then p\<lparr>p_used := True\<rparr> else p) (db_pairing d)\<rparr>,
       length (filter hit (db_pairing d)) = 1))"

text \<open>
  The live codes are read first and then tried one by one; other requests may run in between, so
  the rows that were read and the database the burning runs against are separate arguments.
\<close>

fun redeem_loop :: "(string \<Rightarrow> string \<Rightarrow> bool) \<Rightarrow> string \<Rightarrow> pairing_row list \<Rightarrow> db \<Rightarrow> db \<times> uuid option" where
  "redeem_loop verify code [] d = (d, None)"
| "redeem_loop verify code (p # ps) d =
     (if verify code (p_code_hash p)
      then (let (d1, burned) = burn_code (p_id p) d in
            if burned then (d1, Some (p_account p)) else redeem_loop verify code ps d1)
      else redeem_loop verify code ps d)"

definition live_codes :: "db \<Rightarrow> time \<Rightarrow> pairing_row list" where
  "live_codes d now = filter (code_live now) (db_pairing d)"

definition redeem_pairing_code ::
  "(string \<Rightarrow> string \<Rightarrow> bool) \<Rightarrow> db \<Rightarrow> string \<Rightarrow> time \<Rightarrow> db \<times> uuid option" where
  "redeem_pairing_code verify d code now = redeem_loop verify code (live_codes d now) d"

section \<open>Lockout\<close>

record pair_guard =
  pg_fails :: "32 word"
  pg_locked_until :: "time option"

definition pair_guard_new :: pair_guard where
  "pair_guard_new = \<lparr>pg_fails = 0, pg_locked_until = None\<rparr>"

definition guard_check :: "pair_guard \<Rightarrow> time \<Rightarrow> api_error + unit" where
  "guard_check g now =
     (case pg_locked_until g of
        Some until \<Rightarrow>
          if now < until then Inl (too_many ''too many failed pairing attempts; try again later'') else Inr ()
      | None \<Rightarrow> Inr ())"

definition record_fail :: "pair_guard \<Rightarrow> time \<Rightarrow> pair_guard" where
  "record_fail g now =
     (let g1 = (case pg_locked_until g of
                  Some until \<Rightarrow> if until \<le> now then g\<lparr>pg_fails := 0, pg_locked_until := None\<rparr> else g
                | None \<Rightarrow> g);
          g2 = g1\<lparr>pg_fails := pg_fails g1 + 1\<rparr> in
      if MAX_PAIR_FAILS \<le> pg_fails g2
      then g2\<lparr>pg_locked_until := Some (now + seconds PAIR_LOCK_SECS)\<rparr> else g2)"

definition record_success :: "pair_guard \<Rightarrow> pair_guard" where
  "record_success g = g\<lparr>pg_fails := 0, pg_locked_until := None\<rparr>"

section \<open>Frame: these operations keep the history well-formed\<close>

lemma db_wf_pairing [simp]: "db_wf (d\<lparr>db_pairing := ps\<rparr>) = db_wf d"
  by (simp add: db_wf_def versions_wf_def games_wf_def refcount_wf_def references_def
      version_ids_def game_keys_def)

lemma db_wf_devices:
  assumes "db_wf d" and "d_id ` set (db_devices d) \<subseteq> d_id ` set ds"
  shows "db_wf (d\<lparr>db_devices := ds\<rparr>)"
proof -
  have wf: "versions_wf d" "games_wf d" "refcount_wf d" using assms(1) by (simp_all add: db_wf_def)
  have "versions_wf (d\<lparr>db_devices := ds\<rparr>)"
    using wf(1) by (rule versions_wf_cong) (simp_all add: game_keys_def assms(2))
  moreover have "games_wf (d\<lparr>db_devices := ds\<rparr>)" using wf(2) by (simp add: games_wf_def)
  moreover have "refcount_wf (d\<lparr>db_devices := ds\<rparr>)" using wf(3) by (simp add: refcount_wf_def references_def)
  ultimately show ?thesis by (simp add: db_wf_def)
qed

lemma create_device_wf: "db_wf d \<Longrightarrow> db_wf (fst (create_device d a i n os h now))"
  by (auto simp: create_device_def intro: db_wf_devices)

lemma update_device_ids:
  "(\<And>v. d_id (f v) = d_id v) \<Longrightarrow> d_id ` set (map (\<lambda>v. if P v then f v else v) vs) = d_id ` set vs"
  by (induction vs) auto

lemma revoke_device_wf: "db_wf d \<Longrightarrow> db_wf (fst (revoke_device d a i))"
  unfolding revoke_device_def Let_def fst_conv
  by (erule db_wf_devices, subst update_device_ids) simp_all

lemma touch_device_wf: "db_wf d \<Longrightarrow> db_wf (touch_device d a i now)"
  unfolding touch_device_def
  by (erule db_wf_devices, subst update_device_ids) simp_all

lemma create_pairing_code_frame: "\<exists>ps. fst (create_pairing_code hs d a now e i) = d\<lparr>db_pairing := ps\<rparr>"
proof -
  have "\<exists>ps. d = d\<lparr>db_pairing := ps\<rparr>" by (rule exI [of _ "db_pairing d"]) simp
  then show ?thesis by (auto simp: create_pairing_code_def Let_def split: sum.split)
qed

lemma redeem_loop_frame: "\<exists>ps'. fst (redeem_loop verify code ps d) = d\<lparr>db_pairing := ps'\<rparr>"
proof (induction ps arbitrary: d)
  case Nil
  show ?case by (rule exI [of _ "db_pairing d"]) simp
next
  case (Cons p ps)
  show ?case
    using Cons [of d] Cons [of "fst (burn_code (p_id p) d)"] by (auto simp: burn_code_def Let_def)
qed

section \<open>Single use\<close>

text \<open>What a redemption does: it burns the first code that matches and was not burned meanwhile.\<close>

lemma burn_code_iff:
  assumes "distinct (map p_id (db_pairing d))"
  shows "snd (burn_code i d) \<longleftrightarrow> (\<exists>p \<in> set (db_pairing d). p_id p = i \<and> \<not> p_used p)"
proof (cases "\<exists>p \<in> set (db_pairing d). p_id p = i \<and> \<not> p_used p")
  case True
  then obtain p where "p \<in> set (db_pairing d)" "p_id p = i \<and> \<not> p_used p" by blast
  with assms have "filter (\<lambda>p. p_id p = i \<and> \<not> p_used p) (db_pairing d) = [p]"
    by (intro filter_key_singleton [where k = p_id and c = i]) auto
  with True show ?thesis by (simp add: burn_code_def)
next
  case False
  then have "filter (\<lambda>p. p_id p = i \<and> \<not> p_used p) (db_pairing d) = []" by (auto simp: filter_empty_conv)
  with False show ?thesis by (simp add: burn_code_def)
qed

text \<open>The codes that are still usable; burning and redeeming only ever remove from them.\<close>

definition unused_ids :: "db \<Rightarrow> uuid set" where
  "unused_ids d = p_id ` {p \<in> set (db_pairing d). \<not> p_used p}"

lemma burn_code_ids [simp]: "map p_id (db_pairing (fst (burn_code i d))) = map p_id (db_pairing d)"
  by (simp add: burn_code_def)

lemma in_unused_ids: "i \<in> unused_ids d \<longleftrightarrow> (\<exists>p \<in> set (db_pairing d). p_id p = i \<and> \<not> p_used p)"
  by (auto simp: unused_ids_def)

lemma burn_code_unused: "unused_ids (fst (burn_code i d)) = unused_ids d - {i}"
proof (rule set_eqI)
  fix j
  have "(\<exists>p \<in> set (map (\<lambda>p. if p_id p = i \<and> \<not> p_used p then p\<lparr>p_used := True\<rparr> else p) ps). p_id p = j \<and> \<not> p_used p)
      \<longleftrightarrow> (\<exists>p \<in> set ps. p_id p = j \<and> \<not> p_used p) \<and> j \<noteq> i" for ps
    by (induction ps) auto
  then show "j \<in> unused_ids (fst (burn_code i d)) \<longleftrightarrow> j \<in> unused_ids d - {i}"
    by (simp add: in_unused_ids burn_code_def Let_def)
qed

lemma redeem_loop_spec:
  assumes "distinct (map p_id (db_pairing d))"
  shows "case redeem_loop verify code ps d of
      (d', None) \<Rightarrow> unused_ids d' = unused_ids d \<and> (\<forall>p \<in> set ps. verify code (p_code_hash p) \<longrightarrow> p_id p \<notin> unused_ids d)
    | (d', Some a) \<Rightarrow> (\<exists>p \<in> set ps. verify code (p_code_hash p) \<and> p_account p = a \<and> p_id p \<in> unused_ids d \<and>
        unused_ids d' = unused_ids d - {p_id p})"
  using assms
proof (induction ps arbitrary: d)
  case Nil
  then show ?case by simp
next
  case (Cons p ps)
  have burned: "snd (burn_code (p_id p) d) \<longleftrightarrow> p_id p \<in> unused_ids d"
    using burn_code_iff [OF Cons.prems, of "p_id p"] by (simp only: in_unused_ids)
  let ?d1 = "fst (burn_code (p_id p) d)"
  show ?case
  proof (cases "verify code (p_code_hash p)")
    case False
    with Cons.IH [OF Cons.prems] show ?thesis by (auto split: prod.splits option.splits)
  next
    case v: True
    show ?thesis
    proof (cases "p_id p \<in> unused_ids d")
      case True
      with v burned show ?thesis by (auto simp: split_beta burn_code_unused)
    next
      case False
      then have "unused_ids ?d1 = unused_ids d" by (simp add: burn_code_unused)
      moreover have "distinct (map p_id (db_pairing ?d1))" using Cons.prems by simp
      ultimately show ?thesis using Cons.IH [of ?d1] v False burned
        by (simp add: split_beta split: prod.splits option.splits)
    qed
  qed
qed

section \<open>The lockout\<close>

text \<open>Failed attempts to pair: each is a time of the check and a time of the record after it. An
  attempt that the check refuses tries no code.\<close>

fun admitted :: "pair_guard \<Rightarrow> (time \<times> time) list \<Rightarrow> nat" where
  "admitted g [] = 0"
| "admitted g ((t, t') # ts) =
     (if is_ok (guard_check g t) then Suc (admitted (record_fail g t') ts) else admitted g ts)"

definition guard_inv :: "pair_guard \<Rightarrow> bool" where
  "guard_inv g \<longleftrightarrow> (pg_locked_until g = None \<longrightarrow> pg_fails g < MAX_PAIR_FAILS)"

lemma word_below_5: "(n :: 32 word) < 5 \<Longrightarrow> n = 0 \<or> n = 1 \<or> n = 2 \<or> n = 3 \<or> n = 4"
proof -
  assume "n < 5"
  then have "unat n < 5" by (simp add: word_less_nat_alt)
  then consider "unat n = 0" | "unat n = 1" | "unat n = 2" | "unat n = 3" | "unat n = 4" by linarith
  then show ?thesis by cases (simp_all add: word_unat_eq_iff)
qed

lemma record_fail_free:
  assumes "pg_locked_until g = None" and "pg_fails g < MAX_PAIR_FAILS"
  shows "record_fail g t =
     (if pg_fails g = 4 then \<lparr>pg_fails = 5, pg_locked_until = Some (t + seconds PAIR_LOCK_SECS), \<dots> = pair_guard.more g\<rparr>
      else g\<lparr>pg_fails := pg_fails g + 1\<rparr>)"
  using word_below_5 [of "pg_fails g"] assms by (cases g) (auto simp: record_fail_def MAX_PAIR_FAILS_def Let_def word_le_nat_alt)

lemma record_fail_expired:
  assumes "pg_locked_until g = Some u" and "u \<le> t"
  shows "record_fail g t = g\<lparr>pg_fails := 1, pg_locked_until := None\<rparr>"
  using assms by (cases g) (simp add: record_fail_def MAX_PAIR_FAILS_def Let_def word_le_nat_alt)

lemma record_fail_inv: "guard_inv g \<Longrightarrow> is_ok (guard_check g t) \<Longrightarrow> t \<le> t' \<Longrightarrow> guard_inv (record_fail g t')"
proof (cases "pg_locked_until g")
  case None
  moreover assume "guard_inv g"
  ultimately show ?thesis using word_below_5 [of "pg_fails g"]
    by (auto simp: guard_inv_def record_fail_free MAX_PAIR_FAILS_def)
next
  case (Some u)
  moreover assume "is_ok (guard_check g t)" "t \<le> t'"
  ultimately show ?thesis
    by (auto simp: guard_inv_def guard_check_def record_fail_expired MAX_PAIR_FAILS_def split: if_splits)
qed

text \<open>How many more attempts before the time \<open>T\<close> a guard can admit.\<close>

definition budget :: "time \<Rightarrow> pair_guard \<Rightarrow> nat" where
  "budget T g = (case pg_locked_until g of Some u \<Rightarrow> if T \<le> u then 0 else 5 | None \<Rightarrow> 5 - unat (pg_fails g))"

lemma budget_step:
  assumes "guard_inv g" and "is_ok (guard_check g t)" and "t \<le> t'" and "t < T" and "T \<le> t' + seconds PAIR_LOCK_SECS"
  shows "Suc (budget T (record_fail g t')) \<le> budget T g"
proof (cases "pg_locked_until g")
  case None
  with assms(1) have f: "pg_fails g < MAX_PAIR_FAILS" by (simp add: guard_inv_def)
  show ?thesis
    using word_below_5 [of "pg_fails g"] f assms(5)
    by (auto simp: record_fail_free [OF None f] budget_def None MAX_PAIR_FAILS_def)
next
  case (Some u)
  with assms(2) have "u \<le> t" by (simp add: guard_check_def split: if_splits)
  with Some assms(3,4) show ?thesis by (simp add: record_fail_expired budget_def)
qed

lemma admitted_le_budget:
  assumes "guard_inv g" and "\<forall>(t, t') \<in> set ts. t \<le> t' \<and> t < T \<and> T \<le> t' + seconds PAIR_LOCK_SECS"
  shows "admitted g ts \<le> budget T g"
  using assms
proof (induction ts arbitrary: g)
  case Nil
  then show ?case by simp
next
  case (Cons x ts)
  obtain t t' where x: "x = (t, t')" by (cases x)
  show ?case
  proof (cases "is_ok (guard_check g t)")
    case True
    with Cons.prems x have "guard_inv (record_fail g t')" by (auto intro: record_fail_inv)
    with Cons have "admitted (record_fail g t') ts \<le> budget T (record_fail g t')" by simp
    moreover have "Suc (budget T (record_fail g t')) \<le> budget T g"
      using Cons.prems x True by (intro budget_step [of _ t]) auto
    ultimately show ?thesis using x True by simp
  next
    case False
    with Cons x show ?thesis by simp
  qed
qed

section \<open>Properties\<close>



text \<open>C31: a pairing code pairs one device. Two requests that present codes, the second of which read
  the table of live codes before the first one burned its code: they never both succeed with the
  same code. The first one that succeeds leaves its code unusable for good, and a success always
  comes from an unused, unexpired code whose hash matches, and yields that code's account.\<close>

theorem pairing_code_single_use:
  assumes "distinct (map p_id (db_pairing d))"
    and "redeem_pairing_code verify d code1 now1 = (d1, Some a1)"
    and "redeem_loop verify code2 (live_codes d now2) d1 = (d2, Some a2)"
  shows "\<exists>p1 \<in> set (db_pairing d). \<exists>p2 \<in> set (db_pairing d). p_id p1 \<noteq> p_id p2 \<and>
     verify code1 (p_code_hash p1) \<and> \<not> p_used p1 \<and> now1 < p_expires_at p1 \<and> p_account p1 = a1 \<and>
     verify code2 (p_code_hash p2) \<and> \<not> p_used p2 \<and> now2 < p_expires_at p2 \<and> p_account p2 = a2 \<and>
     {p_id p1, p_id p2} \<inter> unused_ids d2 = {}"
proof -
  from redeem_loop_spec [OF assms(1), where verify = verify and code = code1 and ps = "live_codes d now1"] assms(2)
  obtain p1 where p1: "p1 \<in> set (live_codes d now1)" "verify code1 (p_code_hash p1)" "p_account p1 = a1"
    and u1: "unused_ids d1 = unused_ids d - {p_id p1}" by (auto simp: redeem_pairing_code_def)
  have "map p_id (db_pairing (fst (redeem_loop verify c ps e))) = map p_id (db_pairing e)" for c ps e
    by (induction ps arbitrary: e) (simp_all add: Let_def split_beta)
  with assms(1,2) have "distinct (map p_id (db_pairing d1))" by (metis fst_conv redeem_pairing_code_def)
  from redeem_loop_spec [OF this, where verify = verify and code = code2 and ps = "live_codes d now2"] assms(3)
  obtain p2 where p2: "p2 \<in> set (live_codes d now2)" "verify code2 (p_code_hash p2)" "p_account p2 = a2"
    and u2: "p_id p2 \<in> unused_ids d1" "unused_ids d2 = unused_ids d1 - {p_id p2}" by auto
  from p1 p2 u1 u2 show ?thesis by (fastforce simp: live_codes_def code_live_def)
qed

definition ex_pair_db :: db where
  "ex_pair_db = empty_db\<lparr>db_pairing :=
     [\<lparr>p_id = 1, p_account = 7, p_code_hash = ''A'', p_expires_at = 10, p_used = False, p_created_at = 0\<rparr>,
      \<lparr>p_id = 2, p_account = 7, p_code_hash = ''A'', p_expires_at = 10, p_used = False, p_created_at = 0\<rparr>]\<rparr>"

theorem pairing_code_single_use_witness:
  "\<exists>p1 \<in> set (db_pairing ex_pair_db). \<exists>p2 \<in> set (db_pairing ex_pair_db). p_id p1 \<noteq> p_id p2 \<and>
     p_account p1 = 7 \<and> p_account p2 = 7"
proof -
  let ?d1 = "fst (redeem_pairing_code (=) ex_pair_db ''A'' 1)"
  have "distinct (map p_id (db_pairing ex_pair_db))"
    "redeem_pairing_code (=) ex_pair_db ''A'' 1 = (?d1, Some 7)"
    "redeem_loop (=) ''A'' (live_codes ex_pair_db 2) ?d1 = (fst (redeem_loop (=) ''A'' (live_codes ex_pair_db 2) ?d1), Some 7)"
    by (simp_all add: ex_pair_db_def redeem_pairing_code_def live_codes_def code_live_def burn_code_def)
  from pairing_code_single_use [OF this] show ?thesis by blast
qed

text \<open>The two kinds of token are never confused. What the server signs as a device's access
  token is accepted as such until it expires, with the device and the account it was minted for,
  and is never accepted as an owner session; and the other way round. Asked of the JWT library is
  that it returns the payload it signed, and nothing after the expiry and its leeway.\<close>

theorem token_kinds_separate:
  assumes jwt: "\<And>p e t tok. jwt_encode key p = Inr tok \<Longrightarrow> pl_exp p = Some e \<Longrightarrow>
      jwt_decode key t tok = (if t \<le> e + 5 then Some p else None)"
    and "mint_access_token jwt_encode uuid_str key now account device = Inr access"
    and "mint_owner_session jwt_encode uuid_str key now account = Inr session"
  shows "verify_access jwt_decode key later access =
       (if later \<le> now + 905
        then Inr \<lparr>ac_sub = uuid_str device, ac_acc = uuid_str account, ac_exp = now + 900, ac_typ = ''access''\<rparr>
        else Inl (unauthorized ''invalid or expired access token'')) \<and>
     verify_owner_session jwt_decode key later session =
       (if later \<le> now + 3605
        then Inr \<lparr>se_acc = uuid_str account, se_role = ''owner'', se_exp = now + 3600, se_typ = ''owner''\<rparr>
        else Inl (unauthorized ''invalid or expired session token'')) \<and>
     \<not> is_ok (verify_access jwt_decode key later session) \<and>
     \<not> is_ok (verify_owner_session jwt_decode key later access)"
proof -
  let ?a = "\<lparr>ac_sub = uuid_str device, ac_acc = uuid_str account, ac_exp = now + 900, ac_typ = ''access''\<rparr>"
  let ?s = "\<lparr>se_acc = uuid_str account, se_role = ''owner'', se_exp = now + 3600, se_typ = ''owner''\<rparr>"
  have enc: "jwt_encode key (access_to_payload ?a) = Inr access" "jwt_encode key (session_to_payload ?s) = Inr session"
    using assms(2,3)
    by (auto simp: mint_access_token_def mint_owner_session_def TYP_ACCESS_def TYP_OWNER_def
        ACCESS_TTL_SECS_def SESSION_TTL_SECS_def map_sum_def split: sum.splits)
  have "jwt_decode key later access = (if later \<le> now + 905 then Some (access_to_payload ?a) else None)"
    using jwt [OF enc(1), of "now + 900" later] by (simp add: access_to_payload_def)
  moreover have "jwt_decode key later session = (if later \<le> now + 3605 then Some (session_to_payload ?s) else None)"
    using jwt [OF enc(2), of "now + 3600" later] by (simp add: session_to_payload_def)
  ultimately show ?thesis
    by (auto simp: verify_access_def verify_owner_session_def access_to_payload_def session_to_payload_def
        payload_to_access_def payload_to_session_def TYP_ACCESS_def TYP_OWNER_def)
qed

text \<open>An encoder and a decoder for which the law holds, through a numbering of the payloads.\<close>

definition ex_encode :: jwt_encoder where
  "ex_encode key p = Inr (replicate (to_nat (pl_sub p, pl_acc p, pl_role p, pl_exp p, pl_typ p)) CHR ''x'')"

definition ex_decode :: jwt_decoder where
  "ex_decode key now s =
     (case from_nat (length s) of (su, ac, ro, ex, ty) \<Rightarrow>
        (case ex of None \<Rightarrow> None
         | Some e \<Rightarrow> if now \<le> e + 5 then Some \<lparr>pl_sub = su, pl_acc = ac, pl_role = ro, pl_exp = ex, pl_typ = ty\<rparr> else None))"

theorem token_kinds_separate_witness:
  "\<exists>access session. mint_access_token ex_encode (\<lambda>_. ''u'') [1] 0 1 2 = Inr access \<and>
     mint_owner_session ex_encode (\<lambda>_. ''u'') [1] 0 1 = Inr session \<and>
     is_ok (verify_access ex_decode [1] 0 access) \<and> \<not> is_ok (verify_access ex_decode [1] 0 session)"
proof -
  have jwt: "ex_encode [1] p = Inr tok \<Longrightarrow> pl_exp p = Some e \<Longrightarrow>
      ex_decode [1] t tok = (if t \<le> e + 5 then Some p else None)" for p e t tok
    by (cases p) (auto simp: ex_decode_def ex_encode_def)
  obtain access session where "mint_access_token ex_encode (\<lambda>_. ''u'') [1] 0 1 2 = Inr access"
    "mint_owner_session ex_encode (\<lambda>_. ''u'') [1] 0 1 = Inr session"
    by (simp add: mint_access_token_def mint_owner_session_def ex_encode_def)
  with token_kinds_separate [of ex_encode "[1]" ex_decode, OF jwt this, of 0] show ?thesis by simp
qed

definition all_revoked :: "db \<Rightarrow> uuid \<Rightarrow> bool" where
  "all_revoked d i \<longleftrightarrow> (\<forall>v \<in> set (db_devices d). d_id v = i \<longrightarrow> d_revoked v)"

lemma all_revoked_inactive: "all_revoked d i \<Longrightarrow> \<not> device_active d b i"
  by (auto simp: all_revoked_def device_active_def split: option.split dest!: find_Some_set)

lemma all_revoked_touch: "all_revoked d i \<Longrightarrow> all_revoked (touch_device d b j now) i"
  by (auto simp: all_revoked_def touch_device_def)

text \<open>Revocation. Revoking a device of the account succeeds exactly when the account has it, and
  from then on the device is inactive for every account and not listed, while every other device
  is as before; marking a device as seen never brings it back.\<close>

theorem revoke_device_effective:
  assumes "distinct (map d_id (db_devices d))" and "revoke_device d a i = (d', ok)"
  shows "(ok \<longleftrightarrow> (\<exists>v \<in> set (db_devices d). d_id v = i \<and> d_account v = a)) \<and>
     (ok \<longrightarrow> \<not> device_active d' b i \<and> \<not> device_active (touch_device d' b i now) b i \<and>
        i \<notin> dv_id ` set (list_devices d' b)) \<and>
     (\<forall>j. j \<noteq> i \<longrightarrow> device_active d' b j = device_active d b j \<and> device_credentials d' j = device_credentials d j)"
proof -
  let ?hit = "\<lambda>v. d_id v = i \<and> d_account v = a"
  let ?f = "\<lambda>v. if ?hit v then v\<lparr>d_revoked := True\<rparr> else v"
  have d': "db_devices d' = map ?f (db_devices d)" and ok: "ok \<longleftrightarrow> length (filter ?hit (db_devices d)) = 1"
    using assms(2) by (auto simp: revoke_device_def Let_def)
  have one: "filter ?hit (db_devices d) = [v]" if "v \<in> set (db_devices d)" "?hit v" for v
    using assms(1) that by (intro filter_key_singleton [where k = d_id and c = i]) auto
  have ok_iff: "ok \<longleftrightarrow> (\<exists>v \<in> set (db_devices d). ?hit v)"
  proof
    assume ok
    with ok have "filter ?hit (db_devices d) \<noteq> []" by auto
    then show "\<exists>v \<in> set (db_devices d). ?hit v" by (auto simp: filter_empty_conv)
  qed (use ok one in auto)
  have gone: "\<forall>v \<in> set (db_devices d'). d_id v = i \<longrightarrow> d_revoked v" if ok
  proof -
    from that ok_iff obtain v where v: "v \<in> set (db_devices d)" "?hit v" by blast
    have "w = v" if "w \<in> set (db_devices d)" "d_id w = i" for w
      using assms(1) v that by (auto dest: distinct_map_inj)
    with v show ?thesis by (auto simp: d')
  qed
  have same: "List.find (\<lambda>v. d_id v = j \<and> d_account v = b) (map ?f vs) = List.find (\<lambda>v. d_id v = j \<and> d_account v = b) vs"
    "List.find (\<lambda>v. d_id v = j) (map ?f vs) = List.find (\<lambda>v. d_id v = j) vs" if "j \<noteq> i" for j vs
    using that by (induction vs) auto
  have "device_active d' b j = device_active d b j \<and> device_credentials d' j = device_credentials d j" if "j \<noteq> i" for j
    using that by (simp add: device_active_def device_credentials_def d' same)
  moreover have "\<not> device_active d' b i \<and> \<not> device_active (touch_device d' b i now) b i \<and> i \<notin> dv_id ` set (list_devices d' b)" if ok
  proof (intro conjI)
    have g: "all_revoked d' i" using gone [OF that] by (simp add: all_revoked_def)
    then show "\<not> device_active d' b i" by (rule all_revoked_inactive)
    show "\<not> device_active (touch_device d' b i now) b i"
      using all_revoked_touch [OF g] by (rule all_revoked_inactive)
    show "i \<notin> dv_id ` set (list_devices d' b)"
      using g by (force simp: all_revoked_def list_devices_def)
  qed
  ultimately show ?thesis using ok_iff by auto
qed

definition ex_dev_db :: db where
  "ex_dev_db = empty_db\<lparr>db_devices :=
     [\<lparr>d_id = 2, d_account = 1, d_name = ''pc'', d_os = ''linux'', d_token_hash = ''t'', d_last_seen = None, d_revoked = False\<rparr>]\<rparr>"

theorem revoke_device_effective_witness:
  "device_active ex_dev_db 1 2 \<and> \<not> device_active (fst (revoke_device ex_dev_db 1 2)) 1 2"
proof -
  have "distinct (map d_id (db_devices ex_dev_db))" "revoke_device ex_dev_db 1 2 = (fst (revoke_device ex_dev_db 1 2), True)"
    "device_active ex_dev_db 1 2"
    by (simp_all add: ex_dev_db_def revoke_device_def device_active_def)
  with revoke_device_effective [of ex_dev_db 1 2 "fst (revoke_device ex_dev_db 1 2)" True] show ?thesis by blast
qed

end
