(* ===== verification/Server_Hub.thy ===== *)
theory Server_Hub
  imports Server_Error "HOL-Library.AList"
begin

text \<open>
  \<open>savr-server/src/hub.rs\<close>: which devices have a live socket, and the fan-out of pushes. A nested
  hash map is a nested association list without duplicate keys; the order in which a hash map is
  traversed does not matter, as the senders of different sockets differ. An unbounded channel is
  its number and the queue of what was sent and not yet received; sending to a channel whose
  receiver is gone has no effect, as the code ignores that error.
\<close>

type_synonym chan = nat
type_synonym device_map = "(uuid \<times> chan) list"
type_synonym hub = "(uuid \<times> device_map) list"
type_synonym chans = "chan \<rightharpoonup> server_msg list"

definition send :: "chan \<Rightarrow> server_msg \<Rightarrow> chans \<Rightarrow> chans" where
  "send tx msg cs = (case cs tx of None \<Rightarrow> cs | Some q \<Rightarrow> cs(tx \<mapsto> q @ [msg]))"

definition hub_new :: hub where
  "hub_new = []"

definition devices_of :: "hub \<Rightarrow> uuid \<Rightarrow> device_map" where
  "devices_of h account = (case map_of h account of None \<Rightarrow> [] | Some devs \<Rightarrow> devs)"

definition register :: "hub \<Rightarrow> uuid \<Rightarrow> uuid \<Rightarrow> chan \<Rightarrow> hub" where
  "register h account device tx = AList.update account (AList.update device tx (devices_of h account)) h"

definition deregister :: "hub \<Rightarrow> uuid \<Rightarrow> uuid \<Rightarrow> hub" where
  "deregister h account device =
     (case map_of h account of
        None \<Rightarrow> h
      | Some devs \<Rightarrow>
          (let devs' = AList.delete device devs in
           if devs' = [] then AList.delete account h else AList.update account devs' h))"

definition broadcast_except :: "hub \<Rightarrow> uuid \<Rightarrow> uuid \<Rightarrow> server_msg \<Rightarrow> chans \<Rightarrow> chans" where
  "broadcast_except h account except msg cs =
     (case map_of h account of
        None \<Rightarrow> cs
      | Some devs \<Rightarrow> fold (\<lambda>(id, tx) cs. if id \<noteq> except then send tx msg cs else cs) devs cs)"

definition broadcast_account :: "hub \<Rightarrow> uuid \<Rightarrow> server_msg \<Rightarrow> chans \<Rightarrow> chans" where
  "broadcast_account h account msg cs =
     (case map_of h account of
        None \<Rightarrow> cs
      | Some devs \<Rightarrow> fold (\<lambda>(_, tx) cs. send tx msg cs) devs cs)"

definition drop_device :: "hub \<Rightarrow> uuid \<Rightarrow> uuid \<Rightarrow> hub" where
  "drop_device h account device = deregister h account device"

definition device_count :: "hub \<Rightarrow> uuid \<Rightarrow> nat" where
  "device_count h account = (case map_of h account of None \<Rightarrow> 0 | Some devs \<Rightarrow> length devs)"

section \<open>The presence map as a keyed store\<close>

definition hub_chan :: "hub \<Rightarrow> uuid \<times> uuid \<Rightarrow> chan option" where
  "hub_chan h k = map_of (devices_of h (fst k)) (snd k)"

lemma devices_of_update: "devices_of (AList.update a devs h) b = (if b = a then devs else devices_of h b)"
  by (simp add: devices_of_def update_conv')

interpretation presence: keyed_store hub_chan "\<lambda>h k tx. register h (fst k) (snd k) tx"
  by unfold_locales (auto simp: hub_chan_def register_def devices_of_update update_conv' prod_eq_iff)

lemma hub_chan_deregister:
  "hub_chan (deregister h a i) k = (if k = (a, i) then None else hub_chan h k)"
proof (cases "map_of h a")
  case None
  then show ?thesis by (auto simp: deregister_def hub_chan_def devices_of_def)
next
  case (Some devs)
  have del: "map_of (AList.delete i devs) = (map_of devs)(i := None)" by (rule delete_conv')
  show ?thesis
  proof (cases "AList.delete i devs = []")
    case True
    then have "\<forall>j. j \<noteq> i \<longrightarrow> map_of devs j = None" using del
      by (metis fun_upd_other map_of.simps(1))
    with Some True show ?thesis
      by (cases k) (auto simp: deregister_def hub_chan_def devices_of_def delete_conv' split: option.split)
  next
    case False
    with Some show ?thesis
      by (cases k) (auto simp: deregister_def hub_chan_def devices_of_def delete_conv' update_conv' split: option.split)
  qed
qed

section \<open>Well-formed hubs\<close>

text \<open>Keys are distinct, and no two sockets of an account share a channel.\<close>

definition hub_wf :: "hub \<Rightarrow> bool" where
  "hub_wf h \<longleftrightarrow> distinct (map fst h) \<and>
     (\<forall>(a, devs) \<in> set h. distinct (map fst devs) \<and> distinct (map snd devs))"

lemma hub_wf_devices: "hub_wf h \<Longrightarrow> distinct (map fst (devices_of h a)) \<and> distinct (map snd (devices_of h a))"
  by (auto simp: hub_wf_def devices_of_def split: option.split dest!: map_of_SomeD)

lemma send_fold:
  assumes "distinct (map snd devs)"
  shows "fold (\<lambda>(id, tx) cs. if P id then send tx msg cs else cs) devs cs tx =
     (if \<exists>id. (id, tx) \<in> set devs \<and> P id then map_option (\<lambda>q. q @ [msg]) (cs tx) else cs tx)"
  using assms
proof (induction devs arbitrary: cs)
  case Nil
  then show ?case by simp
next
  case (Cons x devs)
  obtain i t where x: "x = (i, t)" by (cases x)
  have only: "(j, t) \<notin> set devs" for j using Cons.prems x by (force simp: image_iff)
  show ?case
    using Cons x only by (cases "tx = t") (auto simp: send_def split: option.split)
qed

text \<open>A socket with a channel of its own can come and any socket can go.\<close>

lemma set_alist_update: "set (AList.update k v xs) \<subseteq> insert (k, v) (set xs)"
  by (induction xs) auto

lemma distinct_snd_update:
  assumes "distinct (map snd xs)" and "\<forall>i. (i, t) \<in> set xs \<longrightarrow> i = k" and "distinct (map fst xs)"
  shows "distinct (map snd (AList.update k t xs))"
  using assms
proof (induction xs)
  case Nil
  then show ?case by simp
next
  case (Cons x xs)
  obtain i u where x: "x = (i, u)" by (cases x)
  show ?case
  proof (cases "i = k")
    case True
    have "(j, t) \<notin> set xs" for j
    proof
      assume j: "(j, t) \<in> set xs"
      then have "j \<in> fst ` set xs" by (rule image_eqI [rotated]) simp
      moreover have "j = i" using Cons.prems(2) x True j by simp
      ultimately show False using Cons.prems(3) x by simp
    qed
    then have "t \<notin> snd ` set xs" by auto
    with Cons.prems(1) x True show ?thesis by simp
  next
    case False
    then have "u \<noteq> t" using Cons.prems(2) x by auto
    moreover have "u \<notin> snd ` set xs" using Cons.prems(1) x by simp
    ultimately have "u \<notin> snd ` set (AList.update k t xs)" using set_alist_update [of k t xs] by auto
    moreover have "distinct (map snd (AList.update k t xs))"
      using Cons.prems x by (intro Cons.IH) auto
    ultimately show ?thesis using x False by simp
  qed
qed

lemma hub_wf_update:
  assumes "hub_wf h" and "distinct (map fst devs)" "distinct (map snd devs)"
  shows "hub_wf (AList.update a devs h)"
proof -
  have "\<forall>(b, ds) \<in> set (AList.update a devs h). distinct (map fst ds) \<and> distinct (map snd ds)"
    using assms set_alist_update [of a devs h] unfolding hub_wf_def by blast
  moreover have "distinct (map fst (AList.update a devs h))"
    using assms(1) by (simp add: hub_wf_def distinct_update)
  ultimately show ?thesis by (simp add: hub_wf_def)
qed

lemma hub_wf_register:
  assumes "hub_wf h" and "\<And>i. hub_chan h (a, i) \<noteq> Some tx \<or> i = device"
  shows "hub_wf (register h a device tx)"
proof -
  let ?devs = "devices_of h a"
  have d: "distinct (map fst ?devs)" "distinct (map snd ?devs)" using hub_wf_devices [OF assms(1)] by simp_all
  have "(i, tx) \<in> set ?devs \<Longrightarrow> i = device" for i using assms(2) [of i] d(1) by (auto simp: hub_chan_def)
  then have "distinct (map snd (AList.update device tx ?devs))"
    using d by (intro distinct_snd_update) auto
  then show ?thesis using assms(1) d by (simp add: register_def hub_wf_update distinct_update)
qed

lemma delete_subset: "set (AList.delete k xs) \<subseteq> set xs"
  by (auto simp: AList.delete_eq)

lemma distinct_snd_delete: "distinct (map snd xs) \<Longrightarrow> distinct (map snd (AList.delete k xs))"
  unfolding AList.delete_eq by (rule distinct_map_filter_key)

lemma hub_wf_deregister: "hub_wf h \<Longrightarrow> hub_wf (deregister h a device)"
proof -
  assume wf: "hub_wf h"
  have "hub_wf (AList.delete a h)"
    using wf delete_subset [of a h] distinct_delete [of h a] unfolding hub_wf_def by blast
  moreover have "hub_wf (AList.update a (AList.delete device devs) h)" if "map_of h a = Some devs" for devs
    using hub_wf_devices [OF wf, of a] that wf
    by (intro hub_wf_update distinct_delete distinct_snd_delete) (simp_all add: devices_of_def)
  ultimately show ?thesis using wf by (simp add: deregister_def Let_def split: option.split)
qed

section \<open>Properties\<close>

text \<open>Who hears a push. A broadcast adds the message, once and at the end, to the queue of every
  registered socket of the account whose receiver is alive (except that of the device that caused
  it, for \<open>broadcast_except\<close>), and changes no other queue, in particular none of another account.\<close>

theorem broadcast_exact:
  assumes "hub_wf h"
  shows "broadcast_except h a except msg cs tx =
       (if \<exists>i. hub_chan h (a, i) = Some tx \<and> i \<noteq> except then map_option (\<lambda>q. q @ [msg]) (cs tx) else cs tx) \<and>
     broadcast_account h a msg cs tx =
       (if \<exists>i. hub_chan h (a, i) = Some tx then map_option (\<lambda>q. q @ [msg]) (cs tx) else cs tx)"
proof (cases "map_of h a")
  case None
  then show ?thesis by (simp add: broadcast_except_def broadcast_account_def hub_chan_def devices_of_def)
next
  case (Some devs)
  then have "devices_of h a = devs" by (simp add: devices_of_def)
  with hub_wf_devices [OF assms, of a] have d: "distinct (map fst devs)" "distinct (map snd devs)" by simp_all
  then have "hub_chan h (a, i) = Some t \<longleftrightarrow> (i, t) \<in> set devs" for i t
    using \<open>devices_of h a = devs\<close> by (simp add: hub_chan_def)
  with Some send_fold [OF d(2), where P = "\<lambda>_. True"] send_fold [OF d(2), where P = "\<lambda>i. i \<noteq> except"] show ?thesis
    by (simp add: broadcast_except_def broadcast_account_def)
qed

theorem broadcast_exact_witness:
  "broadcast_except [(1, [(5, 10), (6, 11)])] 1 5 Pong [10 \<mapsto> [], 11 \<mapsto> []] 11 = Some [Pong]"
proof -
  have "hub_wf [(1, [(5, 10), (6, 11)])]" by (simp add: hub_wf_def)
  moreover have "hub_chan [(1, [(5, 10), (6, 11)])] (1, 6) = Some 11 \<and> (6 :: uuid) \<noteq> 5"
    by (simp add: hub_chan_def devices_of_def)
  then have "\<exists>i. hub_chan [(1, [(5, 10), (6, 11)])] (1, i) = Some 11 \<and> i \<noteq> 5" ..
  ultimately show ?thesis using broadcast_exact [of "[(1, [(5, 10), (6, 11)])]" 1 5 Pong "[10 \<mapsto> [], 11 \<mapsto> []]" 11]
    by (simp only: simp_thms if_True) simp
qed

end
