(* ===== verification/Server_Api.thy ===== *)
theory Server_Api
  imports Server_History Server_Config Server_Auth Server_Hub
begin

text \<open>
  \<open>savr-server/src/api.rs\<close>: the state behind the router, the extractors that authenticate a
  request, and the handlers. A handler is a function of the state, of the parts of the request it
  reads and of what it draws from the outside (clock, fresh ids, random bytes), and returns the
  state after it and an answer or an error. The functions of third-party crates are collected in
  one record.
\<close>

record externals =
  x_argon2_hash :: "string \<Rightarrow> message + string"
  x_phc_valid :: "string \<Rightarrow> bool"
  x_argon2_verify :: "string \<Rightarrow> string \<Rightarrow> bool"
  x_jwt_encode :: jwt_encoder
  x_jwt_decode :: jwt_decoder
  x_uuid_str :: "uuid \<Rightarrow> string"
  x_uuid_parse :: "string \<Rightarrow> uuid option"
  x_blake3 :: "byte list \<Rightarrow> blake3_hash"

record app_state =
  ap_store :: store
  ap_hub :: hub
  ap_chans :: chans
  ap_jwt_secret :: "byte list"
  ap_pair_guard :: pair_guard

definition app_state_new :: "store \<Rightarrow> byte list \<Rightarrow> app_state" where
  "app_state_new s jwt_secret =
     \<lparr>ap_store = s, ap_hub = hub_new, ap_chans = Map.empty, ap_jwt_secret = jwt_secret,
      ap_pair_guard = pair_guard_new\<rparr>"

type_synonym 'a answer = "app_state \<times> (api_error + 'a)"

definition app_db :: "app_state \<Rightarrow> db" where
  "app_db app = s_db (ap_store app)"

definition set_db :: "app_state \<Rightarrow> db \<Rightarrow> app_state" where
  "set_db app d = app\<lparr>ap_store := (ap_store app)\<lparr>s_db := d\<rparr>\<rparr>"

definition secret_matches :: "externals \<Rightarrow> string \<Rightarrow> string \<Rightarrow> bool" where
  "secret_matches x = verify_secret (x_phc_valid x) (x_argon2_verify x)"

section \<open>Extractors\<close>

record authed =
  au_account_id :: uuid
  au_device_id :: uuid

record owner_session =
  os_account_id :: uuid

text \<open>\<open>str::trim\<close>; a header value that \<open>to_str\<close> accepts has no white space but blanks and tabs.\<close>

definition is_blank :: "char \<Rightarrow> bool" where
  "is_blank c \<longleftrightarrow> c = CHR '' '' \<or> c = CHR 0x09"

definition trim :: "string \<Rightarrow> string" where
  "trim s = rev (dropWhile is_blank (rev (dropWhile is_blank s)))"

definition bearer :: "string option \<Rightarrow> api_error + string" where
  "bearer authorization =
     bind_res (ok_or authorization (unauthorized ''missing Authorization header'')) (\<lambda>v.
     ok_or (map_option trim (strip_prefix v ''Bearer '')) (unauthorized ''expected Bearer token''))"

definition extract_authed :: "externals \<Rightarrow> app_state \<Rightarrow> nat \<Rightarrow> string option \<Rightarrow> api_error + authed" where
  "extract_authed x app now header =
     bind_res (bearer header) (\<lambda>token.
     bind_res (verify_access (x_jwt_decode x) (ap_jwt_secret app) now token) (\<lambda>claims.
     bind_res (ok_or (x_uuid_parse x (ac_acc claims)) (unauthorized ''malformed acc claim'')) (\<lambda>account.
     bind_res (ok_or (x_uuid_parse x (ac_sub claims)) (unauthorized ''malformed sub claim'')) (\<lambda>device.
     if \<not> device_active (app_db app) account device
     then Inl (unauthorized ''device revoked or unknown'')
     else Inr \<lparr>au_account_id = account, au_device_id = device\<rparr>))))"

definition extract_owner_session ::
  "externals \<Rightarrow> app_state \<Rightarrow> nat \<Rightarrow> string option \<Rightarrow> api_error + owner_session" where
  "extract_owner_session x app now header =
     bind_res (bearer header) (\<lambda>token.
     bind_res (verify_owner_session (x_jwt_decode x) (ap_jwt_secret app) now token) (\<lambda>claims.
     bind_res (ok_or (x_uuid_parse x (se_acc claims)) (unauthorized ''malformed acc claim'')) (\<lambda>account.
     Inr \<lparr>os_account_id = account\<rparr>)))"

definition is_ascii_hexdigit :: "char \<Rightarrow> bool" where
  "is_ascii_hexdigit c \<longleftrightarrow> c \<in> set ''0123456789abcdefABCDEF''"

definition valid_hash :: "string \<Rightarrow> api_error + unit" where
  "valid_hash hash =
     (if length hash = 64 \<and> list_all is_ascii_hexdigit hash then Inr ()
      else Inl (bad_request ''blob hash must be 64 hex chars''))"

section \<open>Authentication and devices\<close>

definition login :: "externals \<Rightarrow> app_state \<Rightarrow> string \<Rightarrow> nat \<Rightarrow> login_response answer" where
  "login x app password now =
     (app,
      bind_res (ok_or (case db_accounts (app_db app) of [] \<Rightarrow> None | a # _ \<Rightarrow> Some a)
                  (unauthorized ''no owner account provisioned'')) (\<lambda>row.
      if \<not> secret_matches x password (a_owner_hash row) then Inl (unauthorized ''invalid password'')
      else
        bind_res (mint_owner_session (x_jwt_encode x) (x_uuid_str x) (ap_jwt_secret app) now (a_id row)) (\<lambda>token.
        Inr \<lparr>lr_session_token = token, lr_expires_in = SESSION_TTL_SECS\<rparr>)))"

definition create_pair_code ::
  "externals \<Rightarrow> app_state \<Rightarrow> owner_session \<Rightarrow> time \<Rightarrow> byte list \<Rightarrow> uuid \<Rightarrow> pairing_code_response answer" where
  "create_pair_code x app owner now entropy i =
     (case create_pairing_code (hash_secret (x_argon2_hash x)) (app_db app) (os_account_id owner) now entropy i of
        (d, Inl e) \<Rightarrow> (set_db app d, Inl e)
      | (d, Inr (code, expires_at)) \<Rightarrow> (set_db app d, Inr \<lparr>pc_code = code, pc_expires_at = expires_at\<rparr>))"

text \<open>What the pair handler draws from outside: the instants of the check, of the record of a
  failure and the wall clock, the new device's id and its random bytes.\<close>

record pair_inputs =
  pi_check_at :: time
  pi_fail_at :: time
  pi_now :: time
  pi_now_secs :: nat
  pi_device :: uuid
  pi_entropy :: "byte list"

definition pair :: "externals \<Rightarrow> app_state \<Rightarrow> pair_request \<Rightarrow> pair_inputs \<Rightarrow> pair_response answer" where
  "pair x app req i =
     (case guard_check (ap_pair_guard app) (pi_check_at i) of
        Inl e \<Rightarrow> (app, Inl e)
      | Inr _ \<Rightarrow>
          (case redeem_pairing_code (secret_matches x) (app_db app) (pr_code req) (pi_now i) of
             (d, None) \<Rightarrow>
               ((set_db app d)\<lparr>ap_pair_guard := record_fail (ap_pair_guard app) (pi_fail_at i)\<rparr>,
                Inl (unauthorized ''invalid or expired pairing code''))
           | (d, Some account) \<Rightarrow>
               (let app1 = (set_db app d)\<lparr>ap_pair_guard := record_success (ap_pair_guard app)\<rparr>;
                    refresh_secret = generate_refresh_secret (pi_entropy i) in
                case hash_secret (x_argon2_hash x) refresh_secret of
                  Inl e \<Rightarrow> (app1, Inl e)
                | Inr token_hash \<Rightarrow>
                    (case create_device d account (pi_device i) (pr_device_name req) (pr_os req) token_hash (pi_now i) of
                       (d2, Inl e) \<Rightarrow> (set_db app1 d2, Inl e)
                     | (d2, Inr _) \<Rightarrow>
                         (case mint_access_token (x_jwt_encode x) (x_uuid_str x) (ap_jwt_secret app)
                                 (pi_now_secs i) account (pi_device i) of
                            Inl e \<Rightarrow> (set_db app1 d2, Inl e)
                          | Inr access_token \<Rightarrow>
                              ((set_db app1 d2)\<lparr>ap_chans :=
                                  broadcast_account (ap_hub app) account (DeviceAdded (pi_device i)) (ap_chans app)\<rparr>,
                               Inr \<lparr>pp_device_id = pi_device i, pp_account_id = account,
                                    pp_refresh_secret = refresh_secret, pp_access_token = access_token,
                                    pp_expires_in = ACCESS_TTL_SECS\<rparr>))))))"

definition refresh :: "externals \<Rightarrow> app_state \<Rightarrow> refresh_request \<Rightarrow> nat \<Rightarrow> token_response answer" where
  "refresh x app req now =
     (app,
      let creds = ''invalid device credentials'' in
      bind_res (ok_or (device_credentials (app_db app) (rr_device_id req)) (unauthorized creds))
        (\<lambda>(account, token_hash, revoked).
      if revoked \<or> \<not> secret_matches x (rr_refresh_secret req) token_hash then Inl (unauthorized creds)
      else
        bind_res (mint_access_token (x_jwt_encode x) (x_uuid_str x) (ap_jwt_secret app) now account (rr_device_id req))
          (\<lambda>token. Inr \<lparr>tr_access_token = token, tr_expires_in = ACCESS_TTL_SECS\<rparr>)))"

definition list_devices_handler :: "app_state \<Rightarrow> authed \<Rightarrow> device list answer" where
  "list_devices_handler app auth = (app, Inr (list_devices (app_db app) (au_account_id auth)))"

definition delete_device :: "app_state \<Rightarrow> authed \<Rightarrow> uuid \<Rightarrow> unit answer" where
  "delete_device app auth i =
     (case revoke_device (app_db app) (au_account_id auth) i of
        (d, False) \<Rightarrow> (set_db app d, Inl (not_found ''device''))
      | (d, True) \<Rightarrow> ((set_db app d)\<lparr>ap_hub := drop_device (ap_hub app) (au_account_id auth) i\<rparr>, Inr ()))"

section \<open>Games and versions\<close>

definition ensure_game_handler :: "app_state \<Rightarrow> authed \<Rightarrow> ensure_game_request \<Rightarrow> uuid \<Rightarrow> ensured_game answer" where
  "ensure_game_handler app auth req new_id =
     (case ensure_game (app_db app) (au_account_id auth) (eg_title req) (eg_steam_appid req) new_id of
        (d, r) \<Rightarrow> (set_db app d, r))"

definition get_head_handler :: "app_state \<Rightarrow> authed \<Rightarrow> uuid \<Rightarrow> head_response answer" where
  "get_head_handler app auth game = (app, get_head (app_db app) (au_account_id auth) game)"

definition list_versions_handler :: "app_state \<Rightarrow> authed \<Rightarrow> uuid \<Rightarrow> version list answer" where
  "list_versions_handler app auth game = (app, Inr (list_versions (app_db app) (au_account_id auth) game))"

definition create_version_handler ::
  "app_state \<Rightarrow> authed \<Rightarrow> uuid \<Rightarrow> create_version_req \<Rightarrow> uuid \<Rightarrow> time \<Rightarrow> version answer" where
  "create_version_handler app auth game req i now =
     (if \<not> blob_exists (ap_store app) (cv_blob_hash req) then (app, Inl (blob_missing (cv_blob_hash req)))
      else
        (case create_version (app_db app) (au_account_id auth) game req i now of
           (d, Inl e) \<Rightarrow> (set_db app d, Inl e)
         | (d, Inr (FastForward v)) \<Rightarrow>
             ((set_db app d)\<lparr>ap_chans := broadcast_except (ap_hub app) (au_account_id auth) (v_device_id v)
                  (VersionAvailable game (v_id v) (v_seq v)) (ap_chans app)\<rparr>,
              Inr v)
         | (d, Inr (Conflict head incoming)) \<Rightarrow>
             (let tips = (case head of Some h \<Rightarrow> [v_id h] | None \<Rightarrow> []) @ [v_id incoming];
                  head_json = (case head of Some h \<Rightarrow> JVersion h | None \<Rightarrow> JNull) in
              ((set_db app d)\<lparr>ap_chans := broadcast_account (ap_hub app) (au_account_id auth)
                   (ConflictMsg game tips) (ap_chans app)\<rparr>,
               Inl (conflict head_json (JVersion incoming))))))"

definition resolve ::
  "externals \<Rightarrow> app_state \<Rightarrow> authed \<Rightarrow> uuid \<Rightarrow> resolve_request \<Rightarrow> uuid \<Rightarrow> time \<Rightarrow> head_response answer" where
  "resolve x app auth game req i now =
     (case resolve_conflict (x_uuid_str x) (app_db app) (au_account_id auth) game (rs_winner req)
             (rs_keep_both req) i now of
        (d, Inl e) \<Rightarrow> (set_db app d, Inl e)
      | (d, Inr (head, seq)) \<Rightarrow>
          ((set_db app d)\<lparr>ap_chans :=
              (case hr_head head of
                 Some version_id \<Rightarrow>
                   broadcast_except (ap_hub app) (au_account_id auth) (au_device_id auth)
                     (VersionAvailable game version_id seq) (ap_chans app)
               | None \<Rightarrow> ap_chans app)\<rparr>,
           Inr head))"

section \<open>Configuration\<close>

definition get_config_handler :: "app_state \<Rightarrow> authed \<Rightarrow> string \<Rightarrow> synced_config answer" where
  "get_config_handler app auth seed_tag =
     (case get_or_seed_config (app_db app) (au_account_id auth) seed_tag of (d, r) \<Rightarrow> (set_db app d, r))"

definition put_config_handler ::
  "app_state \<Rightarrow> authed \<Rightarrow> synced_config \<Rightarrow> string \<Rightarrow> string \<Rightarrow> synced_config answer" where
  "put_config_handler app auth cfg seed_tag new_tag =
     (case put_config (app_db app) (au_account_id auth) cfg seed_tag new_tag of
        (d, Inl e) \<Rightarrow> (set_db app d, Inl e)
      | (d, Inr updated) \<Rightarrow>
          ((set_db app d)\<lparr>ap_chans := broadcast_except (ap_hub app) (au_account_id auth) (au_device_id auth)
               (ConfigUpdated (sc_tag updated)) (ap_chans app)\<rparr>,
           Inr updated))"

section \<open>Blobs\<close>

definition blob_head :: "app_state \<Rightarrow> authed \<Rightarrow> string \<Rightarrow> unit answer" where
  "blob_head app auth hash =
     (app, bind_res (valid_hash hash) (\<lambda>_.
      if blob_exists (ap_store app) hash then Inr () else Inl (not_found ''blob'')))"

text \<open>The answer says whether the object is new.\<close>

definition insert_blob_row :: "string \<Rightarrow> nat \<Rightarrow> time \<Rightarrow> db \<Rightarrow> db" where
  "insert_blob_row hash bytes now d =
     (if db_blobs d hash = None
      then d\<lparr>db_blobs := (db_blobs d)(hash \<mapsto> \<lparr>b_bytes = of_nat bytes, b_refcount = 0, b_created_at = now\<rparr>)\<rparr>
      else d)"

datatype put_status = OkStatus | Created

definition blob_put_handler ::
  "externals \<Rightarrow> app_state \<Rightarrow> authed \<Rightarrow> string \<Rightarrow> (string + byte list) list \<Rightarrow> time \<Rightarrow> put_status answer" where
  "blob_put_handler x app auth hash body now =
     (case valid_hash hash of
        Inl e \<Rightarrow> (app, Inl e)
      | Inr _ \<Rightarrow>
          (let existed = blob_exists (ap_store app) hash in
           case blob_put (x_blake3 x) hash body (ap_store app) of
             (s, Inl e) \<Rightarrow> (app\<lparr>ap_store := s\<rparr>, Inl (blob_error_to_api e))
           | (s, Inr bytes) \<Rightarrow>
               (app\<lparr>ap_store := s\<lparr>s_db := insert_blob_row hash bytes now (s_db s)\<rparr>\<rparr>,
                Inr (if existed then OkStatus else Created))))"

definition blob_get :: "app_state \<Rightarrow> authed \<Rightarrow> string \<Rightarrow> byte list answer" where
  "blob_get app auth hash =
     (app, bind_res (valid_hash hash) (\<lambda>_.
      if \<not> account_references_blob (app_db app) (au_account_id auth) hash then Inl (not_found ''blob'')
      else ok_or (s_objs (ap_store app) hash) (not_found ''blob'')))"

end
