(* ===== verification/Server_Ws.thy ===== *)
theory Server_Ws
  imports Server_Api
begin

text \<open>
  \<open>savr-server/src/ws.rs\<close>: one socket of a device. The loop of \<open>handle_socket\<close> waits for one of
  three sources; which one fires next is the scheduler's choice, so the loop is a step function of
  the event that fires: a message of the hub, the heartbeat, or a frame of the client. Whether a
  write to the socket succeeds is part of the event. A frame is what \<open>serde_json\<close> makes of it.
\<close>

datatype ws_frame =
    ClientText "client_msg option"
  | ClientPing
  | ClientPong
  | ClientClose
  | ClientBinary
  | ClientError

datatype ws_event = FromHub | Heartbeat | FromClient ws_frame

datatype ws_out = OutMsg server_msg | OutPing | OutPong

record session =
  ws_account :: uuid
  ws_device :: uuid
  ws_tx :: chan
  ws_live :: bool
  ws_sent :: "ws_out list"

text \<open>The socket is opened: its channel is made and registered.\<close>

definition ws_open :: "app_state \<Rightarrow> authed \<Rightarrow> chan \<Rightarrow> app_state \<times> session" where
  "ws_open app auth tx =
     (app\<lparr>ap_chans := (ap_chans app)(tx \<mapsto> []),
          ap_hub := register (ap_hub app) (au_account_id auth) (au_device_id auth) tx\<rparr>,
      \<lparr>ws_account = au_account_id auth, ws_device = au_device_id auth, ws_tx = tx, ws_live = True, ws_sent = []\<rparr>)"

text \<open>After the loop: the device is deregistered, and the receiver is dropped.\<close>

definition ws_close :: "app_state \<Rightarrow> session \<Rightarrow> app_state \<times> session" where
  "ws_close app s =
     (app\<lparr>ap_hub := deregister (ap_hub app) (ws_account s) (ws_device s),
          ap_chans := (ap_chans app)(ws_tx s := None)\<rparr>,
      s\<lparr>ws_live := False\<rparr>)"

definition ws_write :: "app_state \<Rightarrow> session \<Rightarrow> bool \<Rightarrow> ws_out \<Rightarrow> app_state \<times> session" where
  "ws_write app s sink_ok out =
     (if sink_ok then (app, s\<lparr>ws_sent := ws_sent s @ [out]\<rparr>) else ws_close app s)"

definition replay :: "app_state \<Rightarrow> session \<Rightarrow> (uuid \<rightharpoonup> nat) \<Rightarrow> chans" where
  "replay app s last_seq =
     fold (\<lambda>(game, version, seq) cs. send (ws_tx s) (VersionAvailable game version seq) cs)
       (versions_since (app_db app) (ws_account s) last_seq) (ap_chans app)"

definition on_hello :: "app_state \<Rightarrow> session \<Rightarrow> (uuid \<rightharpoonup> nat) \<Rightarrow> time \<Rightarrow> app_state \<times> session" where
  "on_hello app s last_seq now =
     (if \<not> device_active (app_db app) (ws_account s) (ws_device s) then ws_close app s
      else
        (let app1 = app\<lparr>ap_hub := register (ap_hub app) (ws_account s) (ws_device s) (ws_tx s)\<rparr>;
             app2 = app1\<lparr>ap_chans := replay app1 s last_seq\<rparr> in
         (set_db app2 (touch_device (app_db app2) (ws_account s) (ws_device s) now), s)))"

definition ws_step :: "app_state \<Rightarrow> session \<Rightarrow> ws_event \<Rightarrow> bool \<Rightarrow> time \<Rightarrow> app_state \<times> session" where
  "ws_step app s ev sink_ok now =
     (if \<not> ws_live s then (app, s)
      else
        (case ev of
           FromHub \<Rightarrow>
             (case ap_chans app (ws_tx s) of
                Some (msg # q) \<Rightarrow>
                  ws_write (app\<lparr>ap_chans := (ap_chans app)(ws_tx s \<mapsto> q)\<rparr>) s sink_ok (OutMsg msg)
              | _ \<Rightarrow> (app, s))
         | Heartbeat \<Rightarrow>
             if \<not> device_active (app_db app) (ws_account s) (ws_device s) then ws_close app s
             else ws_write app s sink_ok OutPing
         | FromClient (ClientText (Some (Hello _ last_seq))) \<Rightarrow> on_hello app s last_seq now
         | FromClient (ClientText (Some (Subscribe _))) \<Rightarrow> (app, s)
         | FromClient (ClientText (Some Ping)) \<Rightarrow>
             (app\<lparr>ap_chans := send (ws_tx s) Pong (ap_chans app)\<rparr>, s)
         | FromClient (ClientText None) \<Rightarrow> (app, s)
         | FromClient ClientPing \<Rightarrow> ws_write app s sink_ok OutPong
         | FromClient ClientPong \<Rightarrow> (app, s)
         | FromClient ClientClose \<Rightarrow> ws_close app s
         | FromClient ClientBinary \<Rightarrow> (app, s)
         | FromClient ClientError \<Rightarrow> ws_close app s))"

fun ws_run :: "app_state \<Rightarrow> session \<Rightarrow> (ws_event \<times> bool \<times> time) list \<Rightarrow> app_state \<times> session" where
  "ws_run app s [] = (app, s)"
| "ws_run app s ((ev, sink_ok, now) # evs) =
     (case ws_step app s ev sink_ok now of (app', s') \<Rightarrow> ws_run app' s' evs)"

section \<open>Facts\<close>

lemma set_db_simps [simp]:
  "ap_hub (set_db app d) = ap_hub app" "ap_chans (set_db app d) = ap_chans app"
  "app_db (set_db app d) = d" "ap_pair_guard (set_db app d) = ap_pair_guard app"
  "ap_jwt_secret (set_db app d) = ap_jwt_secret app"
  "s_objs (ap_store (set_db app d)) = s_objs (ap_store app)"
  by (simp_all add: set_db_def app_db_def)

lemma app_db_update [simp]: "app_db (app\<lparr>ap_hub := h\<rparr>) = app_db app" "app_db (app\<lparr>ap_chans := c\<rparr>) = app_db app"
  "app_db (app\<lparr>ap_pair_guard := g\<rparr>) = app_db app"
  by (simp_all add: app_db_def)

lemma send_all_same:
  "cs tx = Some q \<Longrightarrow> fold (\<lambda>x. send tx (f x)) xs cs = cs(tx \<mapsto> q @ map f xs)"
  by (induction xs arbitrary: cs q) (auto simp: send_def)

lemma replay_queue:
  assumes "ap_chans app (ws_tx s) = Some q"
  shows "replay app s last_seq = (ap_chans app)(ws_tx s \<mapsto>
     q @ map (\<lambda>(g, v, n). VersionAvailable g v n) (versions_since (app_db app) (ws_account s) last_seq))"
proof -
  have "(\<lambda>(game, version, seq) cs. send (ws_tx s) (VersionAvailable game version seq) cs) =
      (\<lambda>x. send (ws_tx s) (case x of (g, v, n) \<Rightarrow> VersionAvailable g v n))"
    by (auto simp: fun_eq_iff)
  then show ?thesis
    using send_all_same [of "ap_chans app" "ws_tx s" q "\<lambda>(g, v, n). VersionAvailable g v n"] assms
    by (simp add: replay_def)
qed

text \<open>The channel is drained in order.\<close>

lemma ws_drain:
  assumes "ap_chans app (ws_tx s) = Some (q @ r)" and "ws_live s"
  shows "ws_run app s (replicate (length q) (FromHub, True, now)) =
     (app\<lparr>ap_chans := (ap_chans app)(ws_tx s \<mapsto> r)\<rparr>, s\<lparr>ws_sent := ws_sent s @ map OutMsg q\<rparr>)"
  using assms
proof (induction q arbitrary: app s)
  case Nil
  then have "(ap_chans app)(ws_tx s \<mapsto> r) = ap_chans app" by auto
  then show ?case by simp
next
  case (Cons m q)
  let ?app = "app\<lparr>ap_chans := (ap_chans app)(ws_tx s \<mapsto> q @ r)\<rparr>" and ?s = "s\<lparr>ws_sent := ws_sent s @ [OutMsg m]\<rparr>"
  have "ws_step app s FromHub True now = (?app, ?s)"
    using Cons.prems by (simp add: ws_step_def ws_write_def)
  with Cons.IH [of ?app ?s] Cons.prems show ?case by (simp cong: if_cong)
qed

section \<open>Properties\<close>

text \<open>A device that reconnects misses nothing. When an active device opens a socket and says
  hello with what it last saw of each game, the socket then writes a notice for exactly the later
  versions of the account, in the order of the replay and before anything pushed later, and the
  device is registered for later pushes.\<close>

theorem hello_replays_missed:
  assumes "ws_open app auth tx = (app1, s1)"
    and "device_active (app_db app) (au_account_id auth) (au_device_id auth)"
    and "missed = versions_since (app_db app) (au_account_id auth) last_seq"
    and "ws_step app1 s1 (FromClient (ClientText (Some (Hello who last_seq)))) sink now = (app2, s2)"
  shows "snd (ws_run app2 s2 (replicate (length missed) (FromHub, True, later))) =
       s1\<lparr>ws_sent := map (\<lambda>(g, v, n). OutMsg (VersionAvailable g v n)) missed\<rparr> \<and>
     hub_chan (ap_hub app2) (au_account_id auth, au_device_id auth) = Some tx"
proof -
  let ?a = "au_account_id auth" and ?i = "au_device_id auth" and ?f = "\<lambda>(g, v, n). VersionAvailable g v n"
  have o: "ap_chans app1 tx = Some []" "app_db app1 = app_db app" "ws_tx s1 = tx" "ws_live s1" "ws_sent s1 = []"
    "ws_account s1 = ?a" "ws_device s1 = ?i"
    using assms(1) by (auto simp: ws_open_def app_db_def)
  let ?r = "app1\<lparr>ap_hub := register (ap_hub app1) ?a ?i tx\<rparr>"
  have "ap_chans ?r (ws_tx s1) = Some []" using o by simp
  from replay_queue [OF this, of last_seq] have rq: "replay ?r s1 last_seq = (ap_chans app1)(tx \<mapsto> map ?f missed)"
    using o assms(3) by simp
  from assms(2,4) o have s2: "s2 = s1" and c2: "ap_chans app2 = (ap_chans app1)(tx \<mapsto> map ?f missed)"
    and h2: "ap_hub app2 = register (ap_hub app1) ?a ?i tx"
    by (auto simp: ws_step_def on_hello_def Let_def rq)
  have "ap_chans app2 (ws_tx s2) = Some (map ?f missed @ [])" using c2 s2 o by simp
  from ws_drain [OF this, of later] have
    "ws_run app2 s2 (replicate (length missed) (FromHub, True, later)) =
       (app2\<lparr>ap_chans := (ap_chans app2)(tx \<mapsto> [])\<rparr>, s1\<lparr>ws_sent := map OutMsg (map ?f missed)\<rparr>)"
    using o s2 by simp
  moreover have "map OutMsg (map ?f missed) = map (\<lambda>(g, v, n). OutMsg (VersionAvailable g v n)) missed" by auto
  moreover have "hub_chan (ap_hub app2) (?a, ?i) = Some tx"
    using presence.get_put_same [of "ap_hub app1" "(?a, ?i)" tx] by (simp add: h2)
  ultimately show ?thesis by simp
qed

definition ex_app :: app_state where
  "ex_app = app_state_new ex_store [1]"

theorem hello_replays_missed_witness:
  "\<exists>app1 s1 app2 s2. ws_open ex_app \<lparr>au_account_id = 1, au_device_id = 2\<rparr> 9 = (app1, s1) \<and>
     ws_step app1 s1 (FromClient (ClientText (Some (Hello 2 [3 \<mapsto> 2])))) True 0 = (app2, s2) \<and>
     hub_chan (ap_hub app2) (1, 2) = Some 9"
proof -
  let ?au = "\<lparr>au_account_id = 1, au_device_id = 2\<rparr>"
  obtain app1 s1 where o: "ws_open ex_app ?au 9 = (app1, s1)" by (cases "ws_open ex_app ?au 9")
  obtain app2 s2 where t: "ws_step app1 s1 (FromClient (ClientText (Some (Hello 2 [3 \<mapsto> 2])))) True 0 = (app2, s2)"
    by (cases "ws_step app1 s1 (FromClient (ClientText (Some (Hello 2 [3 \<mapsto> 2])))) True 0")
  have "device_active (app_db ex_app) (au_account_id ?au) (au_device_id ?au)"
    by (simp add: ex_app_def app_state_new_def app_db_def ex_store_def ex_db_def device_active_def)
  from hello_replays_missed [OF o this refl t, of 0] o t show ?thesis by auto
qed

text \<open>A revoked device is off the air. Once a device is revoked, its open socket is closed at the
  next heartbeat and also by any hello, without a message being written or the device coming back
  into the presence map, and after the closing no event has an effect.\<close>

theorem revoked_socket_closes:
  assumes "\<not> device_active (app_db app) (ws_account s) (ws_device s)" and "ws_live s"
    and "ev = Heartbeat \<or> ev = FromClient (ClientText (Some (Hello who last_seq)))"
    and "ws_step app s ev sink now = (app', s')"
  shows "\<not> ws_live s' \<and> ws_sent s' = ws_sent s \<and>
     hub_chan (ap_hub app') (ws_account s, ws_device s) = None \<and> ap_chans app' (ws_tx s) = None \<and>
     ws_run app' s' evs = (app', s')"
proof -
  have c: "(app', s') = ws_close app s"
    using assms by (auto simp: ws_step_def on_hello_def)
  have "ws_run app' t evs = (app', t)" if "\<not> ws_live t" for t
  proof (induction evs)
    case (Cons e evs)
    with that show ?case by (cases e) (simp add: ws_step_def)
  qed simp
  with c show ?thesis by (simp add: ws_close_def hub_chan_deregister)
qed

theorem revoked_socket_closes_witness:
  "\<exists>app' s'. ws_step (app_state_new (ex_store\<lparr>s_db := empty_db\<rparr>) [1])
      \<lparr>ws_account = 1, ws_device = 2, ws_tx = 9, ws_live = True, ws_sent = []\<rparr> Heartbeat True 0 = (app', s') \<and> \<not> ws_live s'"
proof -
  let ?app = "app_state_new (ex_store\<lparr>s_db := empty_db\<rparr>) [1]"
  let ?s = "\<lparr>ws_account = 1, ws_device = 2, ws_tx = 9, ws_live = True, ws_sent = []\<rparr>"
  have "\<not> device_active (app_db ?app) (ws_account ?s) (ws_device ?s)" "ws_live ?s"
    by (simp_all add: device_active_def app_db_def app_state_new_def empty_db_def)
  from revoked_socket_closes [OF this, of Heartbeat 0 Map.empty True 0 "fst (ws_step ?app ?s Heartbeat True 0)"
      "snd (ws_step ?app ?s Heartbeat True 0)" "[]"]
  show ?thesis by (intro exI [of _ "fst (ws_step ?app ?s Heartbeat True 0)"] exI [of _ "snd (ws_step ?app ?s Heartbeat True 0)"]) simp
qed

text \<open>C39: a late close of an old socket takes the new one off the air. A device that reconnects
  before its old socket has noticed the loss has both open for a while; when the old one closes,
  the presence entry of the new one is removed, and pushes of the account no longer reach the
  device until it says hello again.\<close>

theorem stale_close_drops_reconnect:
  assumes "hub_wf (ap_hub app)" and "tx_old \<noteq> tx_new"
    and "\<And>i. hub_chan (ap_hub app) (au_account_id auth, i) \<noteq> Some tx_old \<and>
       hub_chan (ap_hub app) (au_account_id auth, i) \<noteq> Some tx_new"
    and "ws_open app auth tx_old = (app1, old)" and "ws_open app1 auth tx_new = (app2, new)"
    and "ws_step app2 old (FromClient ClientClose) True now = (app3, old')"
  shows "hub_chan (ap_hub app3) (au_account_id auth, au_device_id auth) = None \<and>
     ws_live new \<and> ap_chans app3 tx_new = Some [] \<and>
     broadcast_account (ap_hub app3) (au_account_id auth) msg (ap_chans app3) tx_new = Some []"
proof -
  let ?a = "au_account_id auth" and ?i = "au_device_id auth"
  have h1: "ap_hub app1 = register (ap_hub app) ?a ?i tx_old" "old = \<lparr>ws_account = ?a, ws_device = ?i, ws_tx = tx_old, ws_live = True, ws_sent = []\<rparr>"
    using assms(4) by (auto simp: ws_open_def)
  have h2: "ap_hub app2 = register (ap_hub app1) ?a ?i tx_new" "ap_chans app2 tx_new = Some []" "ws_live new"
    using assms(5) by (auto simp: ws_open_def)
  have h3: "ap_hub app3 = deregister (ap_hub app2) ?a ?i" "ap_chans app3 = (ap_chans app2)(tx_old := None)"
    using assms(6) by (auto simp: ws_step_def h1(2) ws_close_def)
  have c1: "hub_chan (ap_hub app1) (?a, i) = (if i = ?i then Some tx_old else hub_chan (ap_hub app) (?a, i))" for i
    using presence.get_put [of "ap_hub app" "(?a, ?i)" tx_old "(?a, i)"] by (simp add: h1)
  have c2: "hub_chan (ap_hub app2) (?a, i) = (if i = ?i then Some tx_new else hub_chan (ap_hub app1) (?a, i))" for i
    using presence.get_put [of "ap_hub app1" "(?a, ?i)" tx_new "(?a, i)"] by (simp add: h2)
  have "hub_wf (ap_hub app1)" unfolding h1 using assms(1,3) by (intro hub_wf_register) auto
  then have "hub_wf (ap_hub app2)" unfolding h2 using assms(3) c1 by (intro hub_wf_register) (auto split: if_splits)
  then have wf: "hub_wf (ap_hub app3)" unfolding h3 by (rule hub_wf_deregister)
  have "hub_chan (ap_hub app3) (?a, i) \<noteq> Some tx_new" for i
    using assms(3) [of i] c1 [of i] c2 [of i] by (auto simp: h3 hub_chan_deregister)
  with h2 h3 assms(2) broadcast_exact [OF wf, of ?a 0 msg "ap_chans app3" tx_new] show ?thesis
    by (simp add: hub_chan_deregister)
qed

theorem stale_close_drops_reconnect_witness:
  "\<exists>app1 old app2 new app3 old'.
     ws_open ex_app \<lparr>au_account_id = 1, au_device_id = 2\<rparr> 8 = (app1, old) \<and>
     ws_open app1 \<lparr>au_account_id = 1, au_device_id = 2\<rparr> 9 = (app2, new) \<and>
     ws_step app2 old (FromClient ClientClose) True 0 = (app3, old') \<and>
     broadcast_account (ap_hub app3) 1 Pong (ap_chans app3) 9 = Some []"
proof -
  let ?au = "\<lparr>au_account_id = 1, au_device_id = 2\<rparr>"
  obtain app1 old where o1: "ws_open ex_app ?au 8 = (app1, old)" by (cases "ws_open ex_app ?au 8")
  obtain app2 new where o2: "ws_open app1 ?au 9 = (app2, new)" by (cases "ws_open app1 ?au 9")
  obtain app3 old' where c: "ws_step app2 old (FromClient ClientClose) True 0 = (app3, old')"
    by (cases "ws_step app2 old (FromClient ClientClose) True 0")
  have "hub_wf (ap_hub ex_app)" "hub_chan (ap_hub ex_app) (au_account_id ?au, i) \<noteq> Some 8 \<and>
      hub_chan (ap_hub ex_app) (au_account_id ?au, i) \<noteq> Some 9" for i
    by (simp_all add: ex_app_def app_state_new_def hub_new_def hub_wf_def hub_chan_def devices_of_def)
  from stale_close_drops_reconnect [OF this(1) _ this(2) o1 o2 c, of Pong] o1 o2 c show ?thesis by auto
qed

end
