(* ===== verification/Server_System.thy ===== *)
theory Server_System
  imports Server_Ws
begin

text \<open>
  The server as a whole (\<open>build_app\<close> of \<open>savr-server/src/api.rs\<close>, with the collector that
  \<open>savr-server/src/main.rs\<close> runs in the background): which handler a request reaches and under
  which authentication, and the invariant of the persistent state over every sequence of requests
  and collections. A request carries its authorization header, the body it has and what the handler
  draws from outside. Every store access of a handler is one transaction or one statement, so that
  a history of the server is a sequence of them; the two handlers that read and write in separate
  statements, \<open>put_config\<close> and \<open>redeem_pairing_code\<close>, are analysed under interleaving in their own
  theories.
\<close>

datatype api_request =
    Login string nat
  | Refresh refresh_request nat
  | PairCode time "byte list" uuid
  | PairReq pair_request pair_inputs
  | ListDevices
  | DeleteDevice uuid
  | EnsureGame ensure_game_request uuid
  | CreateVersion uuid create_version_req uuid time
  | ListVersionsOf uuid
  | GetHead uuid
  | Resolve uuid resolve_request uuid time
  | GetCfg string
  | PutCfg synced_config string string
  | BlobHead string
  | BlobPut string "(string + byte list) list" time
  | BlobGet string

text \<open>The state after a request; \<open>now\<close> is the clock in seconds at which tokens are checked.\<close>

definition with_auth :: "(api_error + 'a) \<Rightarrow> app_state \<Rightarrow> ('a \<Rightarrow> app_state) \<Rightarrow> app_state" where
  "with_auth extracted app f = (case extracted of Inl _ \<Rightarrow> app | Inr a \<Rightarrow> f a)"

definition route :: "externals \<Rightarrow> app_state \<Rightarrow> nat \<Rightarrow> string option \<Rightarrow> api_request \<Rightarrow> app_state" where
  "route x app now header req =
     (let device = with_auth (extract_authed x app now header) app;
          owner = with_auth (extract_owner_session x app now header) app in
      case req of
        Login password t \<Rightarrow> fst (login x app password t)
      | Refresh r t \<Rightarrow> fst (refresh x app r t)
      | PairCode t entropy i \<Rightarrow> owner (\<lambda>own. fst (create_pair_code x app own t entropy i))
      | PairReq r i \<Rightarrow> fst (pair x app r i)
      | ListDevices \<Rightarrow> device (\<lambda>a. fst (list_devices_handler app a))
      | DeleteDevice i \<Rightarrow> device (\<lambda>a. fst (delete_device app a i))
      | EnsureGame r i \<Rightarrow> device (\<lambda>a. fst (ensure_game_handler app a r i))
      | CreateVersion g r i t \<Rightarrow> device (\<lambda>a. fst (create_version_handler app a g r i t))
      | ListVersionsOf g \<Rightarrow> device (\<lambda>a. fst (list_versions_handler app a g))
      | GetHead g \<Rightarrow> device (\<lambda>a. fst (get_head_handler app a g))
      | Resolve g r i t \<Rightarrow> device (\<lambda>a. fst (resolve x app a g r i t))
      | GetCfg tag \<Rightarrow> device (\<lambda>a. fst (get_config_handler app a tag))
      | PutCfg c seed tag \<Rightarrow> device (\<lambda>a. fst (put_config_handler app a c seed tag))
      | BlobHead h \<Rightarrow> device (\<lambda>a. fst (blob_head app a h))
      | BlobPut h body t \<Rightarrow> device (\<lambda>a. fst (blob_put_handler x app a h body t))
      | BlobGet h \<Rightarrow> device (\<lambda>a. fst (blob_get app a h)))"

datatype event =
    Request nat "string option" api_request
  | Collect "string \<Rightarrow> bool"

definition gc_pass :: "app_state \<Rightarrow> (string \<Rightarrow> bool) \<Rightarrow> app_state" where
  "gc_pass app rm_fails = app\<lparr>ap_store := fst (run_gc rm_fails (ap_store app))\<rparr>"

definition server_step :: "externals \<Rightarrow> app_state \<Rightarrow> event \<Rightarrow> app_state" where
  "server_step x app e =
     (case e of Request now header req \<Rightarrow> route x app now header req | Collect rm \<Rightarrow> gc_pass app rm)"

section \<open>The invariant\<close>

definition server_inv :: "externals \<Rightarrow> app_state \<Rightarrow> bool" where
  "server_inv x app \<longleftrightarrow> store_wf (x_blake3 x) (ap_store app)"

lemma store_wf_set_db:
  assumes "store_wf b (ap_store app)" and "db_wf d" and "dom (db_blobs d) \<subseteq> dom (db_blobs (app_db app))"
  shows "store_wf b (ap_store (set_db app d))"
  using assms by (auto simp: store_wf_def set_db_def app_db_def blobs_backed_def content_addressed_def)

lemma store_wf_frame [simp]:
  "ap_store (app\<lparr>ap_hub := h\<rparr>) = ap_store app" "ap_store (app\<lparr>ap_chans := c\<rparr>) = ap_store app"
  "ap_store (app\<lparr>ap_pair_guard := g\<rparr>) = ap_store app"
  by simp_all

text \<open>What the database operations do with the blob rows: nothing, or count them.\<close>

lemma create_version_blobs:
  assumes "db_wf d"
  shows "dom (db_blobs (fst (create_version d a g req i now))) = dom (db_blobs d)"
  using assms
proof (cases rule: create_version_cases [of d a g req i now])
  case (ok gr d1)
  then show ?thesis by (simp add: store_version_def)
qed simp

lemma resolve_conflict_blobs:
  assumes "db_wf d"
  shows "db_blobs (fst (resolve_conflict us d a g w kb i now)) = db_blobs d"
  using assms
proof (cases rule: resolve_conflict_cases [of d us a g w kb i now])
  case (ok gr wr d2)
  then show ?thesis by auto
qed simp

lemma ensure_game_blobs: "db_blobs (fst (ensure_game d a t appid i)) = db_blobs d"
  using ensure_game_db [of d a t appid i] by (auto elim: insert_game_cases)

lemma refcount_new_blob:
  assumes "db_wf d" and "db_blobs d h = None"
  shows "references h d = 0"
  using assms by (auto simp: references_def db_wf_def versions_wf_def filter_empty_conv)

lemma insert_blob_row_wf:
  assumes "db_wf d"
  shows "db_wf (insert_blob_row h n now d)"
proof (cases "db_blobs d h")
  case None
  let ?d = "d\<lparr>db_blobs := (db_blobs d)(h \<mapsto> \<lparr>b_bytes = of_nat n, b_refcount = 0, b_created_at = now\<rparr>)\<rparr>"
  have wf: "versions_wf d" "games_wf d" "refcount_wf d" using assms by (simp_all add: db_wf_def)
  have "versions_wf ?d" using wf(1) by (rule versions_wf_cong) (auto simp: game_keys_def)
  moreover have "games_wf ?d" using wf(2) by (simp add: games_wf_def)
  moreover have "refcount_wf ?d"
    using wf(3) refcount_new_blob [OF assms None] by (simp add: refcount_wf_def references_def)
  ultimately show ?thesis using None by (simp add: insert_blob_row_def db_wf_def)
qed (simp add: insert_blob_row_def assms)

lemma blob_put_handler_wf:
  assumes "store_wf (x_blake3 x) (ap_store app)"
  shows "store_wf (x_blake3 x) (ap_store (fst (blob_put_handler x app auth h body now)))"
proof (cases "valid_hash h")
  case (Inl e)
  then show ?thesis by (simp add: blob_put_handler_def assms)
next
  case (Inr u)
  have wf: "db_wf (s_db (ap_store app))" "dom (db_blobs (s_db (ap_store app))) \<subseteq> dom (s_objs (ap_store app))"
    "content_addressed (x_blake3 x) (ap_store app)"
    using assms by (simp_all add: store_wf_def blobs_backed_def)
  show ?thesis
  proof (cases rule: blob_put_cases [of "x_blake3 x" h body "ap_store app"])
    case (bad e t)
    with Inr assms show ?thesis
      by (simp add: blob_put_handler_def store_wf_def blobs_backed_def content_addressed_def)
  next
    case (good cs t)
    let ?s = "(ap_store app)\<lparr>s_tmp := t, s_objs := (s_objs (ap_store app))(h \<mapsto> concat cs)\<rparr>"
    have st: "ap_store (fst (blob_put_handler x app auth h body now)) =
        ?s\<lparr>s_db := insert_blob_row h (length (concat cs)) now (s_db (ap_store app))\<rparr>"
      using Inr good by (simp add: blob_put_handler_def Let_def)
    have "content_addressed (x_blake3 x) ?s" using wf(3) good(2) by (auto simp: content_addressed_def)
    moreover have "dom (db_blobs (insert_blob_row h n now d)) \<subseteq> insert h (dom (db_blobs d))" for n d
      by (auto simp: insert_blob_row_def)
    ultimately show ?thesis
      using wf insert_blob_row_wf [OF wf(1), of h "length (concat cs)" now]
      unfolding st store_wf_def blobs_backed_def content_addressed_def by fastforce
  qed
qed

lemma pair_wf:
  assumes "store_wf b (ap_store app)"
  shows "store_wf b (ap_store (fst (pair x app r i)))"
proof -
  have dwf: "db_wf (app_db app)" using assms by (simp add: store_wf_def app_db_def)
  obtain d acc where red: "redeem_pairing_code (secret_matches x) (app_db app) (pr_code r) (pi_now i) = (d, acc)"
    by (cases "redeem_pairing_code (secret_matches x) (app_db app) (pr_code r) (pi_now i)")
  then obtain ps where d: "d = (app_db app)\<lparr>db_pairing := ps\<rparr>"
    using redeem_loop_frame [of "secret_matches x" "pr_code r" "live_codes (app_db app) (pi_now i)" "app_db app"]
    by (auto simp: redeem_pairing_code_def)
  then have d_wf: "db_wf d" "dom (db_blobs d) \<subseteq> dom (db_blobs (app_db app))" using dwf by simp_all
  have dev: "db_wf (fst (create_device d a j n os h t))" "db_blobs (fst (create_device d a j n os h t)) = db_blobs d" for a j n os h t
    using create_device_wf [OF d_wf(1)] by (simp_all add: create_device_def)
  have out: "ap_store (fst (pair x app r i)) \<in>
      {ap_store app, ap_store (set_db app d)} \<union>
      {ap_store (set_db app (fst (create_device d a j n os h t))) |a j n os h t. True}"
    unfolding pair_def red
    by (auto simp: Let_def set_db_def split: sum.split option.split prod.split) (metis fst_conv)+
  have "store_wf b (ap_store (set_db app d))" using assms d_wf by (rule store_wf_set_db)
  moreover have "store_wf b (ap_store (set_db app (fst (create_device d a j n os h t))))" for a j n os h t
    using assms dev(1) by (rule store_wf_set_db) (simp add: dev d_wf)
  ultimately show ?thesis using out assms by auto
qed

lemma with_auth_cases: "P app \<Longrightarrow> (\<And>a. extracted = Inr a \<Longrightarrow> P (f a)) \<Longrightarrow> P (with_auth extracted app f)"
  by (cases extracted) (simp_all add: with_auth_def)

text \<open>
  A request leaves the store alone, replaces the database by the result of one operation, or
  uploads a blob. The facts about requests below are proved along these cases. The operations that
  need a device run under the account of its token.
\<close>

inductive db_effect :: "db \<Rightarrow> uuid option \<Rightarrow> db \<Rightarrow> bool" for d where
  same: "db_effect d acc d"
| code: "db_effect d acc (fst (create_pairing_code hs d a t e i))"
| revoke: "db_effect d (Some a) (fst (revoke_device d a i))"
| ensure: "db_effect d (Some a) (fst (ensure_game d a t ap i))"
| version: "db_effect d (Some a) (fst (create_version d a g r i t))"
| resolution: "db_effect d (Some a) (fst (resolve_conflict us d a g w kb i t))"
| get_cfg: "db_effect d (Some a) (fst (get_or_seed_config d a tag))"
| put_cfg: "db_effect d (Some a) (fst (put_config d a c seed tag))"

lemma set_db_same [simp]: "set_db app (app_db app) = app"
  by (simp add: set_db_def app_db_def)

lemma handler_stores:
  "fst (login x app p n) = app" "fst (refresh x app r n) = app"
  "fst (list_devices_handler app a) = app" "fst (list_versions_handler app a g) = app"
  "fst (get_head_handler app a g) = app" "fst (blob_head app a h) = app" "fst (blob_get app a h) = app"
  "ap_store (fst (create_pair_code x app own t e i)) =
     ap_store (set_db app (fst (create_pairing_code (hash_secret (x_argon2_hash x)) (app_db app) (os_account_id own) t e i)))"
  "ap_store (fst (delete_device app a i)) = ap_store (set_db app (fst (revoke_device (app_db app) (au_account_id a) i)))"
  "ap_store (fst (ensure_game_handler app a eg i)) =
     ap_store (set_db app (fst (ensure_game (app_db app) (au_account_id a) (eg_title eg) (eg_steam_appid eg) i)))"
  "ap_store (fst (create_version_handler app a g cv i t)) =
     (if blob_exists (ap_store app) (cv_blob_hash cv)
      then ap_store (set_db app (fst (create_version (app_db app) (au_account_id a) g cv i t))) else ap_store app)"
  "ap_store (fst (resolve x app a g rs i t)) =
     ap_store (set_db app (fst (resolve_conflict (x_uuid_str x) (app_db app) (au_account_id a) g (rs_winner rs) (rs_keep_both rs) i t)))"
  "ap_store (fst (get_config_handler app a tag)) = ap_store (set_db app (fst (get_or_seed_config (app_db app) (au_account_id a) tag)))"
  "ap_store (fst (put_config_handler app a c seed tag)) = ap_store (set_db app (fst (put_config (app_db app) (au_account_id a) c seed tag)))"
  by (simp_all add: login_def refresh_def list_devices_handler_def list_versions_handler_def get_head_handler_def
      blob_head_def blob_get_def create_pair_code_def delete_device_def ensure_game_handler_def
      create_version_handler_def resolve_def get_config_handler_def put_config_handler_def Let_def
      split: prod.split sum.split advance.split bool.split)

definition request_account :: "externals \<Rightarrow> app_state \<Rightarrow> nat \<Rightarrow> string option \<Rightarrow> uuid option" where
  "request_account x app now header = map_option au_account_id (res_ok (extract_authed x app now header))"

lemma request_account_Inr:
  "extract_authed x app now header = Inr a \<Longrightarrow> request_account x app now header = Some (au_account_id a)"
  by (simp add: request_account_def)

lemma route_cases:
  obtains (db) d where "ap_store (route x app now header req) = ap_store (set_db app d)"
      "db_effect (app_db app) (request_account x app now header) d"
  | (upload) auth h body t where "ap_store (route x app now header req) = ap_store (fst (blob_put_handler x app auth h body t))"
  | (pairing) r i where "req = PairReq r i" "ap_store (route x app now header req) = ap_store (fst (pair x app r i))"
proof -
  have unchanged: thesis if "ap_store (route x app now header req) = ap_store app"
    using that by (intro db [of "app_db app"]) (simp_all add: db_effect.same)
  show thesis
  proof (cases "\<exists>r i. req = PairReq r i")
    case True
    then show thesis by (auto simp: route_def intro: pairing)
  next
    case notpair: False
    show thesis
    proof (cases "\<exists>t e i. req = PairCode t e i")
      case True
      then show thesis
        by (cases "extract_owner_session x app now header")
          (auto simp: route_def with_auth_def handler_stores intro: unchanged db db_effect.code)
    next
      case False
      show thesis
      proof (cases "extract_authed x app now header")
        case (Inl e)
        with notpair False show thesis
          by (intro unchanged) (cases req, auto simp: route_def with_auth_def handler_stores)
      next
        case (Inr a)
        note acc = request_account_Inr [OF Inr]
        show thesis
        proof (cases req)
          case (CreateVersion g r i t)
          show thesis
          proof (cases "blob_exists (ap_store app) (cv_blob_hash r)")
            case True
            with Inr CreateVersion show thesis
              by (intro db [of "fst (create_version (app_db app) (au_account_id a) g r i t)"])
                (simp_all add: route_def with_auth_def handler_stores acc db_effect.version)
          next
            case False
            with Inr CreateVersion show thesis
              by (intro unchanged) (simp add: route_def with_auth_def handler_stores)
          qed
        next
          case (DeleteDevice i)
          with Inr show thesis
            by (intro db [of "fst (revoke_device (app_db app) (au_account_id a) i)"])
              (simp_all add: route_def with_auth_def handler_stores acc db_effect.revoke)
        next
          case (EnsureGame r i)
          with Inr show thesis
            by (intro db [of "fst (ensure_game (app_db app) (au_account_id a) (eg_title r) (eg_steam_appid r) i)"])
              (simp_all add: route_def with_auth_def handler_stores acc db_effect.ensure)
        next
          case (Resolve g r i t)
          with Inr show thesis
            by (intro db [of "fst (resolve_conflict (x_uuid_str x) (app_db app) (au_account_id a) g (rs_winner r) (rs_keep_both r) i t)"])
              (simp_all add: route_def with_auth_def handler_stores acc db_effect.resolution)
        next
          case (GetCfg tag)
          with Inr show thesis
            by (intro db [of "fst (get_or_seed_config (app_db app) (au_account_id a) tag)"])
              (simp_all add: route_def with_auth_def handler_stores acc db_effect.get_cfg)
        next
          case (PutCfg c seed tag)
          with Inr show thesis
            by (intro db [of "fst (put_config (app_db app) (au_account_id a) c seed tag)"])
              (simp_all add: route_def with_auth_def handler_stores acc db_effect.put_cfg)
        qed (use Inr notpair False acc in \<open>auto simp: route_def with_auth_def handler_stores
             intro: unchanged db db_effect.intros upload\<close>)
      qed
    qed
  qed
qed

lemma db_effect_wf: "db_effect d acc d' \<Longrightarrow> db_wf d \<Longrightarrow> db_wf d'"
proof (induction rule: db_effect.induct)
  case (code acc hs a t e i)
  then show ?case using create_pairing_code_frame [of hs d a t e i] by auto
next
  case (get_cfg a tag)
  then show ?case using get_or_seed_frame [of d a tag] by auto
next
  case (put_cfg a c seed tag)
  then show ?case using put_config_frame [of d a c seed tag] by auto
qed (simp_all add: revoke_device_wf ensure_game_wf create_version_wf resolve_conflict_wf)

lemma db_effect_blobs: "db_effect d acc d' \<Longrightarrow> db_wf d \<Longrightarrow> dom (db_blobs d') = dom (db_blobs d)"
proof (induction rule: db_effect.induct)
  case (code acc hs a t e i)
  then show ?case using create_pairing_code_frame [of hs d a t e i] by auto
next
  case (get_cfg a tag)
  then show ?case using get_or_seed_frame [of d a tag] by auto
next
  case (put_cfg a c seed tag)
  then show ?case using put_config_frame [of d a c seed tag] by auto
qed (simp_all add: revoke_device_def Let_def ensure_game_blobs create_version_blobs resolve_conflict_blobs)

lemma route_inv:
  assumes "server_inv x app"
  shows "server_inv x (route x app now header req)"
proof (cases rule: route_cases [of x app now header req])
  case (db d)
  have "db_wf (app_db app)" using assms by (simp add: server_inv_def store_wf_def app_db_def)
  with db db_effect_wf db_effect_blobs assms show ?thesis
    by (simp add: server_inv_def store_wf_set_db)
next
  case (upload auth h body t)
  with assms show ?thesis by (simp add: server_inv_def blob_put_handler_wf)
next
  case (pairing r i)
  with assms show ?thesis by (simp add: server_inv_def pair_wf)
qed

interpretation server: invariant_system "server_step x" "server_inv x" for x
proof
  fix app e
  assume inv: "server_inv x app"
  show "server_inv x (server_step x app e)"
  proof (cases e)
    case (Request now header req)
    with inv show ?thesis by (simp add: server_step_def route_inv)
  next
    case (Collect rm)
    with inv run_gc_ok(1) show ?thesis by (simp add: server_step_def gc_pass_def server_inv_def)
  qed
qed

section \<open>The history only grows\<close>

definition game_key :: "game_row \<Rightarrow> uuid \<times> uuid \<times> string \<times> 32 word option" where
  "game_key g = (g_id g, g_account g, g_title g, g_steam_appid g)"

definition db_grows :: "db \<Rightarrow> db \<Rightarrow> bool" where
  "db_grows d d' \<longleftrightarrow> prefix (db_versions d) (db_versions d') \<and> prefix (map game_key (db_games d)) (map game_key (db_games d'))"

definition grows :: "app_state \<Rightarrow> app_state \<Rightarrow> bool" where
  "grows app app' \<longleftrightarrow> db_grows (app_db app) (app_db app') \<and> dom (s_objs (ap_store app)) \<subseteq> dom (s_objs (ap_store app'))"

lemma db_grows_refl [simp]: "db_grows d d"
  by (simp add: db_grows_def)

lemma db_grows_frame:
  "db_versions d' = db_versions d \<Longrightarrow> db_games d' = db_games d \<Longrightarrow> db_grows d d'"
  by (simp add: db_grows_def)

lemma game_key_cas_head: "map game_key (db_games (fst (cas_head a g e n d))) = map game_key (db_games d)"
  by (simp add: cas_head_def game_key_def)

lemma db_effect_grows: "db_effect d acc d' \<Longrightarrow> db_wf d \<Longrightarrow> db_grows d d'"
proof (induction rule: db_effect.induct)
  case (code acc hs a t e i)
  then show ?case using create_pairing_code_frame [of hs d a t e i] by (auto simp: db_grows_def)
next
  case (get_cfg a tag)
  then show ?case using get_or_seed_frame [of d a tag] by (auto simp: db_grows_def)
next
  case (put_cfg a c seed tag)
  then show ?case using put_config_frame [of d a c seed tag] by (auto simp: db_grows_def)
next
  case (ensure a t ap i)
  then show ?case using ensure_game_db [of d a t ap i] by (auto simp: db_grows_def elim: insert_game_cases)
next
  case (version a g r i t)
  then show ?case
  proof (cases rule: create_version_cases [of d a g r i t])
    case (ok gr d1)
    have "map game_key (db_games (store_version d a g r i t)) = map game_key (db_games d)"
      by (simp add: store_version_def game_key_cas_head)
    with ok show ?thesis by (simp add: db_grows_def)
  qed simp
next
  case (resolution a us g w kb i t)
  then show ?case
  proof (cases rule: resolve_conflict_cases [of d us a g w kb i t])
    case (ok gr wr d2)
    then have "db_versions d2 = db_versions d" "map game_key (db_games d2) = map game_key (db_games d)"
      using game_key_cas_head by auto
    with ok show ?thesis by (simp add: db_grows_def)
  qed simp
qed (simp_all add: revoke_device_def Let_def db_grows_def)

lemma blob_put_handler_grows: "grows app (fst (blob_put_handler x app auth h body t))"
proof (cases "valid_hash h")
  case (Inl e)
  then show ?thesis by (simp add: blob_put_handler_def grows_def)
next
  case (Inr u)
  show ?thesis
  proof (cases rule: blob_put_cases [of "x_blake3 x" h body "ap_store app"])
    case (bad e t)
    with Inr show ?thesis by (simp add: blob_put_handler_def grows_def app_db_def)
  next
    case (good cs t)
    with Inr show ?thesis
      by (auto simp: blob_put_handler_def grows_def app_db_def insert_blob_row_def db_grows_def Let_def)
  qed
qed

lemma pair_grows: "grows app (fst (pair x app r i))"
proof -
  obtain d acc where red: "redeem_pairing_code (secret_matches x) (app_db app) (pr_code r) (pi_now i) = (d, acc)"
    by (cases "redeem_pairing_code (secret_matches x) (app_db app) (pr_code r) (pi_now i)")
  then obtain ps where d: "d = (app_db app)\<lparr>db_pairing := ps\<rparr>"
    using redeem_loop_frame [of "secret_matches x" "pr_code r" "live_codes (app_db app) (pi_now i)" "app_db app"]
    by (auto simp: redeem_pairing_code_def)
  have dev: "db_grows (app_db app) (fst (create_device d a j n os h t))" for a j n os h t
    by (simp add: create_device_def d db_grows_def)
  have "db_grows (app_db app) d" by (simp add: d db_grows_def)
  with dev show ?thesis
    unfolding pair_def red grows_def
    by (auto simp: Let_def split: sum.split option.split prod.split) (metis fst_conv)+
qed

lemma route_grows:
  assumes "server_inv x app"
  shows "grows app (route x app now header req)"
proof (cases rule: route_cases [of x app now header req])
  case (db d)
  have "db_wf (app_db app)" using assms by (simp add: server_inv_def store_wf_def app_db_def)
  with db db_effect_grows show ?thesis by (simp add: grows_def app_db_def [of "route x app now header req"] set_db_def)
next
  case (upload auth h body t)
  with blob_put_handler_grows [of app x auth h body t] show ?thesis by (simp add: grows_def app_db_def)
next
  case (pairing r i)
  with pair_grows [of app x r i] show ?thesis by (simp add: grows_def app_db_def)
qed

text \<open>Requests alone, without collections: the history is append-only.\<close>

definition request_step :: "externals \<Rightarrow> app_state \<Rightarrow> nat \<times> string option \<times> api_request \<Rightarrow> app_state" where
  "request_step x app r = (case r of (now, header, req) \<Rightarrow> route x app now header req)"

interpretation requests: monotone_system "request_step x" "server_inv x" grows for x
proof
  show "server_inv x app \<Longrightarrow> server_inv x (request_step x app r)" for app r
    by (simp add: request_step_def route_inv split: prod.split)
  show "grows app app" for app by (simp add: grows_def)
  show "grows a c" if "grows a b" "grows b c" for a b c
    using that by (auto simp: grows_def db_grows_def intro: prefix_order.trans)
  show "server_inv x app \<Longrightarrow> grows app (request_step x app r)" for app r
    by (simp add: request_step_def route_grows split: prod.split)
qed

section \<open>Accounts are separate\<close>

definition tenant_view :: "uuid \<Rightarrow> db \<Rightarrow> game_row list \<times> version_row list \<times> (string \<times> synced_config) option \<times> device_row list" where
  "tenant_view b d =
     (filter (\<lambda>g. g_account g = b) (db_games d), filter (\<lambda>r. vr_account r = b) (db_versions d),
      db_config d b, filter (\<lambda>v. d_account v = b) (db_devices d))"

lemma filter_map_other:
  "(\<And>x. x \<in> set xs \<Longrightarrow> P (f x) = P x \<and> (P x \<longrightarrow> f x = x)) \<Longrightarrow> filter P (map f xs) = filter P xs"
  by (induction xs) auto

lemma cas_head_other_account:
  "b \<noteq> a \<Longrightarrow> filter (\<lambda>r. g_account r = b) (db_games (fst (cas_head a g e n d))) = filter (\<lambda>r. g_account r = b) (db_games d)"
  by (simp add: cas_head_def) (rule filter_map_other, simp add: head_matches_def)

lemma seed_other: "b \<noteq> a \<Longrightarrow> db_config (fst (seed_default_config d a tag)) b = db_config d b"
  by (simp add: seed_default_config_def Let_def)

lemma db_effect_isolated:
  assumes "db_effect d (Some a) d'" and "db_wf d" and "b \<noteq> a"
  shows "tenant_view b d' = tenant_view b d"
  using assms
proof (induction "Some a" d' rule: db_effect.induct)
  case (code hs a' t e i)
  then show ?case using create_pairing_code_frame [of hs d a' t e i] by (auto simp: tenant_view_def)
next
  case (revoke i)
  then show ?case
    by (simp add: revoke_device_def Let_def tenant_view_def) (rule filter_map_other, simp)
next
  case (ensure t ap i)
  then show ?case using ensure_game_db [of d a t ap i] by (auto simp: tenant_view_def elim: insert_game_cases)
next
  case (version g r i t)
  then show ?case
  proof (cases rule: create_version_cases [of d a g r i t])
    case (ok gr d1)
    with version show ?thesis
      by (simp add: tenant_view_def) (simp add: store_version_def cas_head_other_account)
  qed simp
next
  case (resolution us g w kb i t)
  then show ?case
  proof (cases rule: resolve_conflict_cases [of d us a g w kb i t])
    case (ok gr wr d2)
    with resolution cas_head_other_account show ?thesis by (auto simp: tenant_view_def)
  qed simp
next
  case (get_cfg tag)
  then show ?case using get_or_seed_frame [of d a tag] seed_other [of b a d tag]
    by (auto simp: tenant_view_def get_or_seed_config_def split: option.splits)
next
  case (put_cfg c seed tag)
  have "db_config (fst (put_check d a c seed)) b = db_config d b"
    using seed_other [OF put_cfg(2), of d seed] by (simp add: put_check_def split_beta split: option.split)
  then have "db_config (fst (put_config d a c seed tag)) b = db_config d b"
    using put_cfg(2) by (auto simp: put_config_def put_write_def Let_def split: prod.splits sum.splits option.splits)
  moreover obtain m where "fst (put_config d a c seed tag) = d\<lparr>db_config := m\<rparr>"
    using put_config_frame [of d a c seed tag] by blast
  ultimately show ?case by (simp add: tenant_view_def)
qed simp

lemma blob_put_handler_view:
  "tenant_view b (app_db (fst (blob_put_handler x app auth h body t))) = tenant_view b (app_db app)"
proof (cases "valid_hash h")
  case (Inl e)
  then show ?thesis by (simp add: blob_put_handler_def)
next
  case (Inr u)
  show ?thesis
  proof (cases rule: blob_put_cases [of "x_blake3 x" h body "ap_store app"])
    case (bad e t)
    with Inr show ?thesis by (simp add: blob_put_handler_def app_db_def)
  next
    case (good cs t)
    with Inr show ?thesis
      by (simp add: blob_put_handler_def app_db_def insert_blob_row_def tenant_view_def Let_def)
  qed
qed

section \<open>Properties\<close>

text \<open>C1: the server's persistent state is always sound. From an empty server, after any sequence
  of requests (accepted or refused, authenticated or not) and collections, in any order, the
  database satisfies its integrity invariant: unique ids and sequence numbers, no dangling game,
  device, parent, head or blob, reference counts equal to the number of versions that use a blob;
  and every blob row has an object whose hash is its name.\<close>

theorem server_always_sound:
  "store_wf (x_blake3 x)
     (ap_store (foldl (server_step x)
        (app_state_new \<lparr>s_db = empty_db\<lparr>db_accounts := accounts\<rparr>, s_objs = Map.empty, s_tmp = Map.empty\<rparr> key) events))"
proof -
  let ?s = "\<lparr>s_db = empty_db\<lparr>db_accounts := accounts\<rparr>, s_objs = Map.empty, s_tmp = Map.empty\<rparr>"
  have "server_inv x (app_state_new ?s key)"
    by (simp add: server_inv_def app_state_new_def store_wf_def blobs_backed_def content_addressed_def
        db_wf_def versions_wf_def games_wf_def refcount_wf_def empty_db_def)
  from server.run_inv [OF this, of events] show ?thesis by (simp add: server_inv_def)
qed

text \<open>C25: the history is append-only. Between two points of time with no collection in between,
  whatever requests arrive, no stored version is removed or altered, no game disappears or changes
  its identity, and no blob object disappears.\<close>

theorem history_append_only:
  assumes "store_wf (x_blake3 x) (ap_store app)" and "app' = foldl (request_step x) app reqs"
  shows "prefix (db_versions (app_db app)) (db_versions (app_db app')) \<and>
     (\<forall>g \<in> set (db_games (app_db app)). \<exists>g' \<in> set (db_games (app_db app')). game_key g' = game_key g) \<and>
     dom (s_objs (ap_store app)) \<subseteq> dom (s_objs (ap_store app'))"
proof -
  have g: "grows app app'" using requests.run_le [of x app reqs] assms by (simp add: server_inv_def)
  then obtain ks where "map game_key (db_games (app_db app')) = map game_key (db_games (app_db app)) @ ks"
    by (auto simp: grows_def db_grows_def prefix_def)
  then have "game_key ` set (db_games (app_db app)) \<subseteq> game_key ` set (db_games (app_db app'))"
    by (metis list.set_map set_append Un_upper1)
  then have "\<forall>g \<in> set (db_games (app_db app)). \<exists>g' \<in> set (db_games (app_db app')). game_key g' = game_key g"
    by (metis (no_types, lifting) image_iff subsetD)
  with g show ?thesis by (simp add: grows_def db_grows_def)
qed

definition ex_ext :: externals where
  "ex_ext = \<lparr>x_argon2_hash = Inr, x_phc_valid = \<lambda>_. True, x_argon2_verify = (=), x_jwt_encode = ex_encode,
     x_jwt_decode = ex_decode, x_uuid_str = \<lambda>_. ''u'', x_uuid_parse = \<lambda>s. if s = ''u'' then Some 1 else None,
     x_blake3 = ex_blake3\<rparr>"

theorem history_append_only_witness:
  "prefix (db_versions ex_db) (db_versions (app_db (foldl (request_step ex_ext) ex_app
     [(0, None, BlobHead ''a''), (0, Some ''Bearer x'', DeleteDevice 2)])))"
proof -
  have "store_wf (x_blake3 ex_ext) (ap_store ex_app)"
    using ex_store_wf by (simp add: ex_ext_def ex_app_def app_state_new_def)
  from history_append_only [OF this refl, of "[(0, None, BlobHead ''a''), (0, Some ''Bearer x'', DeleteDevice 2)]"]
  show ?thesis by (simp add: ex_app_def app_state_new_def app_db_def ex_store_def)
qed

text \<open>C24: accounts are separate. A request that authenticates as a device of one account changes
  neither the games, heads or versions nor the configuration or the devices of any other account,
  whatever ids it names; and a blob is only handed out to an account that has a version with it.\<close>

theorem tenant_isolation:
  assumes "store_wf (x_blake3 x) (ap_store app)" and "extract_authed x app now header = Inr auth"
    and "b \<noteq> au_account_id auth" and "\<forall>r i. req \<noteq> PairReq r i"
  shows "tenant_view b (app_db (route x app now header req)) = tenant_view b (app_db app) \<and>
     (snd (blob_get app auth h) = Inr bs \<longrightarrow>
        (\<exists>r \<in> set (db_versions (app_db app)). vr_account r = au_account_id auth \<and> v_blob_hash r = h) \<and>
        x_blake3 x bs = h)"
proof
  have wf: "db_wf (app_db app)" using assms(1) by (simp add: store_wf_def app_db_def)
  have acc: "request_account x app now header = Some (au_account_id auth)"
    using assms(2) by (rule request_account_Inr)
  show "tenant_view b (app_db (route x app now header req)) = tenant_view b (app_db app)"
  proof (cases rule: route_cases [of x app now header req])
    case (db d)
    then have "app_db (route x app now header req) = d" by (simp add: app_db_def set_db_def)
    moreover have "tenant_view b d = tenant_view b (app_db app)"
      using db(2) wf assms(3) unfolding acc by (rule db_effect_isolated)
    ultimately show ?thesis by simp
  next
    case (upload auth h body t)
    have "tenant_view b (app_db (fst (blob_put_handler x app auth h body t))) = tenant_view b (app_db app)"
      by (rule blob_put_handler_view)
    with upload show ?thesis by (simp add: app_db_def)
  next
    case (pairing r i)
    with assms(4) show ?thesis by simp
  qed
  have "content_addressed (x_blake3 x) (ap_store app)" using assms(1) by (simp add: store_wf_def)
  then show "snd (blob_get app auth h) = Inr bs \<longrightarrow>
      (\<exists>r \<in> set (db_versions (app_db app)). vr_account r = au_account_id auth \<and> v_blob_hash r = h) \<and> x_blake3 x bs = h"
    by (auto simp: blob_get_def bind_res_Inr_iff account_references_blob_def list_ex_iff content_addressed_def split: if_splits)
qed

text \<open>A device's token, and the state it is checked against.\<close>

definition ex_token :: string where
  "ex_token = (case mint_access_token ex_encode (\<lambda>_. ''u'') [1] 0 1 1 of Inr t \<Rightarrow> t | Inl _ \<Rightarrow> [])"

definition ex_app1 :: app_state where
  "ex_app1 = set_db ex_app (ex_db\<lparr>db_devices := db_devices ex_db @
     [\<lparr>d_id = 1, d_account = 1, d_name = ''deck'', d_os = ''linux'', d_token_hash = ''t'', d_last_seen = None, d_revoked = False\<rparr>]\<rparr>)"

lemma ex_app1_wf: "store_wf (x_blake3 ex_ext) (ap_store ex_app1)"
proof -
  have "db_wf (app_db ex_app1)"
    unfolding ex_app1_def set_db_simps using ex_db_wf by (rule db_wf_devices) auto
  with ex_store_wf show ?thesis
    by (simp add: store_wf_def blobs_backed_def content_addressed_def ex_app1_def ex_app_def app_state_new_def set_db_def
        app_db_def ex_store_def ex_ext_def)
qed

lemma trim_x: "trim (replicate n CHR ''x'') = replicate n CHR ''x''"
proof -
  have "dropWhile is_blank (replicate n CHR ''x'') = replicate n CHR ''x''"
    by (cases n) (simp_all add: is_blank_def)
  then show ?thesis by (simp add: trim_def)
qed

lemma ex_authed: "extract_authed ex_ext ex_app1 0 (Some (''Bearer '' @ ex_token)) = Inr \<lparr>au_account_id = 1, au_device_id = 1\<rparr>"
proof -
  have b: "bearer (Some (''Bearer '' @ ex_token)) = Inr ex_token"
    unfolding bearer_def by (simp only: ok_or_simps bind_res_simps strip_prefix_append option.map)
      (simp add: ex_token_def mint_access_token_def ex_encode_def trim_x)
  have "verify_access ex_decode [1] 0 ex_token = Inr \<lparr>ac_sub = ''u'', ac_acc = ''u'', ac_exp = 900, ac_typ = ''access''\<rparr>"
    by (simp add: ex_token_def mint_access_token_def ex_encode_def verify_access_def ex_decode_def
        access_to_payload_def payload_to_access_def TYP_ACCESS_def ACCESS_TTL_SECS_def)
  moreover have "device_active (app_db ex_app1) 1 1"
    by (simp add: ex_app1_def ex_db_def device_active_def)
  ultimately show ?thesis
    unfolding extract_authed_def b bind_res_simps
    by (simp add: ex_ext_def ex_app1_def ex_app_def app_state_new_def)
qed

theorem tenant_isolation_witness:
  "tenant_view 77 (app_db (route ex_ext ex_app1 0 (Some (''Bearer '' @ ex_token)) (DeleteDevice 2))) =
   tenant_view 77 (app_db ex_app1)"
  using tenant_isolation [OF ex_app1_wf ex_authed, of 77 "DeleteDevice 2"] by simp

end
