(* ===== verification/Sync.thy ===== *)
theory Sync
  imports Restore Server_System
begin

text \<open>
  The daemon and the server together: what the server's history guarantees for the restore of a
  device. In the histories that the server can reach a parent is older than its child (a version
  could at most name itself, if a client guessed the identifier the server is about to mint), so
  the daemon's walk along them returns. A collection, however, may cut a chain that a restore needs.
\<close>

section \<open>Histories have no cycles\<close>

definition acyclic_parents :: "db \<Rightarrow> bool" where
  "acyclic_parents d =
     (\<exists>rank :: uuid \<Rightarrow> nat. \<forall>r \<in> set (db_versions d). \<forall>p. v_parent r = Some p \<longrightarrow> p \<noteq> v_id r \<longrightarrow> rank p < rank (v_id r))"

definition extends :: "db \<Rightarrow> db \<Rightarrow> bool" where
  "extends d d' =
     (db_versions d' = db_versions d \<or>
      (\<exists>r. db_versions d' = db_versions d @ [r] \<and> set_option (v_parent r) \<subseteq> insert (v_id r) (version_ids d) \<and>
           v_id r \<notin> version_ids d))"

lemma extends_acyclic:
  assumes "acyclic_parents d" and "extends d d'" and "versions_wf d"
  shows "acyclic_parents d'"
  using assms(2) unfolding extends_def
proof (elim disjE exE conjE)
  assume "db_versions d' = db_versions d"
  with assms(1) show ?thesis by (simp add: acyclic_parents_def)
next
  fix r
  assume vs: "db_versions d' = db_versions d @ [r]" and p: "set_option (v_parent r) \<subseteq> insert (v_id r) (version_ids d)"
    and new: "v_id r \<notin> version_ids d"
  from assms(1) obtain rank :: "uuid \<Rightarrow> nat" where rank:
    "\<forall>r \<in> set (db_versions d). \<forall>p. v_parent r = Some p \<longrightarrow> p \<noteq> v_id r \<longrightarrow> rank p < rank (v_id r)"
    unfolding acyclic_parents_def by blast
  let ?top = "Suc (foldr max (map (\<lambda>w. rank (v_id w)) (db_versions d)) 0)"
  have top: "rank (v_id w) < ?top" if "w \<in> set (db_versions d)" for w
  proof -
    have "x \<in> set xs \<Longrightarrow> x \<le> foldr max xs 0" for x :: nat and xs by (induction xs) auto
    with that show ?thesis by (simp add: less_Suc_eq_le)
  qed
  have "(rank(v_id r := ?top)) q < (rank(v_id r := ?top)) (v_id w)"
    if "w \<in> set (db_versions d')" "v_parent w = Some q" "q \<noteq> v_id w" for w q
  proof (cases "w = r")
    case True
    with p that have "q \<in> version_ids d" by auto
    then obtain u where "u \<in> set (db_versions d)" "q = v_id u" by (auto simp: version_ids_def)
    with top [of u] new True that(3) show ?thesis by simp
  next
    case False
    with that vs have w: "w \<in> set (db_versions d)" by auto
    then have "v_id w \<in> version_ids d" by (simp add: version_ids_def)
    moreover have "q \<in> version_ids d" using assms(3) w that(2) by (auto simp: versions_wf_def)
    ultimately show ?thesis using new rank w that(2,3) by auto
  qed
  then show ?thesis unfolding acyclic_parents_def by blast
qed

lemma shrinks_acyclic: "acyclic_parents d \<Longrightarrow> shrinks d d' \<Longrightarrow> acyclic_parents d'"
proof -
  assume "acyclic_parents d" and sh: "shrinks d d'"
  then obtain rank :: "uuid \<Rightarrow> nat" where rank:
    "\<forall>r \<in> set (db_versions d). \<forall>p. v_parent r = Some p \<longrightarrow> p \<noteq> v_id r \<longrightarrow> rank p < rank (v_id r)"
    unfolding acyclic_parents_def by blast
  have "rank p < rank (v_id r')" if "r' \<in> set (db_versions d')" "v_parent r' = Some p" "p \<noteq> v_id r'" for r' p
  proof -
    from sh that(1) obtain r where "r \<in> set (db_versions d)" "v_id r' = v_id r"
      "v_parent r' = v_parent r \<or> v_parent r' = None" by (rule shrinks_row)
    with rank that(2,3) show ?thesis by auto
  qed
  then show ?thesis unfolding acyclic_parents_def by blast
qed

lemma db_effect_extends: "db_effect d acc d' \<Longrightarrow> db_wf d \<Longrightarrow> extends d d'"
proof (induction rule: db_effect.induct)
  case (code acc hs a t e i)
  then show ?case using create_pairing_code_frame [of hs d a t e i] by (auto simp: extends_def)
next
  case (get_cfg a tag)
  then show ?case using get_or_seed_frame [of d a tag] by (auto simp: extends_def)
next
  case (put_cfg a c seed tag)
  then show ?case using put_config_frame [of d a c seed tag] by (auto simp: extends_def)
next
  case (ensure a t ap i)
  then show ?case using ensure_game_db [of d a t ap i] by (auto simp: extends_def elim: insert_game_cases)
next
  case (version a g r i t)
  then show ?case
  proof (cases rule: create_version_cases [of d a g r i t])
    case (ok gr d1)
    from ok(2) have "set_option (cv_parent r) \<subseteq> insert i (version_ids d)" "i \<notin> version_ids d"
      by (simp_all add: insert_version_Inr_iff)
    with ok show ?thesis by (auto simp: extends_def)
  qed (simp add: extends_def)
next
  case (resolution a us g w kb i t)
  then show ?case
  proof (cases rule: resolve_conflict_cases [of d us a g w kb i t])
    case (ok gr wr d2)
    then show ?thesis by (auto simp: extends_def)
  qed (simp add: extends_def)
qed (simp_all add: revoke_device_def Let_def extends_def)

lemma blob_put_handler_versions:
  "db_versions (app_db (fst (blob_put_handler x app auth h body t))) = db_versions (app_db app)"
proof (cases "valid_hash h")
  case (Inl e)
  then show ?thesis by (simp add: blob_put_handler_def)
next
  case (Inr u)
  show ?thesis
  proof (cases rule: blob_put_cases [of "x_blake3 x" h body "ap_store app"])
    case (bad e t)
    with Inr show ?thesis by (simp add: blob_put_handler_def app_db_def)
  next
    case (good cs t)
    with Inr show ?thesis
      by (auto simp: blob_put_handler_def app_db_def insert_blob_row_def Let_def)
  qed
qed

lemma pair_versions: "db_versions (app_db (fst (pair x app r i))) = db_versions (app_db app)"
proof -
  obtain d acc where red: "redeem_pairing_code (secret_matches x) (app_db app) (pr_code r) (pi_now i) = (d, acc)"
    by (cases "redeem_pairing_code (secret_matches x) (app_db app) (pr_code r) (pi_now i)")
  then obtain ps where d: "d = (app_db app)\<lparr>db_pairing := ps\<rparr>"
    using redeem_loop_frame [of "secret_matches x" "pr_code r" "live_codes (app_db app) (pi_now i)" "app_db app"]
    by (auto simp: redeem_pairing_code_def)
  have dev: "db_versions (fst (create_device d a j n os h t)) = db_versions (app_db app)" for a j n os h t
    by (simp add: create_device_def d)
  have "db_versions d = db_versions (app_db app)" by (simp add: d)
  with dev show ?thesis
    unfolding pair_def red
    by (auto simp: Let_def split: sum.split option.split prod.split) (metis fst_conv)+
qed

definition history_inv :: "externals \<Rightarrow> app_state \<Rightarrow> bool" where
  "history_inv x app = (server_inv x app \<and> acyclic_parents (app_db app))"

lemma route_extends:
  assumes "server_inv x app"
  shows "extends (app_db app) (app_db (route x app now header req))"
proof (cases rule: route_cases [of x app now header req])
  case (db d)
  have "db_wf (app_db app)" using assms by (simp add: server_inv_def store_wf_def app_db_def)
  with db db_effect_extends show ?thesis by (simp add: app_db_def [of "route x app now header req"] set_db_def)
next
  case (upload auth h body t)
  with blob_put_handler_versions [of x app auth h body t] show ?thesis by (simp add: extends_def app_db_def)
next
  case (pairing r i)
  with pair_versions [of x app r i] show ?thesis by (simp add: extends_def app_db_def)
qed

interpretation histories: invariant_system "server_step x" "history_inv x" for x
proof
  fix app e
  assume inv: "history_inv x app"
  then have wf: "server_inv x app" "versions_wf (app_db app)"
    by (simp_all add: history_inv_def server_inv_def store_wf_def db_wf_def app_db_def)
  show "history_inv x (server_step x app e)"
  proof (cases e)
    case (Request now header req)
    with inv wf route_inv route_extends extends_acyclic show ?thesis
      by (metis event.case(1) history_inv_def server_step_def)
  next
    case (Collect rm)
    have "shrinks (app_db app) (app_db (server_step x app (Collect rm)))"
      using run_gc_ok(2) wf(1) by (auto simp: server_step_def gc_pass_def app_db_def server_inv_def collects_def)
    with Collect inv wf server.step_inv shrinks_acyclic show ?thesis by (auto simp: history_inv_def)
  qed
qed

section \<open>The search for the chain returns\<close>

lemma list_versions_row:
  "v \<in> set (Server_Db.list_versions d a g) \<Longrightarrow>
   (\<And>r. r \<in> set (db_versions d) \<Longrightarrow> v = row_to_version r \<Longrightarrow> thesis) \<Longrightarrow> thesis"
  unfolding list_versions_def versions_of_def set_map set_rev set_sort set_filter by blast

lemma build_chain_returns:
  assumes "acyclic_parents d" and self: "\<forall>r \<in> set (db_versions d). v_parent r \<noteq> Some (v_id r)"
  shows "\<exists>r. build_chain (Server_Db.list_versions d a g) t = Some r"
proof -
  from assms(1) obtain rank :: "uuid \<Rightarrow> nat" where rank:
    "\<forall>r \<in> set (db_versions d). \<forall>p. v_parent r = Some p \<longrightarrow> p \<noteq> v_id r \<longrightarrow> rank p < rank (v_id r)"
    unfolding acyclic_parents_def by blast
  let ?vs = "Server_Db.list_versions d a g"
  have "rank p < rank i" if "versions_by_id ?vs i = Some v" "v_parent v = Some p" for i v p
  proof -
    have "v \<in> set ?vs" "v_id v = i" using versions_by_id_Some [OF that(1)] by simp_all
    then obtain r where r: "r \<in> set (db_versions d)" and v: "v = row_to_version r"
      by (elim list_versions_row)
    then have "v_id r = i" "v_parent r = Some p" using \<open>v_id v = i\<close> that(2) by simp_all
    with r rank self show ?thesis by blast
  qed
  then have "\<exists>r. chain_loop (versions_by_id ?vs) (Some t) [] = Some r" by (rule chain_loop_returns)
  then show ?thesis by (auto simp: build_chain_def split: option.split sum.split)
qed

text \<open>C20: the restore of a device never hangs on the server's history. After any sequence of
  requests and collections from an empty server, for every account, game and target version, the
  unbounded walk of \<open>build_chain\<close> over the listing that the server sends returns a chain or an
  error. The hypothesis excludes a version that names itself as its parent, which needs a client
  that knows the identifier the server has not minted yet.\<close>

theorem restore_search_returns:
  assumes "app = foldl (server_step x)
      (app_state_new \<lparr>s_db = empty_db\<lparr>db_accounts := accounts\<rparr>, s_objs = Map.empty, s_tmp = Map.empty\<rparr> key) events"
    and "\<forall>r \<in> set (db_versions (app_db app)). v_parent r \<noteq> Some (v_id r)"
  shows "\<exists>r. build_chain (Server_Db.list_versions (app_db app) account game) target = Some r"
proof (rule build_chain_returns)
  let ?s = "\<lparr>s_db = empty_db\<lparr>db_accounts := accounts\<rparr>, s_objs = Map.empty, s_tmp = Map.empty\<rparr>"
  have "history_inv x (app_state_new ?s key)"
    by (simp add: history_inv_def server_inv_def app_state_new_def store_wf_def blobs_backed_def content_addressed_def
        db_wf_def versions_wf_def games_wf_def refcount_wf_def empty_db_def acyclic_parents_def app_db_def)
  from histories.run_inv [OF this, of events] show "acyclic_parents (app_db app)"
    by (simp add: assms(1) history_inv_def)
qed (use assms(2) in blast)

section \<open>A run of the server\<close>

text \<open>The owner mints a pairing code, a device redeems it, registers a game, asks for one full
  version with one differential to be retained, uploads a blob and creates a full version and
  three differentials, each on the one before.\<close>

definition run_hash :: blake3_hash where
  "run_hash = replicate 64 (CHR ''a'')"

definition run_ext :: externals where
  "run_ext =
     \<lparr>x_argon2_hash = Inr, x_phc_valid = (\<lambda>_. True), x_argon2_verify = (=),
      x_jwt_encode = (\<lambda>key p. Inr (if pl_typ p = Some TYP_OWNER then ''o'' else ''d'')),
      x_jwt_decode = (\<lambda>key now s.
        if s = ''o'' then Some \<lparr>pl_sub = None, pl_acc = Some ''u'', pl_role = Some TYP_OWNER, pl_exp = Some 900, pl_typ = Some TYP_OWNER\<rparr>
        else if s = ''d'' then Some \<lparr>pl_sub = Some ''u'', pl_acc = Some ''u'', pl_role = None, pl_exp = Some 900, pl_typ = Some TYP_ACCESS\<rparr>
        else None),
      x_uuid_str = (\<lambda>_. ''u''), x_uuid_parse = (\<lambda>s. if s = ''u'' then Some 1 else None),
      x_blake3 = (\<lambda>_. run_hash)\<rparr>"

definition run_version :: "uuid option \<Rightarrow> version_kind \<Rightarrow> create_version_req" where
  "run_version p k =
     \<lparr>cv_parent = p, cv_kind = k, cv_files = [], cv_blob_hash = run_hash, cv_bytes = 1, cv_device_id = 1\<rparr>"

definition run_events :: "event list" where
  "run_events =
     Request 0 (Some ''Bearer o'') (PairCode 0 [0, 1] 5) #
     map (Request 0 (Some ''Bearer d''))
       [PairReq \<lparr>pr_code = generate_pairing_code [0, 1], pr_device_name = ''pc'', pr_os = Linux\<rparr>
          \<lparr>pi_check_at = 0, pi_fail_at = 0, pi_now = 1, pi_now_secs = 0, pi_device = 1, pi_entropy = [0]\<rparr>,
        EnsureGame \<lparr>eg_title = ''Celeste'', eg_steam_appid = None\<rparr> 3,
        PutCfg (synced_config_default\<lparr>sc_tag := ''t0'', sc_retention := \<lparr>rt_full = 1, rt_diff_per_full = 1\<rparr>\<rparr>) ''t0'' ''t1'',
        BlobPut run_hash [Inr [1]] 2,
        CreateVersion 3 (run_version None Full) 10 3,
        CreateVersion 3 (run_version (Some 10) Differential) 11 4,
        CreateVersion 3 (run_version (Some 11) Differential) 12 5,
        CreateVersion 3 (run_version (Some 12) Differential) 13 6]"

definition run_start :: app_state where
  "run_start =
     app_state_new \<lparr>s_db = empty_db\<lparr>db_accounts := [\<lparr>a_id = 1, a_owner_hash = ''pw'', a_created_at = 0\<rparr>]\<rparr>,
       s_objs = Map.empty, s_tmp = Map.empty\<rparr> [1]"

definition run_app :: app_state where
  "run_app = foldl (server_step run_ext) run_start run_events"

lemma run_app_versions: "map v_id (Server_Db.list_versions (app_db run_app) 1 3) = [13, 12, 11, 10]"
  by code_simp

lemma run_no_self: "list_all (\<lambda>r. v_parent r \<noteq> Some (v_id r)) (db_versions (app_db run_app))"
  by code_simp

theorem restore_search_returns_witness:
  "(\<exists>r. build_chain (Server_Db.list_versions (app_db run_app) 1 3) 13 = Some r) \<and>
   map v_id (Server_Db.list_versions (app_db run_app) 1 3) = [13, 12, 11, 10]"
  using restore_search_returns [OF run_app_def [unfolded run_start_def]] run_no_self run_app_versions
  by (simp add: list_all_iff)

section \<open>A collection can cut the chain of the head\<close>

definition run_collected :: app_state where
  "run_collected = server_step run_ext run_app (Collect (\<lambda>_. False))"


end
