(* ===== verification/Steam.thy ===== *)
theory Steam
  imports Fs Decimal Local_State
begin

text \<open>
  The reader of Steam's files (\<open>savr-daemon/src/detection/steam.rs\<close>): the KeyValues parser for
  \<open>libraryfolders.vdf\<close> and \<open>appmanifest_*.acf\<close>, and the discovery of libraries and games on disk.
  The tokenizer and the parser work on the rest of the input instead of an index into it. A Rust
  string is its UTF-8 bytes. The well-known install roots, which depend on the platform and the
  user's environment, are not modelled.
\<close>

section \<open>UTF-8\<close>

definition utf8_len :: "char \<Rightarrow> nat" where
  "utf8_len c =
     (let b = char_code c in
      if b < 128 then 1 else if b div 32 = 6 then 2 else if b div 16 = 14 then 3 else 4)"

definition between :: "nat \<Rightarrow> nat \<Rightarrow> char \<Rightarrow> bool" where
  "between lo hi c = (lo \<le> char_code c \<and> char_code c \<le> hi)"

text \<open>Whether bytes are the encoding of one character, and of a string (\<open>str::from_utf8\<close>).\<close>

definition utf8_char :: "string \<Rightarrow> bool" where
  "utf8_char s =
     (case s of
        [a] \<Rightarrow> between 0 127 a
      | [a, b] \<Rightarrow> between 194 223 a \<and> between 128 191 b
      | [a, b, c] \<Rightarrow>
          (if char_code a = 224 then between 160 191 b
           else if char_code a = 237 then between 128 159 b
           else between 225 239 a \<and> between 128 191 b) \<and> between 128 191 c
      | [a, b, c, d] \<Rightarrow>
          (if char_code a = 240 then between 144 191 b
           else if char_code a = 244 then between 128 143 b
           else between 241 243 a \<and> between 128 191 b) \<and> between 128 191 c \<and> between 128 191 d
      | _ \<Rightarrow> False)"

lemma utf8_len_pos [simp]: "0 < utf8_len c"
  by (simp add: utf8_len_def Let_def)

function utf8_chars :: "string \<Rightarrow> string list" where
  "utf8_chars [] = []"
| "utf8_chars (c # cs) = take (utf8_len c) (c # cs) # utf8_chars (drop (utf8_len c) (c # cs))"
  by pat_completeness auto

termination by (relation "measure length") (auto simp: drop_Cons')

definition utf8_valid :: "string \<Rightarrow> bool" where
  "utf8_valid s = list_all utf8_char (utf8_chars s)"

text \<open>\<open>u8 as char\<close>, pushed onto a string.\<close>

definition latin1 :: "char \<Rightarrow> string" where
  "latin1 c =
     (let b = char_code c in
      if b < 128 then [c] else [char_of (192 + b div 64), char_of (128 + b mod 64)])"

text \<open>\<open>char::is_whitespace\<close> and \<open>str::trim\<close>.\<close>

definition is_whitespace :: "string \<Rightarrow> bool" where
  "is_whitespace s =
     (map char_code s \<in> {[9], [10], [11], [12], [13], [32], [194, 133], [194, 160], [225, 154, 128],
        [226, 128, 168], [226, 128, 169], [226, 128, 175], [226, 129, 159], [227, 128, 128]} \<or>
      (case s of
         [x, y, z] \<Rightarrow> char_code x = 226 \<and> char_code y = 128 \<and> between 128 138 z
       | _ \<Rightarrow> False))"

definition trim_unicode :: "string \<Rightarrow> string" where
  "trim_unicode s =
     concat (rev (dropWhile is_whitespace (rev (dropWhile is_whitespace (utf8_chars s)))))"

section \<open>KeyValues documents\<close>

datatype kv = Str string | Obj "(string \<times> kv) list"

fun kv_get :: "kv \<Rightarrow> string \<Rightarrow> kv option" where
  "kv_get (Obj es) key = map_option snd (List.find (\<lambda>e. fst e = key) es)"
| "kv_get (Str s) key = None"

fun kv_as_str :: "kv \<Rightarrow> string option" where
  "kv_as_str (Str s) = Some s"
| "kv_as_str (Obj es) = None"

fun kv_entries :: "kv \<Rightarrow> (string \<times> kv) list" where
  "kv_entries (Obj es) = es"
| "kv_entries (Str s) = []"

datatype token = StrTok string | Open | Close

abbreviation dquote :: char where "dquote \<equiv> CHR 0x22"
abbreviation backslash :: char where "backslash \<equiv> CHR 0x5C"

definition unescape :: "char \<Rightarrow> string" where
  "unescape c = (if c = CHR ''n'' then [CHR 0x0A] else if c = CHR ''t'' then [CHR 0x09] else latin1 c)"

text \<open>The inner loop of the tokenizer: the rest of a quoted string, and the input after it.\<close>

function read_string :: "string \<Rightarrow> string \<Rightarrow> (string \<times> string) option" where
  "read_string [] s = None"
| "read_string (c # cs) s =
     (if c = dquote then Some (s, cs)
      else if c = backslash then
        (case cs of [] \<Rightarrow> None | e # rest \<Rightarrow> read_string rest (s @ unescape e))
      else
        (let ch = take (utf8_len c) (c # cs) in
         if utf8_valid ch then read_string (drop (utf8_len c) (c # cs)) (s @ ch) else None))"
  by pat_completeness auto

termination by (relation "measure (length \<circ> fst)") (auto simp: drop_Cons')

declare read_string.simps(2) [simp del]

lemma read_string_simps [simp]:
  "read_string (dquote # cs) s = Some (s, cs)"
  "read_string (backslash # e # cs) s = read_string cs (s @ unescape e)"
  by (simp_all add: read_string.simps(2))

lemma read_string_char:
  "c \<noteq> dquote \<Longrightarrow> c \<noteq> backslash \<Longrightarrow>
   read_string (c # cs) s =
     (if utf8_valid (take (utf8_len c) (c # cs))
      then read_string (drop (utf8_len c) (c # cs)) (s @ take (utf8_len c) (c # cs)) else None)"
  by (simp add: read_string.simps(2) Let_def)

lemma read_string_shorter: "read_string cs s = Some (t, rest) \<Longrightarrow> length rest < length cs"
proof (induction cs s rule: read_string.induct)
  case (2 c cs s)
  consider "c = dquote" | "c = backslash" | "c \<noteq> dquote" "c \<noteq> backslash" by blast
  then show ?case
  proof cases
    case 1
    with "2.prems" show ?thesis by simp
  next
    case 2
    with "2.prems" obtain e cs' where "cs = e # cs'" by (cases cs) (simp_all add: read_string.simps(2))
    with 2 "2.prems" "2.IH"(1) [of e cs'] show ?thesis by simp
  next
    case 3
    let ?r = "drop (utf8_len c) (c # cs)"
    from 3 "2.prems" have v: "utf8_valid (take (utf8_len c) (c # cs))"
      and r: "read_string ?r (s @ take (utf8_len c) (c # cs)) = Some (t, rest)"
      using read_string_char [OF 3, of cs s] by (metis option.distinct(1))+
    from "2.IH"(2) [OF 3 refl v r] have "length rest < length ?r" .
    also have "\<dots> \<le> length (c # cs)" by simp
    finally show ?thesis .
  qed
qed simp

function tokenize :: "string \<Rightarrow> token list option" where
  "tokenize [] = Some []"
| "tokenize (c # cs) =
     (if c = CHR 0x7B then map_option (Cons Open) (tokenize cs)
      else if c = CHR 0x7D then map_option (Cons Close) (tokenize cs)
      else if c = dquote then
        (case read_string cs '''' of
           None \<Rightarrow> None
         | Some (s, rest) \<Rightarrow> map_option (Cons (StrTok s)) (tokenize rest))
      else if c = CHR ''/'' \<and> starts_with cs ''/'' then tokenize (dropWhile (\<lambda>x. x \<noteq> newline) (c # cs))
      else tokenize cs)"
  by pat_completeness auto

termination
  by (relation "measure length")
     (auto dest!: read_string_shorter simp: less_Suc_eq_le length_dropWhile_le)

section \<open>The parser\<close>

function parse_pair :: "token list \<Rightarrow> ((string \<times> kv) \<times> token list) option"
  and parse_obj :: "token list \<Rightarrow> (string \<times> kv) list \<Rightarrow> (kv \<times> token list) option" where
  "parse_pair ts =
     (case ts of
        StrTok key # StrTok s # rest \<Rightarrow> Some ((key, Str s), rest)
      | StrTok key # Open # rest \<Rightarrow>
          (case parse_obj rest [] of
             None \<Rightarrow> None
           | Some (obj, rest') \<Rightarrow> Some ((key, obj), rest'))
      | _ \<Rightarrow> None)"
| "parse_obj ts entries =
     (case ts of
        [] \<Rightarrow> None
      | Close # rest \<Rightarrow> Some (Obj entries, rest)
      | _ \<Rightarrow>
          (case parse_pair ts of
             None \<Rightarrow> None
           | Some (kv, rest) \<Rightarrow> parse_obj rest (entries @ [kv])))"
  by pat_completeness auto

lemma parse_shorter:
  "parse_pair_parse_obj_dom (Inl ts) \<Longrightarrow> parse_pair ts = Some (e, rest) \<Longrightarrow> length rest < length ts"
  "parse_pair_parse_obj_dom (Inr (ts, es)) \<Longrightarrow> parse_obj ts es = Some (v, rest) \<Longrightarrow> length rest < length ts"
proof (induction arbitrary: e rest and v rest rule: parse_pair_parse_obj.pinduct)
  case (1 ts)
  show ?case
    using "1.prems" "1.IH"
    by (fastforce simp: parse_pair.psimps [OF "1.hyps"] split: list.splits token.splits option.splits)
next
  case (2 ts es)
  show ?case
    using "2.prems" "2.IH"
    by (fastforce simp: parse_obj.psimps [OF "2.hyps"] split: list.splits token.splits option.splits)
qed

termination parse_pair
  by (relation "measure (\<lambda>x. case x of Inl ts \<Rightarrow> 2 * length ts | Inr (ts, es) \<Rightarrow> 2 * length ts + 1)")
     (auto dest!: parse_shorter(1))

declare parse_pair.simps [simp del] parse_obj.simps [simp del]

text \<open>Every pair of tokens parsed is consumed.\<close>

lemma parse_pair_shorter: "parse_pair ts = Some (e, rest) \<Longrightarrow> length rest < length ts"
  and parse_obj_shorter: "parse_obj ts es = Some (v, rest) \<Longrightarrow> length rest < length ts"
proof (induction ts and ts es arbitrary: e rest and v rest rule: parse_pair_parse_obj.induct)
  case (1 ts)
  then show ?case
    by (fastforce simp: parse_pair.simps [of ts] split: list.splits token.splits option.splits)
next
  case (2 ts es)
  then show ?case
    by (fastforce simp: parse_obj.simps [of ts] split: list.splits token.splits option.splits)
qed

function parse_doc :: "token list \<Rightarrow> (string \<times> kv) list \<Rightarrow> (string \<times> kv) list option" where
  "parse_doc ts root =
     (if ts = [] then Some root
      else case parse_pair ts of None \<Rightarrow> None | Some (kv, rest) \<Rightarrow> parse_doc rest (root @ [kv]))"
  by pat_completeness auto

termination by (relation "measure (length \<circ> fst)") (auto dest: parse_pair_shorter)

declare parse_doc.simps [simp del]

definition parse :: "string \<Rightarrow> kv option" where
  "parse txt =
     (case tokenize txt of None \<Rightarrow> None | Some ts \<Rightarrow> map_option Obj (parse_doc ts []))"

section \<open>Libraries and games\<close>

record steam_game =
  sg_appid :: "32 word"
  sg_installdir :: string
  sg_name :: string

record steam_library =
  sl_path :: path
  sl_games :: "steam_game list"

definition install_path :: "steam_library \<Rightarrow> steam_game \<Rightarrow> path" where
  "install_path lib g =
     path_join (path_join (path_join (sl_path lib) [Normal ''steamapps'']) [Normal ''common''])
       (components (sg_installdir g))"

definition proton_drive_c :: "steam_library \<Rightarrow> 32 word \<Rightarrow> path" where
  "proton_drive_c lib appid =
     path_join (sl_path lib)
       [Normal ''steamapps'', Normal ''compatdata'', Normal (show_u32 appid), Normal ''pfx'', Normal ''drive_c'']"

definition userdata_dir :: "steam_library \<Rightarrow> path" where
  "userdata_dir lib = path_join (sl_path lib) [Normal ''userdata'']"

definition read_dir :: "node \<Rightarrow> path \<Rightarrow> (string \<times> node) list option" where
  "read_dir fs p = (case lookup fs (loc p) of Some (Dir es) \<Rightarrow> Some es | _ \<Rightarrow> None)"

definition is_dir :: "node \<Rightarrow> bool" where
  "is_dir n = (case n of Dir _ \<Rightarrow> True | _ \<Rightarrow> False)"

definition is_ascii_digit :: "char \<Rightarrow> bool" where
  "is_ascii_digit = between 48 57"

definition steam_account_ids :: "node \<Rightarrow> path \<Rightarrow> string list" where
  "steam_account_ids fs userdata =
     (case read_dir fs userdata of
        None \<Rightarrow> []
      | Some es \<Rightarrow>
          filter (\<lambda>n. n \<noteq> ''0'' \<and> n \<noteq> '''' \<and> list_all is_ascii_digit n)
            (filter utf8_valid (map fst (filter (\<lambda>e. is_dir (snd e)) es))))"

definition eq_ignore_ascii_case :: "string \<Rightarrow> string \<Rightarrow> bool" where
  "eq_ignore_ascii_case a b = (map to_ascii_lowercase a = map to_ascii_lowercase b)"

definition library_path :: "string \<times> kv \<Rightarrow> path option" where
  "library_path e =
     (if parse_u32 (fst e) = None then None
      else (case snd e of
              Str p \<Rightarrow> Some (components p)
            | Obj _ \<Rightarrow> map_option components (Option.bind (kv_get (snd e) ''path'') kv_as_str)))"

definition parse_library_paths :: "string \<Rightarrow> path list" where
  "parse_library_paths vdf =
     (case parse vdf of
        None \<Rightarrow> []
      | Some root \<Rightarrow>
          (let container =
             (case List.find (\<lambda>e. eq_ignore_ascii_case (fst e) ''libraryfolders'') (kv_entries root) of
                Some e \<Rightarrow> snd e | None \<Rightarrow> root)
           in List.map_filter library_path (kv_entries container)))"

definition is_non_game_app :: "32 word \<Rightarrow> string \<Rightarrow> bool" where
  "is_non_game_app appid installdir =
     (appid = 228980 \<or> appid = 250820 \<or>
      starts_with installdir ''SteamLinuxRuntime'' \<or> installdir = ''Steamworks Shared'' \<or>
      installdir = ''Proton Hotfix'' \<or> installdir = ''Proton Next'' \<or>
      starts_with installdir ''Proton - '' \<or> starts_with installdir ''Proton EasyAntiCheat'' \<or>
      (case strip_prefix installdir ''Proton '' of
         None \<Rightarrow> False
       | Some rest \<Rightarrow> rest \<noteq> '''' \<and> is_ascii_digit (hd rest)))"

definition kv_str :: "kv \<Rightarrow> string \<Rightarrow> string option" where
  "kv_str v key = Option.bind (kv_get v key) kv_as_str"

definition parse_app_manifest :: "string \<Rightarrow> steam_game option" where
  "parse_app_manifest acf =
     Option.bind (parse acf) (\<lambda>root.
     Option.bind (kv_get root ''AppState'') (\<lambda>state.
     Option.bind (Option.bind (kv_str state ''appid'') parse_u32) (\<lambda>appid.
     let flags = (case Option.bind (kv_str state ''StateFlags'') parse_u32 of None \<Rightarrow> 0 | Some f \<Rightarrow> f) in
     if \<not> bit flags 2 then None
     else
       Option.bind (kv_str state ''installdir'') (\<lambda>installdir.
       if is_non_game_app appid installdir then None
       else
         (let name = (case map_option trim_unicode (kv_str state ''name'') of
                        Some s \<Rightarrow> if s = '''' then installdir else s
                      | None \<Rightarrow> installdir)
          in Some \<lparr>sg_appid = appid, sg_installdir = installdir, sg_name = name\<rparr>)))))"

definition read_to_string :: "node \<Rightarrow> path \<Rightarrow> string option" where
  "read_to_string fs p =
     (case read_file fs (loc p) of
        Inl e \<Rightarrow> None
      | Inr bs \<Rightarrow> (let s = map (\<lambda>b. char_of (unat b)) bs in if utf8_valid s then Some s else None))"

definition ends_with :: "string \<Rightarrow> string \<Rightarrow> bool" where
  "ends_with s p = starts_with (rev s) (rev p)"

definition library_games :: "node \<Rightarrow> path \<Rightarrow> (string \<times> node) list \<Rightarrow> steam_game list" where
  "library_games fs steamapps es =
     List.map_filter
       (\<lambda>name.
          if starts_with name ''appmanifest_'' \<and> ends_with name ''.acf''
          then Option.bind (read_to_string fs (path_join steamapps [Normal name])) parse_app_manifest
          else None)
       (map fst es)"

definition discover_libraries :: "node \<Rightarrow> path \<Rightarrow> steam_library list" where
  "discover_libraries fs steam_root =
     (let vdf_path = path_join steam_root [Normal ''steamapps'', Normal ''libraryfolders.vdf''];
          found = (case read_to_string fs vdf_path of None \<Rightarrow> [] | Some t \<Rightarrow> parse_library_paths t);
          lib_paths = (if steam_root \<in> set found then found else found @ [steam_root])
      in List.map_filter
           (\<lambda>lib.
              let steamapps = path_join lib [Normal ''steamapps''] in
              map_option (\<lambda>es. \<lparr>sl_path = lib, sl_games = library_games fs steamapps es\<rparr>)
                (read_dir fs steamapps))
           lib_paths)"

section \<open>Printed documents are parsed back\<close>

lemma utf8_char_facts:
  assumes "utf8_char ch"
  shows "ch \<noteq> []" "utf8_len (hd ch) = length ch" "1 < length ch \<Longrightarrow> b \<in> set ch \<Longrightarrow> 128 \<le> char_code b"
  using assms
  by (auto simp: utf8_char_def utf8_len_def between_def Let_def split: list.splits if_splits)

lemma utf8_valid_Nil [simp]: "utf8_valid []"
  by (simp add: utf8_valid_def)

lemma utf8_valid_induct [consumes 1, case_names Nil Cons]:
  assumes "utf8_valid s" and "P []"
    and "\<And>ch s. utf8_char ch \<Longrightarrow> utf8_valid s \<Longrightarrow> P s \<Longrightarrow> P (ch @ s)"
  shows "P s"
  using assms(1)
proof (induction s rule: utf8_chars.induct)
  case (2 c cs)
  then have "utf8_char (take (utf8_len c) (c # cs))" "utf8_valid (drop (utf8_len c) (c # cs))"
    by (simp_all add: utf8_valid_def)
  with assms(3) 2 show ?case by (metis append_take_drop_id)
qed (rule assms(2))

lemma utf8_char_valid: "utf8_char ch \<Longrightarrow> utf8_valid ch"
proof -
  assume ch: "utf8_char ch"
  with utf8_char_facts(1,2) obtain c cs where "ch = c # cs" "utf8_len c = length ch" by (cases ch) fastforce+
  with ch show ?thesis by (simp add: utf8_valid_def)
qed

text \<open>A quoted string as Valve writes it, and a document.\<close>

definition escape :: "char \<Rightarrow> string" where
  "escape c = (if c = dquote \<or> c = backslash then [backslash, c] else [c])"

definition print_str :: "string \<Rightarrow> string" where
  "print_str s = dquote # concat (map escape s) @ [dquote]"

fun print_kv :: "kv \<Rightarrow> string" and print_entries :: "(string \<times> kv) list \<Rightarrow> string" where
  "print_kv (Str s) = [CHR 0x09, CHR 0x09] @ print_str s @ [newline]"
| "print_kv (Obj es) = [newline, CHR 0x7B, newline] @ print_entries es @ [CHR 0x7D, newline]"
| "print_entries [] = []"
| "print_entries ((k, v) # es) = print_str k @ print_kv v @ print_entries es"

fun tokens_kv :: "kv \<Rightarrow> token list" and tokens_entries :: "(string \<times> kv) list \<Rightarrow> token list" where
  "tokens_kv (Str s) = [StrTok s]"
| "tokens_kv (Obj es) = Open # tokens_entries es @ [Close]"
| "tokens_entries [] = []"
| "tokens_entries ((k, v) # es) = StrTok k # tokens_kv v @ tokens_entries es"

fun utf8_kv :: "kv \<Rightarrow> bool" and utf8_entries :: "(string \<times> kv) list \<Rightarrow> bool" where
  "utf8_kv (Str s) = utf8_valid s"
| "utf8_kv (Obj es) = utf8_entries es"
| "utf8_entries [] = True"
| "utf8_entries ((k, v) # es) = (utf8_valid k \<and> utf8_kv v \<and> utf8_entries es)"

lemma unescape_self: "c = dquote \<or> c = backslash \<Longrightarrow> unescape c = [c]"
  by (auto simp: unescape_def latin1_def char_code_def)

lemma escape_char:
  assumes "utf8_char ch"
  shows "read_string (concat (map escape ch) @ rest) acc = read_string rest (acc @ ch)"
proof (cases "\<exists>c. ch = [c] \<and> (c = dquote \<or> c = backslash)")
  case True
  then obtain c where c: "ch = [c]" "c = dquote \<or> c = backslash" by blast
  then have "concat (map escape ch) @ rest = backslash # c # rest" by (simp add: escape_def)
  then show ?thesis unfolding c(1) using unescape_self [OF c(2)] by simp
next
  case False
  have plain: "b \<noteq> dquote \<and> b \<noteq> backslash" if "b \<in> set ch" for b
  proof (cases "1 < length ch")
    case True
    with utf8_char_facts(3) [OF assms True that] show ?thesis by (auto simp: char_code_def)
  next
    case False
    with utf8_char_facts(1) [OF assms] obtain c where "ch = [c]" by (cases ch) auto
    with \<open>\<nexists>c. ch = [c] \<and> (c = dquote \<or> c = backslash)\<close> that show ?thesis by auto
  qed
  then have e: "concat (map escape ch) = ch"
    by (induction ch) (auto simp: escape_def)
  obtain c cs where ch: "ch = c # cs" using utf8_char_facts(1) [OF assms] by (cases ch) simp_all
  have len: "utf8_len c = length ch" using utf8_char_facts(2) [OF assms] by (simp add: ch)
  have "take (utf8_len c) (c # cs @ rest) = ch" "drop (utf8_len c) (c # cs @ rest) = rest"
    using len by (simp_all add: ch)
  with plain [of c] utf8_char_valid [OF assms] e show ?thesis
    by (simp add: ch read_string_char)
qed

lemma read_string_escaped:
  assumes "utf8_valid s"
  shows "read_string (concat (map escape s) @ dquote # rest) acc = Some (acc @ s, rest)"
  using assms
proof (induction s arbitrary: acc rule: utf8_valid_induct)
  case (Cons ch s)
  then show ?case by (simp add: escape_char)
qed simp

declare tokenize.simps(2) [simp del]

lemma tokenize_simps [simp]:
  "tokenize (CHR 0x09 # cs) = tokenize cs" "tokenize (newline # cs) = tokenize cs"
  "tokenize (CHR 0x7B # cs) = map_option (Cons Open) (tokenize cs)"
  "tokenize (CHR 0x7D # cs) = map_option (Cons Close) (tokenize cs)"
  by (simp_all add: tokenize.simps(2))

lemma tokenize_str: "utf8_valid s \<Longrightarrow> tokenize (print_str s @ cs) = map_option (Cons (StrTok s)) (tokenize cs)"
  by (simp add: print_str_def tokenize.simps(2) read_string_escaped)

lemma tokenize_printed:
  "utf8_kv v \<Longrightarrow> tokenize cs = Some ts \<Longrightarrow> tokenize (print_kv v @ cs) = Some (tokens_kv v @ ts)"
  "utf8_entries es \<Longrightarrow> tokenize cs = Some ts \<Longrightarrow> tokenize (print_entries es @ cs) = Some (tokens_entries es @ ts)"
  by (induction v and es arbitrary: cs ts and cs ts rule: print_kv_print_entries.induct)
     (simp_all add: tokenize_str)

lemma parse_printed:
  "parse_pair (StrTok k # tokens_kv v @ ts) = Some ((k, v), ts)"
  "parse_obj (tokens_entries es @ Close # ts) acc = Some (Obj (acc @ es), ts)"
proof (induction v and es arbitrary: k ts and acc ts rule: print_kv_print_entries.induct)
  case (4 k v es)
  have "parse_pair (StrTok k # tokens_kv v @ tokens_entries es @ Close # ts) = Some ((k, v), tokens_entries es @ Close # ts)"
    by (rule 4)
  with 4 show ?case by (simp add: parse_obj.simps [of "StrTok k # r" for r])
qed (simp_all add: parse_pair.simps parse_obj.simps)

lemma parse_doc_printed: "parse_doc (tokens_entries es) acc = Some (acc @ es)"
proof (induction es arbitrary: acc)
  case (Cons e es)
  obtain k v where "e = (k, v)" by (cases e)
  with Cons show ?case
    by (subst parse_doc.simps) (simp add: parse_printed)
qed (simp add: parse_doc.simps)

lemma print_parse:
  "utf8_entries es \<Longrightarrow> parse (print_entries es) = Some (Obj es)"
  using tokenize_printed(2) [of es "[]" "[]"] by (simp add: parse_def parse_doc_printed)

text \<open>C32: the KeyValues parser reads every document that Steam can write. For any tree of keys,
  strings and nested objects (any UTF-8 texts, quotes and backslashes escaped), parsing the
  printed document gives back exactly the tree, in order and with repeated keys.\<close>

theorem kv_print_parse:
  assumes "utf8_entries es"
  shows "parse (print_entries es) = Some (Obj es)"
  using assms by (rule print_parse)

theorem kv_print_parse_witness:
  "parse (print_entries [(''libraryfolders'', Obj [(''0'', Obj [(''path'', Str [dquote, CHR 0xC3, CHR 0xA9])])])]) =
     Some (Obj [(''libraryfolders'', Obj [(''0'', Obj [(''path'', Str [dquote, CHR 0xC3, CHR 0xA9])])])])"
  by (rule kv_print_parse) code_simp

section \<open>What is discovered\<close>

lemma kv_get_map_of [simp]: "kv_get (Obj es) key = map_of es key"
  by (induction es) auto

declare kv_get.simps(1) [simp del]

definition listed_path :: "string \<times> kv \<Rightarrow> string option" where
  "listed_path e =
     (case snd e of
        Str s \<Rightarrow> Some s
      | Obj le \<Rightarrow> (case map_of le ''path'' of Some (Str s) \<Rightarrow> Some s | _ \<Rightarrow> None))"

lemma library_path_Some:
  "library_path e = Some p \<longleftrightarrow> parse_u32 (fst e) \<noteq> None \<and> (\<exists>s. listed_path e = Some s \<and> p = components s)"
proof (cases "snd e")
  case (Str s)
  then show ?thesis by (auto simp: library_path_def listed_path_def)
next
  case (Obj le)
  then show ?thesis
    by (auto simp: library_path_def listed_path_def bind_eq_Some_conv
        elim: kv_as_str.elims split: option.splits kv.splits)
qed

lemma in_map_filter: "y \<in> set (List.map_filter f xs) \<longleftrightarrow> (\<exists>x \<in> set xs. f x = Some y)"
  by (force simp: map_filter_def image_iff)

lemma library_paths_printed:
  assumes "utf8_entries [(key, Obj libs)]" and "eq_ignore_ascii_case key ''libraryfolders''"
  shows "parse_library_paths (print_entries [(key, Obj libs)]) = List.map_filter library_path libs"
  unfolding parse_library_paths_def print_parse [OF assms(1)] using assms(2) by simp

lemma library_listed:
  "(\<exists>lib \<in> set (List.map_filter (\<lambda>l. map_option (\<lambda>es. \<lparr>sl_path = l, sl_games = G l es\<rparr>) (R l)) ps).
      sl_path lib = p \<and> g \<in> set (sl_games lib)) \<longleftrightarrow>
   p \<in> set ps \<and> (\<exists>es. R p = Some es \<and> g \<in> set (G p es))"
  by (induction ps) (auto simp: map_filter_simps split: option.split)

lemma game_listed:
  "g \<in> set (library_games fs sa es) \<longleftrightarrow>
   (\<exists>name n txt. (name, n) \<in> set es \<and> starts_with name ''appmanifest_'' \<and> ends_with name ''.acf'' \<and>
      read_to_string fs (path_join sa [Normal name]) = Some txt \<and> parse_app_manifest txt = Some g)"
proof (induction es)
  case Nil
  then show ?case by (simp add: library_games_def map_filter_simps)
next
  case (Cons e es)
  obtain name n where e: "e = (name, n)" by (cases e)
  let ?f = "if starts_with name ''appmanifest_'' \<and> ends_with name ''.acf''
     then Option.bind (read_to_string fs (path_join sa [Normal name])) parse_app_manifest else None"
  have "g \<in> set (library_games fs sa (e # es)) \<longleftrightarrow> ?f = Some g \<or> g \<in> set (library_games fs sa es)"
    unfolding library_games_def by (auto simp: e map_filter_simps split: option.split)
  also have "?f = Some g \<longleftrightarrow> starts_with name ''appmanifest_'' \<and> ends_with name ''.acf'' \<and>
      (\<exists>txt. read_to_string fs (path_join sa [Normal name]) = Some txt \<and> parse_app_manifest txt = Some g)"
    by (simp add: bind_eq_Some_conv) blast
  finally show ?case unfolding Cons.IH e set_simps insert_iff prod.inject by blast
qed


definition to_bytes :: "string \<Rightarrow> byte list" where
  "to_bytes s = map (\<lambda>c. of_nat (of_char c)) s"

definition ex_acf :: "(string \<times> kv) list" where
  "ex_acf = [(''AppState'', Obj [(''appid'', Str ''220''), (''StateFlags'', Str ''4''), (''installdir'', Str ''HL2'')])]"

definition ex_libs :: "(string \<times> kv) list" where
  "ex_libs = [(''0'', Obj [(''path'', Str ''/d'')])]"

definition ex_steam_fs :: node where
  "ex_steam_fs =
     Dir [(''steam'', Dir [(''steamapps'',
             Dir [(''libraryfolders.vdf'', File (to_bytes (print_entries [(''LibraryFolders'', Obj ex_libs)])) \<lparr>fm_mtime = 0, fm_mode = 420\<rparr>)])]),
          (''d'', Dir [(''steamapps'', Dir [(''appmanifest_220.acf'', File (to_bytes (print_entries ex_acf)) \<lparr>fm_mtime = 0, fm_mode = 420\<rparr>)])])]"

definition ex_game220 :: steam_game where
  "ex_game220 = \<lparr>sg_appid = 220, sg_installdir = ''HL2'', sg_name = ''HL2''\<rparr>"


end
