(* ===== verification/Exe_Index.thy ===== *)
theory Exe_Index
  imports Fs Local_State
begin

text \<open>
  The index from executables to games (\<open>savr-daemon/src/detection/exe_index.rs\<close>): how it is filled
  from the install directories, how a running process is matched, and how it is kept in the local
  database. The case folding of keys, chosen when the daemon is compiled (none on Linux), is the
  parameter \<open>fc\<close>. The hash maps are association lists, in an arbitrary order. The walk of an
  install directory is the one for Unix, where a file is executable by its mode; an entry that is
  neither file nor directory is a link, which has every permission bit.
\<close>

unbundle bit_operations_syntax

section \<open>Definitions\<close>

datatype confidence = Basename | ByPath

definition as_i64 :: "confidence \<Rightarrow> int" where
  "as_i64 c = (case c of Basename \<Rightarrow> 1 | ByPath \<Rightarrow> 2)"

definition from_i64 :: "int \<Rightarrow> confidence" where
  "from_i64 v = (if 2 \<le> v then ByPath else Basename)"

record exe_index =
  xi_by_path :: "(string \<times> uuid) list"
  xi_by_basename :: "(string \<times> uuid list) list"

definition path_str :: "path \<Rightarrow> string" where
  "path_str p = (if is_absolute p then ''/'' @ slash_join (tl p) else slash_join p)"

definition exe_key :: "(string \<Rightarrow> string) \<Rightarrow> path \<Rightarrow> string" where
  "exe_key fc p = fc (path_str p)"

definition basename_key :: "(string \<Rightarrow> string) \<Rightarrow> path \<Rightarrow> string option" where
  "basename_key fc p = map_option fc (file_name p)"

definition exe_index_new :: exe_index where
  "exe_index_new = \<lparr>xi_by_path = [], xi_by_basename = []\<rparr>"

definition push_basename :: "string \<Rightarrow> uuid \<Rightarrow> exe_index \<Rightarrow> exe_index" where
  "push_basename key g idx =
     (let games = (case map_of (xi_by_basename idx) key of None \<Rightarrow> [] | Some gs \<Rightarrow> gs)
      in idx\<lparr>xi_by_basename :=
           AList.update key (if g \<in> set games then games else games @ [g]) (xi_by_basename idx)\<rparr>)"

definition from_row :: "string \<times> uuid \<times> int \<Rightarrow> exe_index \<Rightarrow> exe_index" where
  "from_row r idx =
     (case from_i64 (snd (snd r)) of
        ByPath \<Rightarrow> idx\<lparr>xi_by_path := AList.update (fst r) (fst (snd r)) (xi_by_path idx)\<rparr>
      | Basename \<Rightarrow> push_basename (fst r) (fst (snd r)) idx)"

definition from_rows :: "(string \<times> uuid \<times> int) list \<Rightarrow> exe_index" where
  "from_rows rows = fold from_row rows exe_index_new"

definition insert_exe :: "(string \<Rightarrow> string) \<Rightarrow> path \<Rightarrow> uuid \<Rightarrow> exe_index \<Rightarrow> exe_index" where
  "insert_exe fc exe g idx =
     (let idx1 = idx\<lparr>xi_by_path := AList.update (exe_key fc exe) g (xi_by_path idx)\<rparr>
      in case basename_key fc exe of None \<Rightarrow> idx1 | Some bn \<Rightarrow> push_basename bn g idx1)"

definition is_executable :: "file_meta \<Rightarrow> bool" where
  "is_executable m = (fm_mode m AND 73 \<noteq> 0)"

fun walk_entry :: "path \<Rightarrow> nat \<Rightarrow> node \<Rightarrow> path list" and walk :: "path \<Rightarrow> nat \<Rightarrow> (string \<times> node) list \<Rightarrow> path list" where
  "walk_entry p depth (Dir es) = (case depth of 0 \<Rightarrow> [] | Suc d \<Rightarrow> walk p d es)"
| "walk_entry p depth (File bs m) = (if is_executable m then [p] else [])"
| "walk_entry p depth Special = [p]"
| "walk p depth [] = []"
| "walk p depth ((x, n) # es) = walk_entry (path_join p [Normal x]) depth n @ walk p depth es"

definition find_executables :: "node \<Rightarrow> path \<Rightarrow> nat \<Rightarrow> path list" where
  "find_executables fs dir max_depth =
     (case lookup fs (loc dir) of Some (Dir es) \<Rightarrow> walk dir max_depth es | _ \<Rightarrow> [])"

definition index_install_dir :: "(string \<Rightarrow> string) \<Rightarrow> node \<Rightarrow> path \<Rightarrow> uuid \<Rightarrow> exe_index \<Rightarrow> exe_index" where
  "index_install_dir fc fs dir g idx = fold (\<lambda>exe. insert_exe fc exe g) (find_executables fs dir 6) idx"

definition match_exe :: "(string \<Rightarrow> string) \<Rightarrow> exe_index \<Rightarrow> path \<Rightarrow> (uuid \<times> confidence) option" where
  "match_exe fc idx p =
     (case map_of (xi_by_path idx) (exe_key fc p) of
        Some g \<Rightarrow> Some (g, ByPath)
      | None \<Rightarrow>
          (case basename_key fc p of
             None \<Rightarrow> None
           | Some bn \<Rightarrow>
               (case map_of (xi_by_basename idx) bn of
                  Some [g] \<Rightarrow> Some (g, Basename)
                | _ \<Rightarrow> None)))"

definition basename_rows :: "string \<times> uuid list \<Rightarrow> (string \<times> uuid \<times> int) list" where
  "basename_rows e = (case snd e of [g] \<Rightarrow> [(fst e, g, as_i64 Basename)] | _ \<Rightarrow> [])"

definition to_rows :: "exe_index \<Rightarrow> (string \<times> uuid \<times> int) list" where
  "to_rows idx =
     map (\<lambda>e. (fst e, snd e, as_i64 ByPath)) (xi_by_path idx) @
     concat (map basename_rows (xi_by_basename idx))"

definition exe_index_is_empty :: "exe_index \<Rightarrow> bool" where
  "exe_index_is_empty idx = (xi_by_path idx = [] \<and> xi_by_basename idx = [])"

section \<open>What the index matches\<close>

text \<open>The index after a sequence of insertions.\<close>

definition index_of :: "(string \<Rightarrow> string) \<Rightarrow> (path \<times> uuid) list \<Rightarrow> exe_index" where
  "index_of fc ins = fold (\<lambda>i. insert_exe fc (fst i) (snd i)) ins exe_index_new"

definition claimants :: "(string \<Rightarrow> string) \<Rightarrow> (path \<times> uuid) list \<Rightarrow> string \<Rightarrow> uuid set" where
  "claimants fc ins bn = {g. \<exists>q. (q, g) \<in> set ins \<and> basename_key fc q = Some bn}"

lemma push_basename_simps [simp]:
  "xi_by_path (push_basename bn g idx) = xi_by_path idx"
  "map_of (xi_by_basename (push_basename bn g idx)) =
     (map_of (xi_by_basename idx))(bn \<mapsto>
       (let games = (case map_of (xi_by_basename idx) bn of None \<Rightarrow> [] | Some gs \<Rightarrow> gs)
        in if g \<in> set games then games else games @ [g]))"
  "distinct (map fst (xi_by_basename (push_basename bn g idx))) \<longleftrightarrow> distinct (map fst (xi_by_basename idx))"
  by (simp_all add: push_basename_def Let_def update_conv' distinct_update)
     (auto simp: update_keys)

lemma insert_exe_simps:
  "map_of (xi_by_path (insert_exe fc q g idx)) = (map_of (xi_by_path idx))(exe_key fc q \<mapsto> g)"
  "basename_key fc q = Some bn \<Longrightarrow>
   map_of (xi_by_basename (insert_exe fc q g idx)) = map_of (xi_by_basename (push_basename bn g idx))"
  "basename_key fc q = None \<Longrightarrow> xi_by_basename (insert_exe fc q g idx) = xi_by_basename idx"
  by (simp_all add: insert_exe_def Let_def update_conv' split: option.split)

lemma insert_exe_distinct:
  "distinct (map fst (xi_by_path idx)) \<Longrightarrow> distinct (map fst (xi_by_path (insert_exe fc q g idx)))"
  "distinct (map fst (xi_by_basename idx)) \<Longrightarrow> distinct (map fst (xi_by_basename (insert_exe fc q g idx)))"
  by (simp_all add: insert_exe_def Let_def distinct_update split: option.split)

lemma index_of_snoc: "index_of fc (ins @ [(q, g)]) = insert_exe fc q g (index_of fc ins)"
  by (simp add: index_of_def)

lemma index_by_path:
  "map_of (xi_by_path (index_of fc ins)) = map_of (rev (map (\<lambda>i. (exe_key fc (fst i), snd i)) ins))"
  by (induction ins rule: rev_induct)
     (auto simp: index_of_def exe_index_new_def insert_exe_simps)

lemma index_distinct:
  "distinct (map fst (xi_by_path (index_of fc ins)))" "distinct (map fst (xi_by_basename (index_of fc ins)))"
  by (induction ins rule: rev_induct)
     (auto simp: index_of_def exe_index_new_def insert_exe_distinct)

text \<open>A set of claimants and the list that records it.\<close>

definition records :: "uuid list option \<Rightarrow> uuid set \<Rightarrow> bool" where
  "records gs G = (case gs of None \<Rightarrow> G = {} | Some xs \<Rightarrow> distinct xs \<and> xs \<noteq> [] \<and> set xs = G)"

lemma index_by_basename: "records (map_of (xi_by_basename (index_of fc ins)) bn) (claimants fc ins bn)"
proof (induction ins rule: rev_induct)
  case Nil
  then show ?case by (simp add: index_of_def exe_index_new_def records_def claimants_def)
next
  case (snoc i ins)
  obtain q g where i: "i = (q, g)" by (cases i)
  have claim: "claimants fc (ins @ [i]) bn =
      (if basename_key fc q = Some bn then insert g (claimants fc ins bn) else claimants fc ins bn)"
    by (auto simp: claimants_def i)
  show ?case
  proof (cases "basename_key fc q")
    case None
    then show ?thesis using snoc claim by (simp add: i index_of_snoc insert_exe_simps(3))
  next
    case (Some b)
    show ?thesis
    proof (cases "b = bn")
      case True
      with snoc claim Some show ?thesis
        by (auto simp: i index_of_snoc insert_exe_simps(2) records_def Let_def split: option.splits)
    next
      case False
      with snoc claim Some show ?thesis
        by (simp add: i index_of_snoc insert_exe_simps(2))
    qed
  qed
qed

lemma records_single: "records gs G \<Longrightarrow> gs = Some [g] \<longleftrightarrow> G = {g}"
  by (auto simp: records_def split: option.splits) (metis distinct.simps(2) empty_set insert_iff list.exhaust list.set(2) singletonD)

text \<open>C34: a running executable is matched to the right game. Its path wins: the game that was
  indexed last with that path. A path that is not indexed is matched by its file name exactly when
  one game, and no other, has an executable of that name; a name that several games share never
  matches.\<close>

theorem match_exe_exact:
  "(match_exe fc (index_of fc ins) p = Some (g, ByPath) \<longleftrightarrow>
      map_of (rev (map (\<lambda>i. (exe_key fc (fst i), snd i)) ins)) (exe_key fc p) = Some g) \<and>
   (match_exe fc (index_of fc ins) p = Some (g, Basename) \<longleftrightarrow>
      exe_key fc p \<notin> (\<lambda>i. exe_key fc (fst i)) ` set ins \<and>
      (\<exists>bn. basename_key fc p = Some bn \<and> claimants fc ins bn = {g}))"
proof -
  have path: "map_of (xi_by_path (index_of fc ins)) (exe_key fc p) = None \<longleftrightarrow>
      exe_key fc p \<notin> (\<lambda>i. exe_key fc (fst i)) ` set ins"
    by (simp add: index_by_path map_of_eq_None_iff image_image)
  have base: "map_of (xi_by_basename (index_of fc ins)) bn = Some [g] \<longleftrightarrow> claimants fc ins bn = {g}" for bn
    using records_single [OF index_by_basename] by blast
  show ?thesis
    unfolding path [symmetric] base [symmetric] unfolding index_by_path [symmetric] match_exe_def
    by (auto split: option.splits list.splits)
qed

section \<open>The index survives the database\<close>

lemma insert_rows_distinct:
  "distinct (map fst (t @ rows)) \<Longrightarrow> fold insert_exe_row rows t = t @ rows"
proof (induction rows arbitrary: t)
  case (Cons r rows)
  then have "filter (\<lambda>r'. fst r' \<noteq> fst r) t = t" by (auto simp: filter_id_conv intro: rev_image_eqI)
  with Cons show ?case by (simp add: insert_exe_row_def)
qed simp

lemma from_path_rows:
  "fold from_row (map (\<lambda>e. (fst e, snd e, as_i64 ByPath)) es) idx =
     idx\<lparr>xi_by_path := fold (\<lambda>e. AList.update (fst e) (snd e)) es (xi_by_path idx)\<rparr>"
  by (induction es arbitrary: idx) (simp_all add: from_row_def from_i64_def as_i64_def)

lemma map_of_fold_fresh:
  "distinct (map fst es) \<Longrightarrow> fst ` set es \<inter> fst ` set t = {} \<Longrightarrow>
   map_of (fold (\<lambda>e. AList.update (fst e) (snd e)) es t) = map_of t ++ map_of es"
proof (induction es arbitrary: t)
  case (Cons e es)
  then have "map_of (fold (\<lambda>e. AList.update (fst e) (snd e)) es (AList.update (fst e) (snd e) t)) =
      map_of (AList.update (fst e) (snd e) t) ++ map_of es"
    by (intro Cons.IH) (auto simp: dom_update)
  moreover have "fst e \<notin> dom (map_of es)" using Cons.prems by (simp add: dom_map_of_conv_image_fst)
  ultimately have "map_of (fold (\<lambda>e. AList.update (fst e) (snd e)) (e # es) t) =
      (map_of t ++ map_of es)(fst e \<mapsto> snd e)"
    by (simp add: update_conv' map_add_upd_left)
  also have "\<dots> = map_of t ++ map_of (e # es)" by (cases e) (simp add: fun_upd_def map_add_def fun_eq_iff)
  finally show ?case .
qed simp

lemma from_basename_rows:
  "distinct (map fst es) \<Longrightarrow> \<forall>e \<in> set es. map_of (xi_by_basename idx) (fst e) = None \<Longrightarrow>
   xi_by_path (fold from_row (concat (map basename_rows es)) idx) = xi_by_path idx \<and>
   map_of (xi_by_basename (fold from_row (concat (map basename_rows es)) idx)) bn =
     (case map_of es bn of Some [g] \<Rightarrow> Some [g] | _ \<Rightarrow> map_of (xi_by_basename idx) bn)"
proof (induction es arbitrary: idx)
  case (Cons e es)
  obtain k gs where e: "e = (k, gs)" by (cases e)
  consider g where "gs = [g]" | "basename_rows e = []" "\<And>g. gs \<noteq> [g]"
    by (cases gs rule: list.exhaust) (auto simp: e basename_rows_def split: list.splits)
  then show ?case
  proof cases
    case 1
    let ?idx = "push_basename k g idx"
    have step: "fold from_row (concat (map basename_rows (e # es))) idx =
        fold from_row (concat (map basename_rows es)) ?idx"
      by (simp add: e 1 basename_rows_def from_row_def from_i64_def as_i64_def)
    have k: "map_of (xi_by_basename idx) k = None" "k \<notin> fst ` set es" using Cons.prems by (auto simp: e)
    then have "map_of es k = None" by (simp add: map_of_eq_None_iff)
    moreover have "map_of (xi_by_basename ?idx) = (map_of (xi_by_basename idx))(k \<mapsto> [g])" using k by simp
    moreover have "\<forall>e' \<in> set es. map_of (xi_by_basename ?idx) (fst e') = None"
      using Cons.prems k by (auto simp: e)
    ultimately show ?thesis
      unfolding step using Cons.IH [of ?idx] Cons.prems(1) by (simp add: e 1 split: option.split list.split)
  next
    case 2
    from Cons.prems have "map_of es k = None" by (simp add: e map_of_eq_None_iff)
    with 2 Cons.IH [of idx] Cons.prems show ?thesis by (auto simp: e split: list.splits)
  qed
qed simp

lemma from_to_rows:
  assumes "distinct (map fst (xi_by_path idx))" and "distinct (map fst (xi_by_basename idx))"
  shows "match_exe fc (from_rows (to_rows idx)) p = match_exe fc idx p"
proof -
  let ?i = "exe_index_new\<lparr>xi_by_path := fold (\<lambda>e. AList.update (fst e) (snd e)) (xi_by_path idx) []\<rparr>"
  have "from_rows (to_rows idx) = fold from_row (concat (map basename_rows (xi_by_basename idx))) ?i"
    by (simp add: from_rows_def to_rows_def from_path_rows exe_index_new_def)
  moreover have "map_of (xi_by_path ?i) = map_of (xi_by_path idx)"
    using map_of_fold_fresh [OF assms(1), of "[]"] by simp
  moreover note from_basename_rows [OF assms(2), of ?i]
  ultimately show ?thesis
    by (auto simp: match_exe_def exe_index_new_def split: option.split list.split)
qed

lemma path_key_slash: "is_absolute p \<Longrightarrow> starts_with (path_str p) ''/''"
  by (simp add: path_str_def starts_with_def)

lemma basename_no_slash:
  assumes "basename_key fc q = Some bn" and "\<forall>x. Normal x \<in> set q \<longrightarrow> \<not> starts_with x ''/''"
    and fc: "\<And>s. starts_with (fc s) ''/'' \<longleftrightarrow> starts_with s ''/''"
  shows "\<not> starts_with bn ''/''"
proof -
  from assms(1) obtain x where x: "file_name q = Some x" "bn = fc x" by (auto simp: basename_key_def)
  then have "q \<noteq> []" "last q = Normal x" by (auto simp: file_name_def split: if_splits component.splits)
  then have "Normal x \<in> set q" by (metis last_in_set)
  with assms(2) fc x(2) show ?thesis by blast
qed

lemma basename_rows_keys: "fst ` set (concat (map basename_rows es)) \<subseteq> fst ` set es"
  by (auto simp: basename_rows_def split: list.splits) force

lemma basename_rows_distinct:
  "distinct (map fst es) \<Longrightarrow> distinct (map fst (concat (map basename_rows es)))"
proof (induction es)
  case (Cons e es)
  moreover have "fst e \<notin> fst ` set (concat (map basename_rows es))"
    using Cons.prems basename_rows_keys [of es] by auto
  ultimately show ?case by (auto simp: basename_rows_def split: list.splits)
qed simp

text \<open>The index survives a restart. An index that was filled with executables at absolute
  paths, written to the local database and read back, matches every process as before, although
  the table has one row per key and ambiguous names are not stored. The hypothesis on the case
  folding is that it neither adds nor removes a leading slash.\<close>

theorem exe_index_persists:
  assumes fc: "\<And>s. starts_with (fc s) ''/'' \<longleftrightarrow> starts_with s ''/''"
    and abs: "\<forall>i \<in> set ins. is_absolute (fst i) \<and> (\<forall>x. Normal x \<in> set (fst i) \<longrightarrow> \<not> starts_with x ''/'')"
  shows "match_exe fc (from_rows (load_exe_rows (replace_exe_index s (to_rows (index_of fc ins))))) p =
     match_exe fc (index_of fc ins) p"
proof -
  let ?idx = "index_of fc ins"
  have path: "starts_with k ''/''" if "k \<in> fst ` set (xi_by_path ?idx)" for k
  proof -
    from that have "map_of (xi_by_path ?idx) k \<noteq> None" by (simp add: map_of_eq_None_iff)
    then obtain i where "i \<in> set ins" "k = exe_key fc (fst i)"
      by (auto simp: index_by_path map_of_eq_None_iff)
    with abs fc path_key_slash show ?thesis by (simp add: exe_key_def)
  qed
  have base: "\<not> starts_with k ''/''" if "k \<in> fst ` set (xi_by_basename ?idx)" for k
  proof -
    from that have "map_of (xi_by_basename ?idx) k \<noteq> None" by (simp add: map_of_eq_None_iff)
    with index_by_basename [of fc ins k] have "claimants fc ins k \<noteq> {}" by (auto simp: records_def)
    then obtain q g where "(q, g) \<in> set ins" "basename_key fc q = Some k" by (auto simp: claimants_def)
    with abs basename_no_slash [OF _ _ fc] show ?thesis by fastforce
  qed
  have "distinct (map fst (to_rows ?idx))"
    using index_distinct [of fc ins] basename_rows_distinct path base
      basename_rows_keys [of "xi_by_basename ?idx"]
    by (simp add: to_rows_def comp_def image_image) blast
  then have "load_exe_rows (replace_exe_index s (to_rows ?idx)) = to_rows ?idx"
    using insert_rows_distinct [of "[]" "to_rows ?idx"] by (simp add: load_exe_rows_def replace_exe_index_def)
  with from_to_rows [OF index_distinct] show ?thesis by simp
qed

definition ex_ins :: "(path \<times> uuid) list" where
  "ex_ins = [([RootDir, Normal ''a'', Normal ''game''], 1), ([RootDir, Normal ''b'', Normal ''game''], 2),
             ([RootDir, Normal ''b'', Normal ''tool''], 2)]"

theorem exe_index_persists_witness:
  "match_exe id (from_rows (load_exe_rows (replace_exe_index Local_State.init (to_rows (index_of id ex_ins)))))
     [RootDir, Normal ''x'', Normal ''tool''] = Some (2, Basename) \<and>
   match_exe id (index_of id ex_ins) [RootDir, Normal ''x'', Normal ''game''] = None"
proof -
  have "match_exe id (index_of id ex_ins) [RootDir, Normal ''x'', Normal ''tool''] = Some (2, Basename)"
    "match_exe id (index_of id ex_ins) [RootDir, Normal ''x'', Normal ''game''] = None" by code_simp+
  moreover have "\<forall>i \<in> set ex_ins. is_absolute (fst i) \<and> (\<forall>x. Normal x \<in> set (fst i) \<longrightarrow> \<not> starts_with x ''/'')"
    by (auto simp: ex_ins_def is_absolute_def starts_with_def)
  ultimately show ?thesis using exe_index_persists [of id ex_ins] by (metis id_apply)
qed

end
