(* ===== verification/Paths.thy ===== *)
theory Paths
  imports Steam Exe_Index Snapshot
begin

text \<open>
  From a game to its save files: the Ludusavi manifest and its path templates
  (\<open>savr-core/src/manifest.rs\<close>), their resolution on this machine
  (\<open>savr-daemon/src/paths.rs\<close>), and the match of install folders with manifest titles
  (\<open>savr-daemon/src/scan.rs\<close>). A \<open>BTreeMap\<close> is its list of entries in key order. The YAML
  reader and the well-known directories of the current user (\<open>Roots::current\<close>) are not modelled:
  a manifest and the roots are values here.
\<close>

section \<open>The manifest\<close>

record when_clause =
  wh_os :: "string option"
  wh_store :: "string option"

record mf_meta =
  mm_tags :: "string list"
  mm_when :: "when_clause list option"

record manifest_entry =
  me_files :: "(string \<times> mf_meta) list"
  me_install_dir :: "string list"
  me_registry :: "(string \<times> mf_meta) list"
  me_steam :: "32 word option"

type_synonym manifest = "(string \<times> manifest_entry) list"

definition os_hint :: "mf_meta \<Rightarrow> os option" where
  "os_hint m =
     (case mm_when m of Some (w # _) \<Rightarrow> Option.bind (wh_os w) os_parse | _ \<Rightarrow> None)"

definition save_targets :: "manifest_entry \<Rightarrow> save_target list" where
  "save_targets e =
     map (\<lambda>(glob, m). \<lparr>st_glob = glob, st_tags = List.map_filter save_tag_parse (mm_tags m),
                       st_os_hint = os_hint m, st_registry = False\<rparr>) (me_files e) @
     map (\<lambda>(key, m). \<lparr>st_glob = key, st_tags = List.map_filter save_tag_parse (mm_tags m),
                      st_os_hint = Some Windows, st_registry = True\<rparr>) (me_registry e)"

record roots =
  ro_home :: path
  ro_win_app_data :: "path option"
  ro_win_local_app_data :: "path option"
  ro_win_documents :: "path option"
  ro_xdg_data :: "path option"
  ro_xdg_config :: "path option"
  ro_os_user_name :: "string option"
  ro_os :: os

text \<open>\<open>str::replace\<close>: every occurrence, from the left, of a pattern that is not empty.\<close>

function replace_all :: "string \<Rightarrow> string \<Rightarrow> string \<Rightarrow> string" where
  "replace_all [] ph v = []"
| "replace_all (c # cs) ph v =
     (if ph \<noteq> [] \<and> starts_with (c # cs) ph then v @ replace_all (drop (length ph) (c # cs)) ph v
      else c # replace_all cs ph v)"
  by pat_completeness auto

termination by (relation "measure (length \<circ> fst)") (auto simp: drop_Cons' length_greater_0_conv)

definition subs :: "roots \<Rightarrow> path option \<Rightarrow> (string \<times> string option) list" where
  "subs roots base =
     [(''<base>'', map_option path_str base),
      (''<home>'', Some (path_str (ro_home roots))),
      (''<winAppData>'', map_option path_str (ro_win_app_data roots)),
      (''<winLocalAppData>'', map_option path_str (ro_win_local_app_data roots)),
      (''<winDocuments>'', map_option path_str (ro_win_documents roots)),
      (''<xdgData>'', map_option path_str (ro_xdg_data roots)),
      (''<xdgConfig>'', map_option path_str (ro_xdg_config roots)),
      (''<osUserName>'', ro_os_user_name roots)]"

fun substitute :: "(string \<times> string option) list \<Rightarrow> string \<Rightarrow> string option" where
  "substitute [] out = Some out"
| "substitute ((ph, val) # ss) out =
     (if contains out ph
      then (case val of Some v \<Rightarrow> substitute ss (replace_all out ph v) | None \<Rightarrow> None)
      else substitute ss out)"

definition resolve_placeholders :: "string \<Rightarrow> roots \<Rightarrow> path option \<Rightarrow> string option" where
  "resolve_placeholders tpl roots base =
     (case substitute (subs roots base) tpl of
        None \<Rightarrow> None
      | Some out \<Rightarrow> if contains out ''<'' then None else Some out)"

section \<open>Save locations of a game\<close>

record resolved_game =
  rg_patterns :: "string list"
  rg_registry_keys :: "string list"
  rg_anchor :: path
  rg_excludes :: "string list"

text \<open>\<open>fs\<close> is the file tree, which decides the Proton prefixes and the Steam accounts.\<close>

definition install_dir :: "steam_library list \<Rightarrow> 32 word option \<Rightarrow> path option" where
  "install_dir libs appid =
     Option.bind appid (\<lambda>a.
       case List.map_filter (\<lambda>lib. map_option (install_path lib) (List.find (\<lambda>g. sg_appid g = a) (sl_games lib))) libs of
         [] \<Rightarrow> None | p # _ \<Rightarrow> Some p)"

definition proton_prefix_roots :: "roots \<Rightarrow> path \<Rightarrow> roots" where
  "proton_prefix_roots base drive_c =
     (let user = path_join drive_c [Normal ''users'', Normal ''steamuser''] in
      \<lparr>ro_home = user,
       ro_win_app_data = Some (path_join user [Normal ''AppData'', Normal ''Roaming'']),
       ro_win_local_app_data = Some (path_join user [Normal ''AppData'', Normal ''Local'']),
       ro_win_documents = Some (path_join user [Normal ''Documents'']),
       ro_xdg_data = ro_xdg_data base, ro_xdg_config = ro_xdg_config base,
       ro_os_user_name = Some ''steamuser'', ro_os = Windows\<rparr>)"

definition proton_roots :: "node \<Rightarrow> roots \<Rightarrow> steam_library list \<Rightarrow> 32 word option \<Rightarrow> roots list" where
  "proton_roots fs roots libs appid =
     (case appid of
        None \<Rightarrow> []
      | Some a \<Rightarrow>
          map (proton_prefix_roots roots)
            (filter (\<lambda>p. lookup fs (loc p) \<noteq> None) (map (\<lambda>lib. proton_drive_c lib a) libs)))"

definition push_unique :: "string \<Rightarrow> string list \<Rightarrow> string list" where
  "push_unique s v = (if s \<in> set v then v else v @ [s])"

definition expand_steam_placeholders :: "node \<Rightarrow> string \<Rightarrow> steam_library list \<Rightarrow> string list" where
  "expand_steam_placeholders fs tpl libs =
     (let needs_root = contains tpl ''<root>''; needs_uid = contains tpl ''<storeUserId>'' in
      if \<not> needs_root \<and> \<not> needs_uid then [tpl]
      else
        fold (\<lambda>lib out.
           let root = path_str (sl_path lib) in
           if needs_uid then
             fold (\<lambda>uid out.
                let s = (if needs_root then replace_all tpl ''<root>'' root else tpl)
                in push_unique (replace_all s ''<storeUserId>'' uid) out)
               (steam_account_ids fs (userdata_dir lib)) out
           else push_unique (replace_all tpl ''<root>'' root) out) libs [])"

definition is_glob :: "string \<Rightarrow> bool" where
  "is_glob s = list_ex (\<lambda>c. c \<in> set ''*?[]{}'') s"

definition anchor_candidate :: "string \<Rightarrow> path" where
  "anchor_candidate pattern =
     (let comps = components pattern;
          acc = foldl (\<lambda>acc c. path_join acc [c]) [] (takeWhile (\<lambda>c. \<not> is_glob (as_os_str c)) comps)
      in if list_ex (\<lambda>c. is_glob (as_os_str c)) comps then acc
         else (case path_parent acc of None \<Rightarrow> acc | Some p \<Rightarrow> p))"

fun shared :: "path \<Rightarrow> path \<Rightarrow> path" where
  "shared (a # as) (b # bs) = (if a = b then a # shared as bs else [])"
| "shared _ _ = []"

definition common_ancestor :: "path list \<Rightarrow> path option" where
  "common_ancestor ps =
     (case ps of
        [] \<Rightarrow> None
      | first # rest \<Rightarrow> Some (foldl (\<lambda>acc c. path_join acc [c]) [] (foldl shared first rest)))"

definition compute_anchor :: "string list \<Rightarrow> roots \<Rightarrow> path" where
  "compute_anchor patterns roots =
     (if patterns = [] then ro_home roots
      else (case common_ancestor (map anchor_candidate patterns) of None \<Rightarrow> ro_home roots | Some p \<Rightarrow> p))"

definition templates_of :: "game \<Rightarrow> path_override list \<Rightarrow> string list \<times> string list" where
  "templates_of g overrides =
     (case List.find (\<lambda>ov. po_game_id ov = gm_id g) overrides of
        Some ov \<Rightarrow> (po_globs ov, [])
      | None \<Rightarrow>
          (map st_glob (filter (\<lambda>t. \<not> st_registry t) (gm_save_targets g)),
           fold push_unique (map st_glob (filter st_registry (gm_save_targets g))) []))"

definition push_resolved :: "string option \<Rightarrow> string list \<Rightarrow> string list" where
  "push_resolved r v = (case r of None \<Rightarrow> v | Some s \<Rightarrow> push_unique s v)"

definition resolve_game ::
  "node \<Rightarrow> roots \<Rightarrow> steam_library list \<Rightarrow> game \<Rightarrow> path_override list \<Rightarrow> path option \<Rightarrow> resolved_game" where
  "resolve_game fs roots libs g overrides base_override =
     (let base = (case base_override of Some b \<Rightarrow> Some b | None \<Rightarrow> install_dir libs (gm_steam_appid g));
          proton = proton_roots fs roots libs (gm_steam_appid g);
          (templates, registry_keys) = templates_of g overrides;
          patterns =
            fold (\<lambda>tpl ps.
               fold (\<lambda>pr. push_resolved (resolve_placeholders tpl pr base)) proton
                 (fold (\<lambda>concrete. push_resolved (resolve_placeholders concrete roots base))
                   (expand_steam_placeholders fs tpl libs) ps)) templates []
      in \<lparr>rg_patterns = patterns, rg_registry_keys = registry_keys,
          rg_anchor = compute_anchor patterns roots, rg_excludes = []\<rparr>)"

definition resolve_custom :: "string \<Rightarrow> string list \<Rightarrow> string list \<Rightarrow> resolved_game" where
  "resolve_custom save_root incl excl =
     (let root = trim_end_matches (CHR ''/'') (replace_char (CHR 0x5C) (CHR ''/'') save_root);
          includes = (if incl = [] then [''**/*''] else map (replace_char (CHR 0x5C) (CHR ''/'')) incl)
      in \<lparr>rg_patterns = map (\<lambda>g. root @ ''/'' @ trim_start_matches (CHR ''/'') g) includes,
          rg_registry_keys = [], rg_anchor = components root,
          rg_excludes = map (replace_char (CHR 0x5C) (CHR ''/'')) excl\<rparr>)"

section \<open>Install folders\<close>

datatype folder_match = One string | Ambiguous

definition add_name :: "string \<Rightarrow> string \<Rightarrow> (string \<rightharpoonup> folder_match) \<Rightarrow> (string \<rightharpoonup> folder_match)" where
  "add_name title key ix =
     (if key = '''' then ix
      else case ix key of
             None \<Rightarrow> ix(key \<mapsto> One title)
           | Some (One existing) \<Rightarrow> if existing \<noteq> title then ix(key \<mapsto> Ambiguous) else ix
           | Some Ambiguous \<Rightarrow> ix)"

definition matcher_build :: "manifest \<Rightarrow> (string \<rightharpoonup> folder_match)" where
  "matcher_build mf =
     fold (\<lambda>(title, e) ix.
        fold (\<lambda>dir. add_name title (normalize_title dir)) (me_install_dir e)
          (add_name title (normalize_title title) ix)) mf Map.empty"

definition match_folder :: "(string \<rightharpoonup> folder_match) \<Rightarrow> string \<Rightarrow> string option" where
  "match_folder ix folder =
     (case ix (normalize_title folder) of Some (One title) \<Rightarrow> Some title | _ \<Rightarrow> None)"

definition scan_folder_root :: "node \<Rightarrow> path \<Rightarrow> (string \<times> path) list" where
  "scan_folder_root fs root =
     (case read_dir fs root of
        None \<Rightarrow> []
      | Some es \<Rightarrow>
          map (\<lambda>e. (fst e, path_join root [Normal (fst e)]))
            (filter (\<lambda>e. is_dir (snd e) \<and> utf8_valid (fst e)) es))"

section \<open>Templates are filled simultaneously\<close>

text \<open>A template as literal characters and placeholders, and its text when some placeholders are
  filled.\<close>

datatype seg = Lit char | Ph string

definition seg_text :: "(string \<Rightarrow> string option) \<Rightarrow> seg \<Rightarrow> string" where
  "seg_text filled s = (case s of Lit c \<Rightarrow> [c] | Ph p \<Rightarrow> (case filled p of None \<Rightarrow> p | Some v \<Rightarrow> v))"

definition render :: "(string \<Rightarrow> string option) \<Rightarrow> seg list \<Rightarrow> string" where
  "render filled segs = concat (map (seg_text filled) segs)"

abbreviation lt :: char where "lt \<equiv> CHR ''<''"

text \<open>Placeholders that cannot be confused: each starts with its only \<open><\<close>, none begins another.\<close>

definition placeholders_ok :: "string set \<Rightarrow> bool" where
  "placeholders_ok P =
     (\<forall>p \<in> P. (\<exists>body. p = lt # body \<and> lt \<notin> set body) \<and> (\<forall>q \<in> P. \<forall>r. starts_with (p @ r) q \<longrightarrow> p = q))"

definition plain_segs :: "string set \<Rightarrow> (string \<Rightarrow> string option) \<Rightarrow> seg list \<Rightarrow> bool" where
  "plain_segs P filled segs =
     (Lit lt \<notin> set segs \<and> (\<forall>p. Ph p \<in> set segs \<longrightarrow> p \<in> P) \<and> (\<forall>p v. filled p = Some v \<longrightarrow> lt \<notin> set v))"

declare replace_all.simps(2) [simp del] contains.simps(2) [simp del]

lemma replace_skip: "lt \<notin> set x \<Longrightarrow> replace_all (x @ s) (lt # body) v = x @ replace_all s (lt # body) v"
  by (induction x) (auto simp: replace_all.simps(2) starts_with_def)

lemma contains_skip: "lt \<notin> set x \<Longrightarrow> contains (x @ s) (lt # body) = contains s (lt # body)"
  by (induction x) (auto simp: contains.simps(2) starts_with_def)

lemma replace_here: "replace_all ((lt # body) @ s) (lt # body) v = v @ replace_all s (lt # body) v"
  using starts_with_append [of "lt # body" s] by (simp add: replace_all.simps(2))

lemma replace_other:
  "lt \<notin> set b \<Longrightarrow> \<not> starts_with ((lt # b) @ s) (lt # body) \<Longrightarrow>
   replace_all ((lt # b) @ s) (lt # body) v = (lt # b) @ replace_all s (lt # body) v"
  by (simp add: replace_all.simps(2) replace_skip)

lemma contains_other:
  "lt \<notin> set b \<Longrightarrow> \<not> starts_with ((lt # b) @ s) (lt # body) \<Longrightarrow>
   contains ((lt # b) @ s) (lt # body) = contains s (lt # body)"
  by (simp add: contains.simps(2) contains_skip)

lemma render_Cons [simp]: "render filled (s # segs) = seg_text filled s @ render filled segs"
  by (simp add: render_def)

lemma plain_segs_Cons: "plain_segs P filled (s # segs) \<Longrightarrow> plain_segs P filled segs"
  by (auto simp: plain_segs_def)

lemma replace_render:
  assumes ok: "placeholders_ok P" and ph: "ph \<in> P" "filled ph = None" and segs: "plain_segs P filled segs"
  shows "replace_all (render filled segs) ph v = render (filled(ph \<mapsto> v)) segs \<and>
    (contains (render filled segs) ph \<longleftrightarrow> Ph ph \<in> set segs)"
  using segs
proof (induction segs)
  case Nil
  from ok ph(1) show ?case by (auto simp: render_def placeholders_ok_def)
next
  case (Cons s segs)
  from ok ph(1) obtain body where b: "ph = lt # body" by (auto simp: placeholders_ok_def)
  note IH = Cons.IH [OF plain_segs_Cons [OF Cons.prems]]
  consider c where "s = Lit c" | "s = Ph ph" | p where "s = Ph p" "p \<noteq> ph" by (cases s) auto
  then show ?case
  proof cases
    case 1
    with Cons.prems have "lt \<notin> set [c]" by (auto simp: plain_segs_def)
    from replace_skip [OF this] contains_skip [OF this] IH 1 show ?thesis by (simp add: b seg_text_def)
  next
    case 2
    have "starts_with (ph @ render filled segs) ph" by simp
    then have "contains (ph @ render filled segs) ph" by (simp add: b contains.simps(2))
    with 2 IH ph(2) replace_here [of body "render filled segs" v] show ?thesis by (simp add: b seg_text_def)
  next
    case 3
    show ?thesis
    proof (cases "filled p")
      case (Some w)
      with Cons.prems have "lt \<notin> set w" by (auto simp: plain_segs_def)
      from replace_skip [OF this] contains_skip [OF this] IH 3 Some show ?thesis by (simp add: b seg_text_def)
    next
      case None
      from Cons.prems 3 have "p \<in> P" by (auto simp: plain_segs_def)
      with ok ph(1) 3(2) obtain b' where p: "p = lt # b'" "lt \<notin> set b'" "\<not> starts_with (p @ render filled segs) ph"
        by (fastforce simp: placeholders_ok_def)
      from replace_other [OF p(2)] contains_other [OF p(2)] p(1,3) IH 3 None show ?thesis
        by (simp add: b seg_text_def)
    qed
  qed
qed

lemma render_cong: "(\<And>p. Ph p \<in> set segs \<Longrightarrow> f p = g p) \<Longrightarrow> render f segs = render g segs"
  by (induction segs) (auto simp: render_def seg_text_def split: seg.splits option.splits)

definition fill :: "(string \<Rightarrow> string option) \<Rightarrow> (string \<times> string option) list \<Rightarrow> string \<Rightarrow> string option" where
  "fill filled ss p = (case filled p of Some v \<Rightarrow> Some v | None \<Rightarrow> (case map_of ss p of Some v \<Rightarrow> v | None \<Rightarrow> None))"

lemma substitute_render:
  assumes ok: "placeholders_ok P"
  shows "plain_segs P filled segs \<Longrightarrow> fst ` set ss \<subseteq> P \<Longrightarrow> distinct (map fst ss) \<Longrightarrow>
    \<forall>e \<in> set ss. filled (fst e) = None \<and> (\<forall>v. snd e = Some v \<longrightarrow> lt \<notin> set v) \<Longrightarrow>
    substitute ss (render filled segs) =
      (if \<exists>p. Ph p \<in> set segs \<and> map_of ss p = Some None then None else Some (render (fill filled ss) segs))"
proof (induction ss arbitrary: filled)
  case Nil
  have "fill filled [] = filled" by (auto simp: fill_def fun_eq_iff split: option.split)
  then show ?case by simp
next
  case (Cons e ss)
  obtain ph val where e: "e = (ph, val)" by (cases e)
  with Cons.prems have ph: "ph \<in> P" "filled ph = None" "map_of ss ph = None" by (auto simp: map_of_eq_None_iff)
  note r = replace_render [OF ok ph(1,2) Cons.prems(1)]
  show ?case
  proof (cases "Ph ph \<in> set segs")
    case False
    then have "substitute (e # ss) (render filled segs) = substitute ss (render filled segs)" using r by (simp add: e)
    moreover have "render (fill filled (e # ss)) segs = render (fill filled ss) segs"
      using False by (intro render_cong) (auto simp: e fill_def split: option.split)
    ultimately show ?thesis using Cons.IH [OF Cons.prems(1)] Cons.prems(2-) False by (auto simp: e)
  next
    case True
    show ?thesis
    proof (cases val)
      case None
      with True r show ?thesis by (auto simp: e)
    next
      case (Some v)
      let ?f = "filled(ph \<mapsto> v)"
      have plain: "plain_segs P ?f segs" using Cons.prems(1,4) Some by (auto simp: plain_segs_def e)
      have step: "substitute (e # ss) (render filled segs) = substitute ss (render ?f segs)"
        using True r Some by (simp add: e)
      have f: "fill ?f ss = fill filled (e # ss)" using Some ph(2) by (auto simp: fill_def fun_eq_iff e split: option.split)
      have rest: "\<forall>e' \<in> set ss. ?f (fst e') = None \<and> (\<forall>v. snd e' = Some v \<longrightarrow> lt \<notin> set v)"
        using Cons.prems(3,4) by (auto simp: e)
      have ex: "map_of (e # ss) p = Some None \<longleftrightarrow> map_of ss p = Some None" for p
        using Some ph(3) by (auto simp: e)
      have "fst ` set ss \<subseteq> P" "distinct (map fst ss)" using Cons.prems(2,3) by (auto simp: e)
      from Cons.IH [OF plain this rest] show ?thesis unfolding step f ex .
    qed
  qed
qed

lemma subs_ok: "placeholders_ok (fst ` set (subs roots base))"
  unfolding placeholders_ok_def by (simp add: subs_def starts_with_def)

lemma subs_distinct: "distinct (map fst (subs roots base))"
  by (simp add: subs_def)

lemma contains_lt: "contains s [lt] \<longleftrightarrow> lt \<in> set s"
  by (induction s) (auto simp: contains.simps(2) starts_with_def)

lemma render_no_lt:
  "plain_segs P filled segs \<Longrightarrow> \<forall>p. Ph p \<in> set segs \<longrightarrow> filled p \<noteq> None \<Longrightarrow> lt \<notin> set (render filled segs)"
proof (induction segs)
  case (Cons s segs)
  then have "lt \<notin> set (render filled segs)" by (auto dest: plain_segs_Cons)
  moreover have "lt \<notin> set (seg_text filled s)"
    using Cons.prems by (auto simp: plain_segs_def seg_text_def split: seg.splits option.splits)
  ultimately show ?case by simp
qed (simp add: render_def)

text \<open>C35: a save-path template is filled as if all its placeholders were filled at once. For a
  template of literal text and known placeholders, on a machine whose directories have no \<open><\<close> in
  their names, \<open>resolve_placeholders\<close> fails exactly when a placeholder of the template has no value here, and
  otherwise returns the text with every placeholder replaced by its value; the order in which
  the code replaces them, and what an earlier value contains, do not matter.\<close>

theorem resolve_template:
  assumes lits: "Lit lt \<notin> set segs" and known: "\<forall>p. Ph p \<in> set segs \<longrightarrow> p \<in> fst ` set (subs roots base)"
    and vals: "\<forall>p v. (p, Some v) \<in> set (subs roots base) \<longrightarrow> lt \<notin> set v"
  shows "resolve_placeholders (render (\<lambda>p. None) segs) roots base =
    (if \<exists>p. Ph p \<in> set segs \<and> map_of (subs roots base) p = Some None then None
     else Some (render (\<lambda>p. case map_of (subs roots base) p of Some v \<Rightarrow> v | None \<Rightarrow> None) segs))"
proof -
  let ?ss = "subs roots base" and ?P = "fst ` set (subs roots base)"
  let ?m = "\<lambda>p. case map_of ?ss p of Some v \<Rightarrow> v | None \<Rightarrow> None"
  have plain: "plain_segs ?P (\<lambda>p. None) segs" using lits known by (simp add: plain_segs_def)
  have f: "fill (\<lambda>p. None) ?ss = ?m" by (simp add: fill_def fun_eq_iff)
  have m: "?m p = Some v \<Longrightarrow> lt \<notin> set v" for p v using vals by (auto split: option.splits dest: map_of_SomeD)
  have sub: "substitute ?ss (render (\<lambda>p. None) segs) =
      (if \<exists>p. Ph p \<in> set segs \<and> map_of ?ss p = Some None then None else Some (render ?m segs))"
    unfolding f [symmetric] by (rule substitute_render [OF subs_ok plain order.refl subs_distinct]) (use vals in auto)
  have "lt \<notin> set (render ?m segs)" if none: "\<nexists>p. Ph p \<in> set segs \<and> map_of ?ss p = Some None"
  proof (rule render_no_lt)
    show "plain_segs ?P ?m segs" using lits known m by (simp add: plain_segs_def)
    show "\<forall>p. Ph p \<in> set segs \<longrightarrow> ?m p \<noteq> None"
    proof (intro allI impI)
      fix p assume p: "Ph p \<in> set segs"
      with known have "map_of ?ss p \<noteq> None" by (simp add: map_of_eq_None_iff)
      then obtain v where "map_of ?ss p = Some v" by blast
      with none p show "?m p \<noteq> None" by (cases v) auto
    qed
  qed
  then show ?thesis by (simp add: resolve_placeholders_def sub contains_lt)
qed

definition ex_roots :: roots where
  "ex_roots =
     \<lparr>ro_home = [RootDir, Normal ''h''], ro_win_app_data = None, ro_win_local_app_data = None,
      ro_win_documents = None, ro_xdg_data = None, ro_xdg_config = Some [RootDir, Normal ''h'', Normal ''c''],
      ro_os_user_name = Some ''me'', ro_os = Linux\<rparr>"

theorem resolve_template_witness:
  "resolve_placeholders ''<xdgConfig>/g/<osUserName>.sav'' ex_roots None = Some ''/h/c/g/me.sav''"
proof -
  let ?segs = "[Ph ''<xdgConfig>'', Lit (CHR ''/''), Lit (CHR ''g''), Lit (CHR ''/''), Ph ''<osUserName>'',
    Lit (CHR ''.''), Lit (CHR ''s''), Lit (CHR ''a''), Lit (CHR ''v'')]"
  have "resolve_placeholders (render (\<lambda>p. None) ?segs) ex_roots None =
    (if \<exists>p. Ph p \<in> set ?segs \<and> map_of (subs ex_roots None) p = Some None then None
     else Some (render (\<lambda>p. case map_of (subs ex_roots None) p of Some v \<Rightarrow> v | None \<Rightarrow> None) ?segs))"
    by (rule resolve_template)
       (auto simp: subs_def ex_roots_def path_str_def is_absolute_def slash_join_def)
  then show ?thesis
    by (simp add: render_def seg_text_def subs_def ex_roots_def path_str_def is_absolute_def slash_join_def)
qed

section \<open>The anchor is above every save\<close>

lemma prefix_shared: "prefix q (shared a b) \<longleftrightarrow> prefix q a \<and> prefix q b"
proof (induction a b arbitrary: q rule: shared.induct)
  case (1 a as b bs)
  then show ?case by (cases q) auto
qed auto

lemma prefix_shared_all: "prefix q (foldl shared a ps) \<longleftrightarrow> prefix q a \<and> (\<forall>p \<in> set ps. prefix q p)"
  by (induction ps arbitrary: a) (auto simp: prefix_shared)

text \<open>Components as \<open>Path::components\<close> yields them: a root or a dot only at the front.\<close>

definition inner :: "component \<Rightarrow> bool" where
  "inner c = (c \<noteq> RootDir \<and> c \<noteq> CurDir)"

definition clean :: "path \<Rightarrow> bool" where
  "clean p = list_all inner (tl p)"

lemma push_all: "list_all inner q \<Longrightarrow> p \<noteq> [] \<Longrightarrow> foldl (\<lambda>acc c. path_join acc [c]) p q = p @ q"
  by (induction q arbitrary: p) (auto simp: inner_def path_join_def is_absolute_def)

lemma push_clean: "clean p \<Longrightarrow> foldl (\<lambda>acc c. path_join acc [c]) [] p = p"
proof (cases p)
  case (Cons c q)
  have "path_join [] [c] = [c]" by (simp add: path_join_def)
  moreover assume "clean p"
  ultimately show ?thesis using push_all [of q "[c]"] Cons by (simp add: clean_def)
qed simp

lemma clean_prefix: "prefix p q \<Longrightarrow> clean q \<Longrightarrow> clean p"
  by (cases p; cases q) (auto simp: clean_def list_all_iff dest: set_mono_prefix)

lemma parts_inner: "list_all inner (concat (map part_component parts))"
  by (induction parts) (auto simp: inner_def)

lemma components_clean: "clean (components s)"
proof -
  have tl: "list_all inner (tl xs)" if "list_all inner xs" for xs using that by (cases xs) auto
  have "list_all inner (tl (concat (map part_component parts)))" for parts
    by (rule tl [OF parts_inner])
  then show ?thesis using parts_inner by (auto simp: components_def Let_def clean_def)
qed

text \<open>The part of a pattern before its first wildcard.\<close>

definition fixed_part :: "string \<Rightarrow> path" where
  "fixed_part pat = takeWhile (\<lambda>c. \<not> is_glob (as_os_str c)) (components pat)"

lemma fixed_part_prefix: "prefix (fixed_part pat) (components pat)"
  by (simp add: fixed_part_def takeWhile_is_prefix)

lemma anchor_candidate_prefix: "prefix (anchor_candidate pat) (fixed_part pat)"
proof -
  have "foldl (\<lambda>acc c. path_join acc [c]) [] (fixed_part pat) = fixed_part pat"
    by (intro push_clean clean_prefix [OF fixed_part_prefix components_clean])
  then show ?thesis
    by (auto simp: anchor_candidate_def Let_def fixed_part_def path_parent_def prefixeq_butlast split: option.split)
qed

lemma compute_anchor_greatest:
  assumes "pats \<noteq> []"
  shows "prefix q (compute_anchor pats roots) \<longleftrightarrow> (\<forall>pat \<in> set pats. prefix q (anchor_candidate pat))"
proof -
  obtain p ps where pats: "pats = p # ps" using assms by (cases pats) auto
  let ?a = "foldl shared (anchor_candidate p) (map anchor_candidate ps)"
  have "prefix ?a (anchor_candidate p)" using prefix_shared_all by blast
  then have "clean ?a"
    using clean_prefix components_clean anchor_candidate_prefix fixed_part_prefix by metis
  then have "compute_anchor pats roots = ?a"
    by (simp add: compute_anchor_def common_ancestor_def pats push_clean)
  then show ?thesis by (simp add: prefix_shared_all pats)
qed

lemma anchor_candidate_root:
  assumes "is_absolute (components pat)"
  shows "prefix [RootDir] (anchor_candidate pat)"
proof -
  from assms obtain q where c: "components pat = RootDir # q" by (cases "components pat") (auto simp: is_absolute_def)
  then have f: "fixed_part pat = RootDir # takeWhile (\<lambda>c. \<not> is_glob (as_os_str c)) q"
    by (simp add: fixed_part_def is_glob_def)
  have "foldl (\<lambda>acc c. path_join acc [c]) [] (fixed_part pat) = fixed_part pat"
    by (intro push_clean clean_prefix [OF fixed_part_prefix components_clean])
  with f show ?thesis
    by (auto simp: anchor_candidate_def Let_def fixed_part_def [symmetric] path_parent_def split: option.split)
qed

text \<open>What the glob library promises: a match begins with the part of the pattern that has no
  wildcard, and goes on with plain names.\<close>

definition glob_spec :: "(node \<Rightarrow> string \<Rightarrow> string + path list) \<Rightarrow> bool" where
  "glob_spec glob =
     (\<forall>fs pat ps p. glob fs pat = Inr ps \<longrightarrow> p \<in> set ps \<longrightarrow> (\<exists>q. p = fixed_part pat @ map Normal q))"

text \<open>The anchor is a directory above every save of the game, and the deepest one that all its
  patterns share. So each file that a pattern matches is recorded with a path relative to the
  anchor, which is what makes a snapshot of one machine comparable with that of another and lets
  a restore put the file back below the anchor of this machine.\<close>

theorem anchor_covers:
  assumes pats: "pats \<noteq> []" "\<forall>pat \<in> set pats. is_absolute (components pat) \<and> ParentDir \<notin> set (components pat)"
    and glob: "glob_spec glob"
  shows "under_anchor glob fs pats (compute_anchor pats roots) \<and>
    (\<forall>q. (\<forall>pat \<in> set pats. prefix q (anchor_candidate pat)) \<longrightarrow> prefix q (compute_anchor pats roots))"
proof
  show "\<forall>q. (\<forall>pat \<in> set pats. prefix q (anchor_candidate pat)) \<longrightarrow> prefix q (compute_anchor pats roots)"
    using compute_anchor_greatest [OF pats(1)] by blast
  let ?a = "compute_anchor pats roots"
  have "\<exists>q0. p = ?a @ map Normal q0" if "p \<in> set (matched glob fs pats)" for p
  proof -
    from that obtain pat where "pat \<in> set pats" "p \<in> set (case glob fs pat of Inl _ \<Rightarrow> [] | Inr ps \<Rightarrow> ps)"
      by (auto simp: matched_def)
    then obtain ps where pat: "pat \<in> set pats" "glob fs pat = Inr ps" "p \<in> set ps"
      by (cases "glob fs pat") auto
    with glob obtain q where q: "p = fixed_part pat @ map Normal q" unfolding glob_spec_def by blast
    have "prefix ?a (anchor_candidate pat)" using compute_anchor_greatest [OF pats(1), of ?a roots] pat(1) by simp
    with anchor_candidate_prefix obtain r where r: "fixed_part pat = ?a @ r" by (metis prefixE prefix_order.trans)
    have "prefix [RootDir] ?a" using compute_anchor_greatest [OF pats(1)] anchor_candidate_root pats(2) by blast
    then obtain a' where a': "?a = RootDir # a'" by (auto simp: prefix_def)
    have "list_all inner r"
      using clean_prefix [OF fixed_part_prefix components_clean, of pat] r a' by (auto simp: clean_def)
    moreover have "ParentDir \<notin> set r" using pats(2) pat(1) r set_mono_prefix [OF fixed_part_prefix, of pat] by auto
    ultimately have "\<forall>c \<in> set r. \<exists>x. c = Normal x" unfolding list_all_iff inner_def by (metis component.exhaust)
    then obtain names where "r = map Normal names" using ex_map_conv by metis
    with q r show ?thesis by (metis append.assoc map_append)
  qed
  then show "under_anchor glob fs pats ?a" by (auto simp: under_anchor_def)
qed

theorem anchor_covers_witness:
  "under_anchor (\<lambda>fs pat. Inr [fixed_part pat @ [Normal ''x'']]) (Dir []) [''/g/saves/*'', ''/g/settings.json''] [RootDir, Normal ''g'']"
proof -
  have "compute_anchor [''/g/saves/*'', ''/g/settings.json''] ex_roots = [RootDir, Normal ''g'']" by code_simp
  moreover have "\<forall>pat \<in> set [''/g/saves/*'', ''/g/settings.json''].
      is_absolute (components pat) \<and> ParentDir \<notin> set (components pat)" by code_simp
  moreover have "glob_spec (\<lambda>fs pat. Inr [fixed_part pat @ [Normal ''x'']])"
    by (auto simp: glob_spec_def intro: exI [of _ "[''x'']"])
  ultimately show ?thesis
    using anchor_covers [of "[''/g/saves/*'', ''/g/settings.json'']" "\<lambda>fs pat. Inr [fixed_part pat @ [Normal ''x'']]" "Dir []" ex_roots]
    by simp
qed

section \<open>Install folders match one title or none\<close>

definition titles_for :: "(string \<times> string) list \<Rightarrow> string \<Rightarrow> string set" where
  "titles_for ns key = {t. (t, key) \<in> set ns}"

definition names_of :: "manifest \<Rightarrow> (string \<times> string) list" where
  "names_of mf =
     concat (map (\<lambda>(t, e). (t, normalize_title t) # map (\<lambda>d. (t, normalize_title d)) (me_install_dir e)) mf)"

definition agrees :: "folder_match option \<Rightarrow> string set \<Rightarrow> bool" where
  "agrees m T =
     (case m of None \<Rightarrow> T = {} | Some (One t) \<Rightarrow> T = {t} | Some Ambiguous \<Rightarrow> (\<exists>t u. t \<noteq> u \<and> {t, u} \<subseteq> T))"

lemma agrees_One: "agrees m T \<Longrightarrow> m = Some (One t) \<longleftrightarrow> T = {t}"
  by (auto simp: agrees_def split: option.splits folder_match.splits)

lemma matcher_build_names: "matcher_build mf = fold (\<lambda>(t, k). add_name t k) (names_of mf) Map.empty"
proof -
  have dirs: "fold (\<lambda>dir. add_name t (normalize_title dir)) ds ix =
      fold (\<lambda>(t, k). add_name t k) (map (\<lambda>d. (t, normalize_title d)) ds) ix" for t ds ix
    by (induction ds arbitrary: ix) simp_all
  have "fold (\<lambda>(title, e) ix. fold (\<lambda>dir. add_name title (normalize_title dir)) (me_install_dir e)
          (add_name title (normalize_title title) ix)) mf ix =
      fold (\<lambda>(t, k). add_name t k) (names_of mf) ix" for ix
    by (induction mf arbitrary: ix) (simp_all add: names_of_def dirs split_beta)
  then show ?thesis by (simp add: matcher_build_def)
qed

lemma add_names_agree:
  "key \<noteq> '''' \<Longrightarrow> agrees (fold (\<lambda>(t, k). add_name t k) ns Map.empty key) (titles_for ns key)"
proof (induction ns rule: rev_induct)
  case (snoc n ns)
  obtain t k where n: "n = (t, k)" by (cases n)
  let ?ix = "fold (\<lambda>(t, k). add_name t k) ns Map.empty"
  have titles: "titles_for (ns @ [n]) key = (if k = key then insert t (titles_for ns key) else titles_for ns key)"
    by (auto simp: titles_for_def n)
  show ?case
  proof (cases "k = key")
    case True
    with snoc titles show ?thesis
      by (auto simp: n agrees_def add_name_def split: option.splits folder_match.splits)
  next
    case False
    then have "add_name t k ?ix key = ?ix key" by (simp add: add_name_def split: option.split folder_match.split)
    with snoc titles False show ?thesis by (simp add: n)
  qed
qed (simp add: agrees_def titles_for_def)

lemma add_names_empty: "fold (\<lambda>(t, k). add_name t k) ns Map.empty '''' = None"
proof (induction ns rule: rev_induct)
  case (snoc n ns)
  then show ?case by (cases n) (simp add: add_name_def split: option.split folder_match.split)
qed simp

text \<open>An install folder is matched with a manifest title exactly when it is unambiguous. The
  folder has letters or digits in its name, and among all titles and install directories of the
  manifest those that agree with it up to case, blanks and punctuation belong to one title only.\<close>

theorem match_folder_exact:
  "match_folder (matcher_build mf) folder = Some title \<longleftrightarrow>
     normalize_title folder \<noteq> '''' \<and>
     {t. \<exists>e. (t, e) \<in> set mf \<and>
        (normalize_title t = normalize_title folder \<or>
         normalize_title folder \<in> normalize_title ` set (me_install_dir e))} = {title}"
proof -
  let ?k = "normalize_title folder"
  have T: "{t. \<exists>e. (t, e) \<in> set mf \<and> (normalize_title t = ?k \<or> ?k \<in> normalize_title ` set (me_install_dir e))} =
      titles_for (names_of mf) ?k"
    by (force simp: titles_for_def names_of_def)
  have "match_folder (matcher_build mf) folder = Some title \<longleftrightarrow>
      fold (\<lambda>(t, k). add_name t k) (names_of mf) Map.empty ?k = Some (One title)"
    by (simp add: match_folder_def matcher_build_names split: option.split folder_match.split)
  also have "\<dots> \<longleftrightarrow> ?k \<noteq> '''' \<and> titles_for (names_of mf) ?k = {title}"
    using agrees_One [OF add_names_agree] add_names_empty [of "names_of mf"] by (metis option.distinct(1))
  finally show ?thesis unfolding T .
qed

end
