(* ===== verification/Catalog.thy ===== *)
theory Catalog
  imports Paths Restore
begin

text \<open>
  The configuration of the daemon (\<open>savr-daemon/src/config.rs\<close>) and its catalog of games
  (\<open>Engine::refresh_games\<close> and \<open>Engine::game_id_for\<close> in \<open>savr-daemon/src/engine.rs\<close>): Steam games
  first, then manifest games found under folder roots, then hand-registered ones, each with a
  stable identifier and its executables indexed. What the process environment, the file formats
  and the random source supply is an argument.
\<close>

section \<open>Configuration\<close>

record game_override =
  go_globs :: "string list"
  go_conflict_policy :: "conflict_policy option"
  go_autopull :: "autopull_policy option"
  go_ignore :: bool

record daemon_config =
  dc_server_url :: string
  dc_poll_interval_ms :: "64 word"
  dc_poll_idle_interval_ms :: "64 word"
  dc_settle_ms :: "64 word"
  dc_autopull :: autopull_policy
  dc_conflict_policy :: conflict_policy
  dc_full_every :: "32 word"
  dc_manifest_dir :: "path option"
  dc_games :: "(string \<times> game_override) list"

definition daemon_config_default :: daemon_config where
  "daemon_config_default =
     \<lparr>dc_server_url = ''http://localhost:8080'', dc_poll_interval_ms = 3000, dc_poll_idle_interval_ms = 12000,
      dc_settle_ms = 5000, dc_autopull = Ask, dc_conflict_policy = Manual, dc_full_every = 10,
      dc_manifest_dir = None, dc_games = []\<rparr>"

text \<open>\<open>str::parse::<u64>\<close>; \<open>var\<close> reads an environment variable.\<close>

definition parse_u64 :: "string \<Rightarrow> 64 word option" where
  "parse_u64 s =
     (let ds = (case s of c # cs \<Rightarrow> if c = CHR ''+'' then cs else s | [] \<Rightarrow> [])
      in if ds = [] then None
         else case parse_digits 0 ds of
                None \<Rightarrow> None
              | Some v \<Rightarrow> if int v < 18446744073709551616 then Some (of_nat v) else None)"

definition env_parse :: "(string \<Rightarrow> string option) \<Rightarrow> string \<Rightarrow> 64 word option" where
  "env_parse var key = Option.bind (var key) parse_u64"

definition apply_env :: "(string \<Rightarrow> string option) \<Rightarrow> daemon_config \<Rightarrow> daemon_config" where
  "apply_env var c =
     (let c1 = (case var ''SAVR_SERVER_URL'' of None \<Rightarrow> c | Some v \<Rightarrow> c\<lparr>dc_server_url := v\<rparr>);
          c2 = (case env_parse var ''SAVR_POLL_INTERVAL_MS'' of None \<Rightarrow> c1 | Some v \<Rightarrow> c1\<lparr>dc_poll_interval_ms := v\<rparr>);
          c3 = (case env_parse var ''SAVR_POLL_IDLE_INTERVAL_MS'' of None \<Rightarrow> c2 | Some v \<Rightarrow> c2\<lparr>dc_poll_idle_interval_ms := v\<rparr>);
          c4 = (case env_parse var ''SAVR_SETTLE_MS'' of None \<Rightarrow> c3 | Some v \<Rightarrow> c3\<lparr>dc_settle_ms := v\<rparr>)
      in case var ''SAVR_MANIFEST_DIR'' of None \<Rightarrow> c4 | Some v \<Rightarrow> c4\<lparr>dc_manifest_dir := Some (components v)\<rparr>)"

definition load ::
  "(string \<Rightarrow> string + daemon_config) \<Rightarrow> (string \<Rightarrow> string option) \<Rightarrow> node \<Rightarrow> path \<Rightarrow> string + daemon_config" where
  "load toml var fs p =
     (case read_file fs (loc p) of
        Inl NotFound \<Rightarrow> Inr (apply_env var daemon_config_default)
      | Inl _ \<Rightarrow> Inl ''I/O error''
      | Inr _ \<Rightarrow>
          (case read_to_string fs p of
             None \<Rightarrow> Inl ''stream did not contain valid UTF-8''
           | Some txt \<Rightarrow> bind_res (toml txt) (\<lambda>c. Inr (apply_env var c))))"

definition manifest_dir :: "path \<Rightarrow> daemon_config \<Rightarrow> path" where
  "manifest_dir data_root c =
     (case dc_manifest_dir c of Some p \<Rightarrow> p | None \<Rightarrow> path_join data_root [Normal ''manifests''])"

definition conflict_policy_for :: "daemon_config \<Rightarrow> string \<Rightarrow> conflict_policy" where
  "conflict_policy_for c key =
     (case Option.bind (map_of (dc_games c) key) go_conflict_policy of
        Some p \<Rightarrow> p | None \<Rightarrow> dc_conflict_policy c)"

section \<open>Identifiers of games\<close>

record 'n host =
  ho_env :: "'n env"
  ho_fold :: "string \<Rightarrow> string"
  ho_roots :: roots
  ho_os :: os
  ho_uuid_parse :: "string \<Rightarrow> uuid option"
  ho_config_print :: "synced_config \<Rightarrow> string"
  ho_config_parse :: "string \<Rightarrow> string + synced_config"
  ho_time_parse :: "string \<Rightarrow> string + time"
  ho_store_secret :: "credentials \<Rightarrow> string + unit"
  ho_display :: "daemon_error \<Rightarrow> string"

definition game_id_key :: "32 word option \<Rightarrow> string \<Rightarrow> string" where
  "game_id_key appid title =
     (case appid of
        Some a \<Rightarrow> ''gameid:steam:'' @ show_u32 a
      | None \<Rightarrow> ''gameid:name:'' @ normalize_title title)"

text \<open>\<open>mint key\<close> is the identifier drawn when the key has none yet. Reading the local database does
  not fail here, so a minted identifier is always stored.\<close>

definition local_game_id :: "'n host \<Rightarrow> (string \<Rightarrow> uuid) \<Rightarrow> string \<Rightarrow> 'n daemon \<Rightarrow> 'n daemon \<times> uuid" where
  "local_game_id h mint key d =
     (case Option.bind (get_meta (dm_state d) key) (ho_uuid_parse h) of
        Some i \<Rightarrow> (d, i)
      | None \<Rightarrow>
          (d\<lparr>dm_state := set_meta (dm_state d) key (e_show_uuid (ho_env h) (mint key))\<rparr>, mint key))"

definition game_id_for ::
  "'n host \<Rightarrow> (string \<Rightarrow> uuid) \<Rightarrow> 32 word option \<Rightarrow> string \<Rightarrow> bool \<Rightarrow> 'n daemon \<Rightarrow> 'n daemon \<times> uuid" where
  "game_id_for h mint appid title authed d =
     (let key = game_id_key appid title;
          cached = Option.bind (get_meta (dm_state d) key) (ho_uuid_parse h)
      in if authed then
           (case ensure_game_call (e_http (ho_env h)) (dm_client d) (dm_net d) title appid of
              ((c, n), Inr ensured) \<Rightarrow>
                (let d1 = d\<lparr>dm_client := c, dm_net := n\<rparr>; i = en_id ensured
                 in (if cached \<noteq> Some i
                     then d1\<lparr>dm_state := set_meta (dm_state d1) key (e_show_uuid (ho_env h) i)\<rparr> else d1, i))
            | ((c, n), Inl err) \<Rightarrow> local_game_id h mint key (d\<lparr>dm_client := c, dm_net := n\<rparr>))
         else local_game_id h mint key d)"

section \<open>The catalog\<close>

record game_entry =
  ge_game :: game
  ge_resolved :: resolved_game

definition backup_job_of :: "game_entry \<Rightarrow> backup_job" where
  "backup_job_of e =
     \<lparr>bj_game_id = gm_id (ge_game e), bj_patterns = rg_patterns (ge_resolved e), bj_anchor = rg_anchor (ge_resolved e),
      bj_registry_keys = rg_registry_keys (ge_resolved e), bj_excludes = rg_excludes (ge_resolved e)\<rparr>"

record 'n catalog =
  ca_daemon :: "'n daemon"
  ca_games :: "(uuid \<times> game_entry) list"
  ca_index :: exe_index
  ca_seen :: "string list"

definition ignored :: "daemon_config \<Rightarrow> string \<Rightarrow> bool" where
  "ignored cfg title = (case map_of (dc_games cfg) title of Some g \<Rightarrow> go_ignore g | None \<Rightarrow> False)"

definition new_game :: "uuid \<Rightarrow> string \<Rightarrow> game_source \<Rightarrow> 32 word option \<Rightarrow> save_target list \<Rightarrow> game" where
  "new_game i title source appid targets =
     \<lparr>gm_id = i, gm_title = title, gm_source = source, gm_steam_appid = appid, gm_save_targets = targets,
      gm_running = False, gm_last_played = None, gm_last_session_secs = None, gm_total_secs = 0\<rparr>"

definition by_appid :: "manifest \<Rightarrow> 32 word \<Rightarrow> (string \<times> manifest_entry) option" where
  "by_appid mf = map_of (rev (List.map_filter (\<lambda>(t, e). map_option (\<lambda>a. (a, (t, e))) (me_steam e)) mf))"

definition put_game :: "uuid \<Rightarrow> game_entry \<Rightarrow> 'n catalog \<Rightarrow> 'n catalog" where
  "put_game i e cat = cat\<lparr>ca_games := AList.update i e (ca_games cat)\<rparr>"

definition add_steam_game ::
  "'n host \<Rightarrow> (string \<Rightarrow> uuid) \<Rightarrow> daemon_config \<Rightarrow> manifest \<Rightarrow> steam_library list \<Rightarrow> path_override list \<Rightarrow> bool \<Rightarrow>
   steam_library \<Rightarrow> steam_game \<Rightarrow> 'n catalog \<Rightarrow> 'n catalog" where
  "add_steam_game h mint cfg mf libs overrides authed lib sg cat =
     (let manifest_match = by_appid mf (sg_appid sg);
          title = (case manifest_match of Some (t, _) \<Rightarrow> t | None \<Rightarrow> sg_name sg)
      in if ignored cfg title then cat
         else
           (let (d, i) = game_id_for h mint (Some (sg_appid sg)) title authed (ca_daemon cat);
                (source, targets) =
                  (case manifest_match of Some (_, e) \<Rightarrow> (Manifest, save_targets e) | None \<Rightarrow> (game_source.Steam, []));
                g = new_game i title source (Some (sg_appid sg)) targets;
                resolved = resolve_game (dm_fs d) (ho_roots h) libs g overrides None
            in put_game i \<lparr>ge_game = g, ge_resolved = resolved\<rparr>
                 (cat\<lparr>ca_daemon := d,
                      ca_index := index_install_dir (ho_fold h) (dm_fs d) (install_path lib sg) i (ca_index cat)\<rparr>)))"

definition add_drive_game ::
  "'n host \<Rightarrow> (string \<Rightarrow> uuid) \<Rightarrow> daemon_config \<Rightarrow> manifest \<Rightarrow> steam_library list \<Rightarrow> path_override list \<Rightarrow> bool \<Rightarrow>
   string \<times> path \<Rightarrow> 'n catalog \<Rightarrow> 'n catalog" where
  "add_drive_game h mint cfg mf libs overrides authed folder cat =
     (case match_folder (matcher_build mf) (fst folder) of
        None \<Rightarrow> cat
      | Some title \<Rightarrow>
          (let norm = normalize_title title in
           if norm \<in> set (ca_seen cat) then cat
           else
             (case map_of mf title of
                None \<Rightarrow> cat
              | Some e \<Rightarrow>
                  if ignored cfg title then cat
                  else
                    (let (d, i) = game_id_for h mint None title authed (ca_daemon cat);
                         g = new_game i title Manifest None (save_targets e);
                         resolved = resolve_game (dm_fs d) (ho_roots h) libs g overrides (Some (snd folder))
                     in put_game i \<lparr>ge_game = g, ge_resolved = resolved\<rparr>
                          (cat\<lparr>ca_daemon := d, ca_seen := norm # ca_seen cat,
                               ca_index := index_install_dir (ho_fold h) (dm_fs d) (snd folder) i (ca_index cat)\<rparr>)))))"

definition path_is_dir :: "node \<Rightarrow> path \<Rightarrow> bool" where
  "path_is_dir fs p = (case lookup fs (loc p) of Some n \<Rightarrow> is_dir n | None \<Rightarrow> False)"

definition index_custom :: "'n host \<Rightarrow> node \<Rightarrow> uuid \<Rightarrow> string \<Rightarrow> exe_index \<Rightarrow> exe_index" where
  "index_custom h fs i install idx =
     (let p = components install in
      if path_is_dir fs p then index_install_dir (ho_fold h) fs p i idx
      else
        (let idx1 = insert_exe (ho_fold h) p i idx
         in case path_parent p of
              Some parent \<Rightarrow> if path_is_dir fs parent then index_install_dir (ho_fold h) fs parent i idx1 else idx1
            | None \<Rightarrow> idx1))"

definition add_custom_entry :: "'n host \<Rightarrow> (string \<Rightarrow> uuid) \<Rightarrow> bool \<Rightarrow> custom_game \<Rightarrow> 'n catalog \<Rightarrow> 'n catalog" where
  "add_custom_entry h mint authed cg cat =
     (let norm = normalize_title (cg_title cg) in
      if norm \<in> set (ca_seen cat) then cat
      else
        (let (d, i) = game_id_for h mint None (cg_title cg) authed (ca_daemon cat);
             g = new_game i (cg_title cg) Custom None [];
             resolved = resolve_custom (cg_save_root cg) (cg_include cg) (cg_exclude cg)
         in put_game i \<lparr>ge_game = g, ge_resolved = resolved\<rparr>
              (cat\<lparr>ca_daemon := d, ca_seen := norm # ca_seen cat,
                   ca_index := (case cg_install_path cg of
                                  None \<Rightarrow> ca_index cat
                                | Some p \<Rightarrow> index_custom h (dm_fs d) i p (ca_index cat))\<rparr>)))"

definition discover_steam_libraries :: "'n daemon \<Rightarrow> steam_library list" where
  "discover_steam_libraries d =
     concat (map (\<lambda>r. discover_libraries (dm_fs d) (components (rt_path r)))
       (filter (\<lambda>r. rt_kind r = SteamRoot) (list_roots (dm_state d))))"

definition build_catalog ::
  "'n host \<Rightarrow> (string \<Rightarrow> uuid) \<Rightarrow> daemon_config \<Rightarrow> manifest \<Rightarrow> bool \<Rightarrow> 'n daemon \<Rightarrow> string + 'n catalog" where
  "build_catalog h mint cfg mf enrich_ids d =
     bind_res (synced_config_of (ho_config_parse h) (dm_state d)) (\<lambda>synced.
     let libs = discover_steam_libraries d;
         overrides = (case synced of Some c \<Rightarrow> sc_overrides c | None \<Rightarrow> []);
         authed = (enrich_ids \<and> is_authenticated (dm_client d));
         cat0 = \<lparr>ca_daemon = d, ca_games = [], ca_index = exe_index_new, ca_seen = []\<rparr>;
         cat1 = fold (\<lambda>lib. fold (add_steam_game h mint cfg mf libs overrides authed lib) (sl_games lib)) libs cat0;
         cat2 = cat1\<lparr>ca_seen := map (\<lambda>e. normalize_title (gm_title (ge_game (snd e)))) (ca_games cat1)\<rparr>;
         cat3 = fold (\<lambda>r. fold (add_drive_game h mint cfg mf libs overrides authed)
                          (scan_folder_root (dm_fs d) (components (rt_path r))))
                  (filter (\<lambda>r. rt_kind r = Drive) (list_roots (dm_state (ca_daemon cat2)))) cat2;
         cat4 = fold (add_custom_entry h mint authed) (list_custom_games (dm_state (ca_daemon cat3))) cat3
     in Inr cat4)"

section \<open>Identifiers are stable\<close>

lemma local_game_id_cached:
  assumes "\<And>u. ho_uuid_parse h (e_show_uuid (ho_env h) u) = Some u"
  shows "Option.bind (get_meta (dm_state (fst (local_game_id h mint key d))) key) (ho_uuid_parse h) =
    Some (snd (local_game_id h mint key d))"
  using assms by (auto simp: local_game_id_def kv.get_put split: option.splits)


section \<open>The catalog is consistent\<close>

definition index_games :: "exe_index \<Rightarrow> uuid set" where
  "index_games idx = snd ` set (xi_by_path idx) \<union> (\<Union>e \<in> set (xi_by_basename idx). set (snd e))"

lemma set_update_subset: "set (AList.update k v xs) \<subseteq> insert (k, v) (set xs)"
  by (induction xs) auto

lemma update_basename_games:
  "(\<Union>e \<in> set (AList.update bn v xs). set (snd e)) \<subseteq> set v \<union> (\<Union>e \<in> set xs. set (snd e))"
proof -
  have "(\<Union>e \<in> set (AList.update bn v xs). set (snd e)) \<subseteq> (\<Union>e \<in> insert (bn, v) (set xs). set (snd e))"
    by (rule UN_mono [OF set_update_subset]) simp
  then show ?thesis by simp
qed

lemma known_basename_games:
  "set (case map_of xs bn of None \<Rightarrow> [] | Some gs \<Rightarrow> gs) \<subseteq> (\<Union>e \<in> set xs. set (snd e))"
  by (cases "map_of xs bn") (auto dest!: map_of_SomeD)

lemma index_games_basename:
  "index_games (idx\<lparr>xi_by_basename := bs\<rparr>) = snd ` set (xi_by_path idx) \<union> (\<Union>e \<in> set bs. set (snd e))"
  by (simp add: index_games_def)

lemma push_basename_games: "index_games (push_basename bn g idx) \<subseteq> insert g (index_games idx)"
proof -
  let ?xs = "xi_by_basename idx"
  let ?gs = "case map_of ?xs bn of None \<Rightarrow> [] | Some gs \<Rightarrow> gs"
  let ?v = "if g \<in> set ?gs then ?gs else ?gs @ [g]"
  have "set ?v \<subseteq> insert g (set ?gs)" by auto
  then have "(\<Union>e \<in> set (AList.update bn ?v ?xs). set (snd e)) \<subseteq> insert g (\<Union>e \<in> set ?xs. set (snd e))"
    using update_basename_games [of bn ?v ?xs] known_basename_games [of ?xs bn] by blast
  moreover have "index_games (push_basename bn g idx) =
      snd ` set (xi_by_path idx) \<union> (\<Union>e \<in> set (AList.update bn ?v ?xs). set (snd e))"
    unfolding push_basename_def Let_def by (rule index_games_basename)
  moreover have "A \<subseteq> insert g I" if "U' \<subseteq> insert g U" "A = P \<union> U'" "I = P \<union> U" for A I P U U' :: "uuid set"
    using that by blast
  ultimately show ?thesis using index_games_def [of idx] by presburger
qed

lemma insert_exe_games: "index_games (insert_exe fc p g idx) \<subseteq> insert g (index_games idx)"
proof -
  let ?idx = "idx\<lparr>xi_by_path := AList.update (exe_key fc p) g (xi_by_path idx)\<rparr>"
  have "index_games ?idx \<subseteq> insert g (index_games idx)"
    using image_mono [OF set_update_subset [of "exe_key fc p" g "xi_by_path idx"], of snd]
    by (auto simp: index_games_def)
  moreover have "index_games (insert_exe fc p g idx) \<subseteq> insert g (index_games ?idx)"
    using push_basename_games [of _ g ?idx] by (auto simp: insert_exe_def Let_def split: option.split)
  ultimately show ?thesis by blast
qed

lemma index_install_games: "index_games (index_install_dir fc fs dir g idx) \<subseteq> insert g (index_games idx)"
proof -
  have "index_games (fold (\<lambda>exe. insert_exe fc exe g) ps idx) \<subseteq> insert g (index_games idx)" for ps
  proof (induction ps arbitrary: idx)
    case (Cons p ps)
    from Cons.IH [of "insert_exe fc p g idx"] insert_exe_games [of fc p g idx] show ?case by auto
  qed auto
  then show ?thesis by (simp add: index_install_dir_def)
qed

lemma index_custom_games: "index_games (index_custom h fs g p idx) \<subseteq> insert g (index_games idx)"
proof -
  have "index_games (index_install_dir (ho_fold h) fs q g idx') \<subseteq> insert g (index_games idx)"
    if "index_games idx' \<subseteq> insert g (index_games idx)" for q idx'
    using index_install_games [of "ho_fold h" fs q g idx'] that by blast
  with insert_exe_games [of "ho_fold h" "components p" g idx] show ?thesis
    by (auto simp: index_custom_def Let_def split: option.split)
qed

lemma match_exe_games: "match_exe fc idx p = Some (g, c) \<Longrightarrow> g \<in> index_games idx"
  by (force simp: match_exe_def index_games_def split: option.splits list.splits dest!: map_of_SomeD)

abbreviation norm_title :: "game_entry \<Rightarrow> string" where
  "norm_title e \<equiv> normalize_title (gm_title (ge_game e))"

text \<open>One entry per identifier; only listed games are indexed; an ignored title is listed only if
  its owner registered it by hand; and a game that is not from Steam has a title that no other
  game has.\<close>

definition catalog_ok :: "daemon_config \<Rightarrow> 'n catalog \<Rightarrow> bool" where
  "catalog_ok cfg cat =
     (distinct (map fst (ca_games cat)) \<and>
      index_games (ca_index cat) \<subseteq> fst ` set (ca_games cat) \<and>
      (\<forall>(i, e) \<in> set (ca_games cat). gm_id (ge_game e) = i \<and>
         (ignored cfg (gm_title (ge_game e)) \<longrightarrow> gm_source (ge_game e) = Custom)) \<and>
      (\<forall>(i, e) \<in> set (ca_games cat). \<forall>(j, e') \<in> set (ca_games cat).
         i \<noteq> j \<longrightarrow> gm_steam_appid (ge_game e) = None \<longrightarrow> norm_title e \<noteq> norm_title e'))"

definition titles_seen :: "'n catalog \<Rightarrow> bool" where
  "titles_seen cat = (\<forall>(i, e) \<in> set (ca_games cat). norm_title e \<in> set (ca_seen cat))"

lemma in_update_distinct:
  "distinct (map fst xs) \<Longrightarrow>
   (j, x) \<in> set (AList.update k v xs) \<longleftrightarrow> j = k \<and> x = v \<or> j \<noteq> k \<and> (j, x) \<in> set xs"
proof -
  assume d: "distinct (map fst xs)"
  then have "distinct (map fst (AList.update k v xs))" by (rule distinct_update)
  then have "(j, x) \<in> set (AList.update k v xs) \<longleftrightarrow> map_of (AList.update k v xs) j = Some x" by simp
  with d show ?thesis by (auto simp: update_conv')
qed

lemma put_game_ok:
  assumes ok: "catalog_ok cfg cat" and g: "gm_id (ge_game e) = i"
    and ign: "ignored cfg (gm_title (ge_game e)) \<Longrightarrow> gm_source (ge_game e) = Custom"
    and idx: "index_games idx \<subseteq> insert i (index_games (ca_index cat))"
    and fresh: "\<forall>(j, e') \<in> set (ca_games cat). j \<noteq> i \<longrightarrow>
      (gm_steam_appid (ge_game e) = None \<or> gm_steam_appid (ge_game e') = None) \<longrightarrow> norm_title e \<noteq> norm_title e'"
    and cat': "ca_games cat' = ca_games cat" "ca_index cat' = idx"
  shows "catalog_ok cfg (put_game i e cat')"
proof -
  let ?gs = "AList.update i e (ca_games cat)"
  from ok have d: "distinct (map fst (ca_games cat))" by (simp add: catalog_ok_def)
  note mem = in_update_distinct [OF d, of _ _ i e]
  have "fst ` set ?gs = insert i (fst ` set (ca_games cat))"
    using AList.dom_update [of i e "ca_games cat"] by simp
  with ok idx have "index_games idx \<subseteq> fst ` set ?gs" by (auto simp: catalog_ok_def)
  moreover have "\<forall>(j, x) \<in> set ?gs. gm_id (ge_game x) = j \<and>
      (ignored cfg (gm_title (ge_game x)) \<longrightarrow> gm_source (ge_game x) = Custom)"
    using ok g ign mem by (auto simp: catalog_ok_def)
  moreover have "norm_title x \<noteq> norm_title y"
    if "(j, x) \<in> set ?gs" "(k, y) \<in> set ?gs" "j \<noteq> k" "gm_steam_appid (ge_game x) = None" for j x k y
    using that ok fresh by (auto simp: mem catalog_ok_def)
  ultimately show ?thesis using d by (auto simp: catalog_ok_def put_game_def cat' distinct_update)
qed


lemma put_game_seen:
  assumes "titles_seen cat" "ca_games cat' = ca_games cat" "set (ca_seen cat) \<subseteq> set (ca_seen cat')"
    and "norm_title e \<in> set (ca_seen cat')"
  shows "titles_seen (put_game i e cat')"
  using assms set_update_subset [of i e "ca_games cat"] by (fastforce simp: titles_seen_def put_game_def)

lemma fresh_title:
  assumes "titles_seen cat" "norm_title e \<notin> set (ca_seen cat)"
  shows "\<forall>(j, e') \<in> set (ca_games cat). j \<noteq> i \<longrightarrow>
      (gm_steam_appid (ge_game e) = None \<or> gm_steam_appid (ge_game e') = None) \<longrightarrow> norm_title e \<noteq> norm_title e'"
  using assms by (auto simp: titles_seen_def)

lemma new_game_simps [simp]:
  "gm_id (new_game i t s a ts) = i" "gm_title (new_game i t s a ts) = t"
  "gm_source (new_game i t s a ts) = s" "gm_steam_appid (new_game i t s a ts) = a"
  by (simp_all add: new_game_def)

definition all_steam :: "'n catalog \<Rightarrow> bool" where
  "all_steam cat = (\<forall>(i, e) \<in> set (ca_games cat). gm_steam_appid (ge_game e) \<noteq> None)"

lemma add_steam_ok:
  assumes "catalog_ok cfg cat \<and> all_steam cat"
  shows "catalog_ok cfg (add_steam_game h mint cfg mf libs ovs authed lib sg cat) \<and>
    all_steam (add_steam_game h mint cfg mf libs ovs authed lib sg cat)"
proof -
  define mm where "mm = by_appid mf (sg_appid sg)"
  define title where "title = (case mm of Some (t, _) \<Rightarrow> t | None \<Rightarrow> sg_name sg)"
  show ?thesis
  proof (cases "ignored cfg title")
    case True
    with assms show ?thesis by (simp add: add_steam_game_def flip: mm_def title_def)
  next
    case False
    obtain d i where di: "game_id_for h mint (Some (sg_appid sg)) title authed (ca_daemon cat) = (d, i)"
      by (metis prod.collapse)
    define st where "st = (case mm of Some (_, e) \<Rightarrow> (Manifest, save_targets e) | None \<Rightarrow> (game_source.Steam, []))"
    define e where "e = \<lparr>ge_game = new_game i title (fst st) (Some (sg_appid sg)) (snd st),
      ge_resolved = resolve_game (dm_fs d) (ho_roots h) libs
        (new_game i title (fst st) (Some (sg_appid sg)) (snd st)) ovs None\<rparr>"
    define cat' where "cat' = cat\<lparr>ca_daemon := d,
      ca_index := index_install_dir (ho_fold h) (dm_fs d) (install_path lib sg) i (ca_index cat)\<rparr>"
    have step: "add_steam_game h mint cfg mf libs ovs authed lib sg cat = put_game i e cat'"
      using False by (simp add: add_steam_game_def di e_def cat'_def split_beta Let_def flip: mm_def title_def st_def)
    have "catalog_ok cfg (put_game i e cat')"
    proof (rule put_game_ok [where cat = cat and idx = "ca_index cat'"])
      show "\<forall>(j, e') \<in> set (ca_games cat). j \<noteq> i \<longrightarrow>
        (gm_steam_appid (ge_game e) = None \<or> gm_steam_appid (ge_game e') = None) \<longrightarrow> norm_title e \<noteq> norm_title e'"
        using assms by (auto simp: all_steam_def e_def)
    qed (use assms False index_install_games in \<open>auto simp: e_def cat'_def\<close>)
    moreover have "all_steam (put_game i e cat')"
      using assms set_update_subset [of i e "ca_games cat"] by (auto simp: all_steam_def put_game_def cat'_def e_def)
    ultimately show ?thesis by (simp add: step)
  qed
qed

lemma add_titled_ok:
  assumes "catalog_ok cfg cat \<and> titles_seen cat" and fresh: "norm_title e \<notin> set (ca_seen cat)"
    and g: "gm_id (ge_game e) = i" "ignored cfg (gm_title (ge_game e)) \<Longrightarrow> gm_source (ge_game e) = Custom"
    and idx: "index_games (ca_index cat') \<subseteq> insert i (index_games (ca_index cat))"
    and cat': "ca_games cat' = ca_games cat" "ca_seen cat' = norm_title e # ca_seen cat"
  shows "catalog_ok cfg (put_game i e cat') \<and> titles_seen (put_game i e cat')"
proof
  show "catalog_ok cfg (put_game i e cat')"
    by (rule put_game_ok [OF _ g idx fresh_title cat'(1) refl]) (use assms in simp_all)
  show "titles_seen (put_game i e cat')"
    by (rule put_game_seen [of cat]) (use assms in auto)
qed

lemma add_drive_ok:
  assumes "catalog_ok cfg cat \<and> titles_seen cat"
  shows "catalog_ok cfg (add_drive_game h mint cfg mf libs ovs authed folder cat) \<and>
    titles_seen (add_drive_game h mint cfg mf libs ovs authed folder cat)"
proof (cases "match_folder (matcher_build mf) (fst folder)")
  case None
  with assms show ?thesis by (simp add: add_drive_game_def)
next
  case (Some title)
  obtain d i where di: "game_id_for h mint None title authed (ca_daemon cat) = (d, i)"
    by (metis prod.collapse)
  show ?thesis
  proof (cases "normalize_title title \<in> set (ca_seen cat) \<or> map_of mf title = None \<or> ignored cfg title")
    case True
    with assms Some show ?thesis by (auto simp: add_drive_game_def Let_def split: option.split)
  next
    case False
    then obtain en where en: "map_of mf title = Some en" by auto
    let ?g = "new_game i title Manifest None (save_targets en)"
    let ?e = "\<lparr>ge_game = ?g, ge_resolved = resolve_game (dm_fs d) (ho_roots h) libs ?g ovs (Some (snd folder))\<rparr>"
    let ?cat = "cat\<lparr>ca_daemon := d, ca_seen := normalize_title title # ca_seen cat,
      ca_index := index_install_dir (ho_fold h) (dm_fs d) (snd folder) i (ca_index cat)\<rparr>"
    have "add_drive_game h mint cfg mf libs ovs authed folder cat = put_game i ?e ?cat"
      using False by (simp add: add_drive_game_def Some en di Let_def)
    moreover have "catalog_ok cfg (put_game i ?e ?cat) \<and> titles_seen (put_game i ?e ?cat)"
      by (rule add_titled_ok [OF assms]) (use False index_install_games in simp_all)
    ultimately show ?thesis by simp
  qed
qed

lemma add_custom_ok:
  assumes "catalog_ok cfg cat \<and> titles_seen cat"
  shows "catalog_ok cfg (add_custom_entry h mint authed cg cat) \<and> titles_seen (add_custom_entry h mint authed cg cat)"
proof (cases "normalize_title (cg_title cg) \<in> set (ca_seen cat)")
  case True
  with assms show ?thesis by (simp add: add_custom_entry_def)
next
  case False
  obtain d i where di: "game_id_for h mint None (cg_title cg) authed (ca_daemon cat) = (d, i)"
    by (metis prod.collapse)
  let ?e = "\<lparr>ge_game = new_game i (cg_title cg) Custom None [],
    ge_resolved = resolve_custom (cg_save_root cg) (cg_include cg) (cg_exclude cg)\<rparr>"
  let ?idx = "case cg_install_path cg of None \<Rightarrow> ca_index cat | Some p \<Rightarrow> index_custom h (dm_fs d) i p (ca_index cat)"
  let ?cat = "cat\<lparr>ca_daemon := d, ca_seen := normalize_title (cg_title cg) # ca_seen cat, ca_index := ?idx\<rparr>"
  have "add_custom_entry h mint authed cg cat = put_game i ?e ?cat"
    using False by (simp add: add_custom_entry_def di Let_def)
  moreover have "index_games ?idx \<subseteq> insert i (index_games (ca_index cat))"
    using index_custom_games [of h "dm_fs d" i _ "ca_index cat"] by (simp add: subset_insertI split: option.split)
  then have "catalog_ok cfg (put_game i ?e ?cat) \<and> titles_seen (put_game i ?e ?cat)"
    by (intro add_titled_ok [OF assms]) (use False in simp_all)
  ultimately show ?thesis by simp
qed

lemma fold_keeps: "(\<And>x s. P s \<Longrightarrow> P (f x s)) \<Longrightarrow> P s \<Longrightarrow> P (fold f xs s)"
  by (induction xs arbitrary: s) auto

text \<open>The three phases of a refresh as one induction: what holds of the catalog while Steam games
  are added, and what holds from then on.\<close>

lemma build_catalog_induct:
  assumes built: "build_catalog h mint cfg mf enrich d = Inr cat"
    and init: "P \<lparr>ca_daemon = d, ca_games = [], ca_index = exe_index_new, ca_seen = []\<rparr>"
    and steam: "\<And>libs ovs authed lib sg c. P c \<Longrightarrow> P (add_steam_game h mint cfg mf libs ovs authed lib sg c)"
    and seen: "\<And>c. P c \<Longrightarrow> Q (c\<lparr>ca_seen := map (\<lambda>e. norm_title (snd e)) (ca_games c)\<rparr>)"
    and drive: "\<And>libs ovs authed folder c. Q c \<Longrightarrow> Q (add_drive_game h mint cfg mf libs ovs authed folder c)"
    and custom: "\<And>authed cg c. Q c \<Longrightarrow> Q (add_custom_entry h mint authed cg c)"
  shows "Q cat"
proof -
  from built obtain synced where sy: "synced_config_of (ho_config_parse h) (dm_state d) = Inr synced"
    by (cases "synced_config_of (ho_config_parse h) (dm_state d)") (simp_all add: build_catalog_def)
  define libs where "libs = discover_steam_libraries d"
  define ovs where "ovs = (case synced of Some c \<Rightarrow> sc_overrides c | None \<Rightarrow> [])"
  define authed where "authed = (enrich \<and> is_authenticated (dm_client d))"
  define cat0 :: "'a catalog" where "cat0 = \<lparr>ca_daemon = d, ca_games = [], ca_index = exe_index_new, ca_seen = []\<rparr>"
  define cat1 where "cat1 = fold (\<lambda>lib. fold (add_steam_game h mint cfg mf libs ovs authed lib) (sl_games lib)) libs cat0"
  define cat2 where "cat2 = cat1\<lparr>ca_seen := map (\<lambda>e. norm_title (snd e)) (ca_games cat1)\<rparr>"
  define cat3 where "cat3 = fold (\<lambda>r. fold (add_drive_game h mint cfg mf libs ovs authed)
                          (scan_folder_root (dm_fs d) (components (rt_path r))))
                  (filter (\<lambda>r. rt_kind r = Drive) (list_roots (dm_state (ca_daemon cat2)))) cat2"
  have cat: "cat = fold (add_custom_entry h mint authed) (list_custom_games (dm_state (ca_daemon cat3))) cat3"
    using built sy unfolding build_catalog_def Let_def cat3_def cat2_def cat1_def cat0_def
      authed_def ovs_def libs_def by simp
  have "P cat0" unfolding cat0_def by (rule init)
  then have "P cat1" unfolding cat1_def by (intro fold_keeps [where P = P] steam)
  then have "Q cat2" unfolding cat2_def by (rule seen)
  then have "Q cat3" unfolding cat3_def by (intro fold_keeps [where P = Q] drive)
  then show ?thesis unfolding cat by (intro fold_keeps [where P = Q] custom)
qed

text \<open>The catalog a refresh builds is consistent. There is one entry per identifier, stored under
  its own identifier; a running executable is only ever attributed to a game that the catalog lists;
  a title that the configuration ignores is listed only if its owner registered it by hand; and two
  entries share a normalized title only if both come from a Steam library, so a game found on Steam
  is not listed again from a folder or a manual registration.\<close>

theorem catalog_consistent:
  assumes built: "build_catalog h mint cfg mf enrich d = Inr cat"
  shows "catalog_ok cfg cat \<and>
    (\<forall>p g c. match_exe (ho_fold h) (ca_index cat) p = Some (g, c) \<longrightarrow> g \<in> fst ` set (ca_games cat))"
proof -
  have "catalog_ok cfg cat \<and> titles_seen cat"
  proof (rule build_catalog_induct [OF built, where P = "\<lambda>c. catalog_ok cfg c \<and> all_steam c"
        and Q = "\<lambda>c. catalog_ok cfg c \<and> titles_seen c"])
    show "catalog_ok cfg (c\<lparr>ca_seen := map (\<lambda>e. norm_title (snd e)) (ca_games c)\<rparr>) \<and>
        titles_seen (c\<lparr>ca_seen := map (\<lambda>e. norm_title (snd e)) (ca_games c)\<rparr>)"
      if "catalog_ok cfg c \<and> all_steam c" for c :: "'a catalog"
      using that by (auto simp: catalog_ok_def titles_seen_def image_iff) force
  qed (rule add_steam_ok add_drive_ok add_custom_ok |
       simp add: catalog_ok_def all_steam_def index_games_def exe_index_new_def)+
  then have ok: "catalog_ok cfg cat" ..
  then have "index_games (ca_index cat) \<subseteq> fst ` set (ca_games cat)" by (simp add: catalog_ok_def)
  with ok match_exe_games show ?thesis by blast
qed

section \<open>Concrete inputs\<close>

text \<open>A machine with one Steam library, holding one installed game, and no server.\<close>

definition ex_uuid_parse :: "string \<Rightarrow> uuid option" where
  "ex_uuid_parse s = map_option of_nat (parse_digits 0 s)"

definition ex_host :: "unit host" where
  "ex_host =
     \<lparr>ho_env = ex_env\<lparr>e_show_uuid := \<lambda>u. show_nat (unat u)\<rparr>, ho_fold = (\<lambda>s. s), ho_roots = ex_roots, ho_os = Linux,
      ho_uuid_parse = ex_uuid_parse, ho_config_print = (\<lambda>c. ''config''), ho_config_parse = (\<lambda>s. Inl ''json''),
      ho_time_parse = (\<lambda>s. Inl ''time''), ho_store_secret = (\<lambda>c. Inr ()),
      ho_display = (\<lambda>e. ''error'')\<rparr>"

definition ex_catalog_fs :: node where
  "ex_catalog_fs =
     Dir [(''steam'', Dir [(''steamapps'',
             Dir [(''libraryfolders.vdf'', File (to_bytes (print_entries [(''libraryfolders'', Obj ex_libs)])) ex_meta)])]),
          (''d'', Dir [(''steamapps'',
             Dir [(''appmanifest_220.acf'', File (to_bytes (print_entries ex_acf)) ex_meta),
                  (''common'', Dir [(''HL2'', Dir [(''hl2.sh'', File [1] (ex_meta\<lparr>fm_mode := 493\<rparr>))])])])])]"

definition ex_cdaemon :: "unit daemon" where
  "ex_cdaemon = ex_daemon\<lparr>dm_fs := ex_catalog_fs,
     dm_state := (dm_state ex_daemon)\<lparr>ls_roots := [\<lparr>rt_id = 1, rt_kind = SteamRoot, rt_path = ''/steam''\<rparr>]\<rparr>\<rparr>"

definition ex_mint :: "string \<Rightarrow> uuid" where
  "ex_mint key = (if key = ''gameid:steam:220'' then 9 else 10)"

definition ex_catalog :: "unit catalog" where
  "ex_catalog =
     (case build_catalog ex_host ex_mint daemon_config_default [] True ex_cdaemon of
        Inr cat \<Rightarrow> cat
      | Inl _ \<Rightarrow> \<lparr>ca_daemon = ex_cdaemon, ca_games = [], ca_index = exe_index_new, ca_seen = []\<rparr>)"

definition ex_exe :: path where
  "ex_exe = [RootDir, Normal ''d'', Normal ''steamapps'', Normal ''common'', Normal ''HL2'', Normal ''hl2.sh'']"

lemma ex_uuids: "ho_uuid_parse ex_host (e_show_uuid (ho_env ex_host) u) = Some u"
  by (simp add: ex_host_def ex_uuid_parse_def parse_show_digits)


lemma ex_catalog_built:
  "build_catalog ex_host ex_mint daemon_config_default [] True ex_cdaemon = Inr ex_catalog"
proof -
  have "\<not> isl (build_catalog ex_host ex_mint daemon_config_default [] True ex_cdaemon)" by code_simp
  then show ?thesis unfolding ex_catalog_def
    by (cases "build_catalog ex_host ex_mint daemon_config_default [] True ex_cdaemon") simp_all
qed

lemma ex_catalog_match: "match_exe (ho_fold ex_host) (ca_index ex_catalog) ex_exe = Some (9, ByPath)"
  by code_simp

theorem catalog_consistent_witness:
  "catalog_ok daemon_config_default ex_catalog \<and> 9 \<in> fst ` set (ca_games ex_catalog)"
  using catalog_consistent [OF ex_catalog_built] ex_catalog_match by blast

end
