(* ===== verification/Engine.thy ===== *)
theory Engine
  imports Catalog
begin

text \<open>
  The engine of the daemon (\<open>savr-daemon/src/engine.rs\<close>): it owns the local database, the server
  client, the catalog of games and the executable index, answers every request of the app, follows
  the detection events and reacts to the pushes of the server. Events sent on the broadcast channel
  are kept as the list of all events so far. A request that needs a restore may not return (the
  search for a chain of versions in a history the server supplies), so the result is an option.
\<close>

section \<open>State\<close>

record conflict_tips =
  ct_mine :: uuid
  ct_theirs :: uuid

record 'n engine =
  ng_config :: daemon_config
  ng_daemon :: "'n daemon"
  ng_secret :: "credentials option"
  ng_events :: "detection_event list"
  ng_exe_index :: exe_index
  ng_manifest :: manifest
  ng_games :: "(uuid \<times> game_entry) list"
  ng_conflicts :: "uuid \<rightharpoonup> conflict_tips"
  ng_running :: "uuid set"
  ng_learn_mode :: "uuid option"
  ng_server_connected :: bool
  ng_device_id :: "uuid option"
  ng_scratch :: path

text \<open>What the operating system and the clock supply to one operation: the time, the identifiers
  drawn, the metadata of the files it creates, the autostart entry, the log and the process
  figures.\<close>

record ambient =
  ab_now :: time
  ab_mint :: "string \<Rightarrow> uuid"
  ab_fresh :: uuid
  ab_meta :: file_meta
  ab_autostart :: bool
  ab_set_autostart :: "bool \<Rightarrow> string + unit"
  ab_logs :: "nat \<Rightarrow> string list"
  ab_uptime_s :: nat
  ab_rss_bytes :: nat
  ab_version :: string

text \<open>\<open>loaded\<close> is what the secret store returns.\<close>

definition engine_new ::
  "'n host \<Rightarrow> daemon_config \<Rightarrow> local_state \<Rightarrow> string + credentials option \<Rightarrow> path \<Rightarrow>
   (blake3_hash \<rightharpoonup> byte list) \<Rightarrow> node \<Rightarrow> 'n \<Rightarrow> string + 'n engine" where
  "engine_new h config state loaded scratch cache fs net =
     bind_res loaded (\<lambda>stored.
       let client = (case stored of
                       None \<Rightarrow> client_new (dc_server_url config)
                     | Some creds \<Rightarrow>
                         set_access_token (set_credentials (client_new (dc_server_url config)) creds)
                           (e_show_uuid (ho_env h) (cd_account_id creds)))
       in Inr \<lparr>ng_config = config,
               ng_daemon = \<lparr>dm_state = state, dm_cache = cache, dm_fs = fs, dm_client = client, dm_net = net\<rparr>,
               ng_secret = stored, ng_events = [], ng_exe_index = exe_index_new, ng_manifest = [], ng_games = [],
               ng_conflicts = Map.empty, ng_running = {}, ng_learn_mode = None, ng_server_connected = False,
               ng_device_id = map_option cd_device_id stored, ng_scratch = scratch\<rparr>)"

definition emit :: "detection_event \<Rightarrow> 'n engine \<Rightarrow> 'n engine" where
  "emit ev ng = ng\<lparr>ng_events := ng_events ng @ [ev]\<rparr>"

definition set_manifest :: "manifest \<Rightarrow> 'n engine \<Rightarrow> 'n engine" where
  "set_manifest mf ng = ng\<lparr>ng_manifest := mf\<rparr>"

definition refresh_games :: "'n host \<Rightarrow> ambient \<Rightarrow> bool \<Rightarrow> 'n engine \<Rightarrow> 'n engine \<times> (string + unit)" where
  "refresh_games h ab enrich_ids ng =
     (case build_catalog h (ab_mint ab) (ng_config ng) (ng_manifest ng) enrich_ids (ng_daemon ng) of
        Inl e \<Rightarrow> (ng, Inl e)
      | Inr cat \<Rightarrow>
          (let d = ca_daemon cat
           in (emit CatalogUpdated
                 (ng\<lparr>ng_games := ca_games cat,
                     ng_daemon := d\<lparr>dm_state := replace_exe_index (dm_state d) (to_rows (ca_index cat))\<rparr>,
                     ng_exe_index := ca_index cat\<rparr>), Inr ())))"

definition err :: "string \<Rightarrow> daemon_msg" where
  "err e = Error e"

definition device_or_nil :: "'n engine \<Rightarrow> uuid" where
  "device_or_nil ng = (case ng_device_id ng of Some i \<Rightarrow> i | None \<Rightarrow> 0)"

section \<open>Requests\<close>

definition listed_game :: "'n engine \<Rightarrow> game \<Rightarrow> game" where
  "listed_game ng g =
     (let g1 = g\<lparr>gm_running := gm_id g \<in> ng_running ng\<rparr>
      in case play_stats (dm_state (ng_daemon ng)) (gm_id g) of
           None \<Rightarrow> g1
         | Some s \<Rightarrow> g1\<lparr>gm_last_played := ps_last_played s, gm_last_session_secs := ps_last_session_secs s,
                       gm_total_secs := ps_total_secs s\<rparr>)"

definition list_games :: "'n engine \<Rightarrow> daemon_msg" where
  "list_games ng = Games (map (\<lambda>e. listed_game ng (ge_game (snd e))) (ng_games ng))"

definition record_conflict :: "uuid \<Rightarrow> uuid option \<Rightarrow> uuid \<Rightarrow> 'n engine \<Rightarrow> 'n engine \<times> daemon_msg" where
  "record_conflict g theirs mine ng =
     (let t = (case theirs of Some i \<Rightarrow> i | None \<Rightarrow> mine)
      in (ng\<lparr>ng_conflicts := (ng_conflicts ng)(g \<mapsto> \<lparr>ct_mine = mine, ct_theirs = t\<rparr>)\<rparr>, ConflictRaised g [t, mine]))"

definition engine_add_root :: "'n host \<Rightarrow> ambient \<Rightarrow> root_spec \<Rightarrow> 'n engine \<Rightarrow> 'n engine \<times> daemon_msg" where
  "engine_add_root h ab spec ng =
     (let d = ng_daemon ng in
      case add_root (dm_state d) (ab_fresh ab) (rsp_kind spec) (rsp_path spec) of
        (s, Inl e) \<Rightarrow> (ng\<lparr>ng_daemon := d\<lparr>dm_state := s\<rparr>\<rparr>, err e)
      | (s, Inr _) \<Rightarrow> (fst (refresh_games h ab True (ng\<lparr>ng_daemon := d\<lparr>dm_state := s\<rparr>\<rparr>)), Ok))"

definition run_backup_for ::
  "'n host \<Rightarrow> ambient \<Rightarrow> game_entry \<Rightarrow> 'n engine \<Rightarrow> 'n engine \<times> (daemon_error + backup_outcome)" where
  "run_backup_for h ab entry ng =
     (let (d, r) = run_backup (ho_env h) True (device_or_nil ng) (dc_full_every (ng_config ng)) (backup_job_of entry)
                     (ab_fresh ab) (ab_now ab) (ng_daemon ng)
      in (ng\<lparr>ng_daemon := d\<rparr>, r))"

definition backup_now :: "'n host \<Rightarrow> ambient \<Rightarrow> uuid \<Rightarrow> 'n engine \<Rightarrow> 'n engine \<times> daemon_msg" where
  "backup_now h ab g ng =
     (case map_of (ng_games ng) g of
        None \<Rightarrow> (ng, Error (''unknown game '' @ e_show_uuid (ho_env h) g))
      | Some entry \<Rightarrow>
          (case run_backup_for h ab entry ng of
             (ng1, Inr (BackupConflicted head incoming)) \<Rightarrow> record_conflict g (map_option v_id head) (v_id incoming) ng1
           | (ng1, Inr _) \<Rightarrow> (ng1, Ok)
           | (ng1, Inl e) \<Rightarrow> (ng1, err (ho_display h e))))"

definition restore :: "'n host \<Rightarrow> ambient \<Rightarrow> uuid \<Rightarrow> uuid \<Rightarrow> 'n engine \<Rightarrow> ('n engine \<times> daemon_msg) option" where
  "restore h ab g version ng =
     (case map_of (ng_games ng) g of
        None \<Rightarrow> Some (ng, Error (''unknown game '' @ e_show_uuid (ho_env h) g))
      | Some entry \<Rightarrow>
          map_option (\<lambda>(d, r). (ng\<lparr>ng_daemon := d\<rparr>, case r of Inr _ \<Rightarrow> Ok | Inl e \<Rightarrow> err (ho_display h e)))
            (run_restore (ho_env h) (device_or_nil ng)
               \<lparr>rq_game_id = g, rq_version_id = version, rq_anchor = rg_anchor (ge_resolved entry),
                rq_patterns = rg_patterns (ge_resolved entry), rq_registry_keys = rg_registry_keys (ge_resolved entry)\<rparr>
               (g \<in> ng_running ng) (ng_scratch ng) (ab_meta ab) (ab_fresh ab) (ab_now ab) (ng_daemon ng)))"

definition engine_resolve_conflict :: "'n host \<Rightarrow> uuid \<Rightarrow> resolve_choice \<Rightarrow> 'n engine \<Rightarrow> 'n engine \<times> daemon_msg" where
  "engine_resolve_conflict h g choice ng =
     (case ng_conflicts ng g of
        None \<Rightarrow> (ng, Error (''no pending conflict for '' @ e_show_uuid (ho_env h) g))
      | Some tips \<Rightarrow>
          (let (winner, keep_both) =
                 (case choice of KeepMine \<Rightarrow> (ct_mine tips, False) | KeepTheirs \<Rightarrow> (ct_theirs tips, False)
                  | KeepBoth \<Rightarrow> (ct_mine tips, True));
               d = ng_daemon ng
           in case resolve_conflict_call (e_http (ho_env h)) (dm_client d) (dm_net d) g
                     \<lparr>rs_winner = winner, rs_keep_both = keep_both\<rparr> of
                ((c, n), Inr _) \<Rightarrow>
                  (ng\<lparr>ng_daemon := d\<lparr>dm_client := c, dm_net := n\<rparr>, ng_conflicts := (ng_conflicts ng)(g := None)\<rparr>, Ok)
              | ((c, n), Inl e) \<Rightarrow> (ng\<lparr>ng_daemon := d\<lparr>dm_client := c, dm_net := n\<rparr>\<rparr>, err e)))"

definition push_config :: "'n host \<Rightarrow> synced_config \<Rightarrow> 'n daemon \<Rightarrow> 'n daemon" where
  "push_config h cfg d =
     (let d0 = d\<lparr>dm_state := set_synced_config (ho_config_print h) (dm_state d) cfg\<rparr>
      in if is_authenticated (dm_client d0) then
           (case put_config_call (e_http (ho_env h)) (dm_client d0) (dm_net d0) cfg of
              ((c, n), Inr updated) \<Rightarrow>
                d0\<lparr>dm_client := c, dm_net := n,
                   dm_state := set_synced_config (ho_config_print h) (dm_state d0) updated\<rparr>
            | ((c, n), Inl e) \<Rightarrow> d0\<lparr>dm_client := c, dm_net := n\<rparr>)
         else d0)"

definition update_config :: "'n host \<Rightarrow> ambient \<Rightarrow> synced_config \<Rightarrow> 'n engine \<Rightarrow> 'n engine \<times> daemon_msg" where
  "update_config h ab cfg ng =
     (fst (refresh_games h ab True (ng\<lparr>ng_daemon := push_config h cfg (ng_daemon ng)\<rparr>)), Ok)"

definition engine_pair :: "'n host \<Rightarrow> string \<Rightarrow> string \<Rightarrow> string \<Rightarrow> 'n engine \<Rightarrow> 'n engine \<times> daemon_msg" where
  "engine_pair h server_url code device_name ng =
     (let d = ng_daemon ng in
      case client_pair (e_http (ho_env h)) (client_new server_url) (dm_net d) code device_name (ho_os h) of
        ((_, n), Inl e) \<Rightarrow> (ng\<lparr>ng_daemon := d\<lparr>dm_net := n\<rparr>\<rparr>, err e)
      | ((_, n), Inr paired) \<Rightarrow>
          (let creds = \<lparr>cd_device_id = pp_device_id paired, cd_account_id = pp_account_id paired,
                        cd_refresh_secret = pp_refresh_secret paired\<rparr>
           in case ho_store_secret h creds of
                Inl e \<Rightarrow> (ng\<lparr>ng_daemon := d\<lparr>dm_net := n\<rparr>\<rparr>, err e)
              | Inr _ \<Rightarrow>
                  (ng\<lparr>ng_secret := Some creds, ng_device_id := Some (pp_device_id paired),
                      ng_daemon := d\<lparr>dm_net := n, dm_state := set_meta (dm_state d) ''server_url'' server_url,
                        dm_client := set_access_token (set_credentials (dm_client d) creds) (pp_access_token paired)\<rparr>\<rparr>,
                   Paired (pp_device_id paired))))"

definition status :: "'n host \<Rightarrow> ambient \<Rightarrow> 'n engine \<Rightarrow> daemon_msg" where
  "status h ab ng =
     Status \<lparr>ds_version = ab_version ab, ds_uptime_s = ab_uptime_s ab, ds_rss_bytes = ab_rss_bytes ab,
             ds_watched_games = length (ng_games ng),
             ds_server_connected = (ng_server_connected ng \<or> is_authenticated (dm_client (ng_daemon ng))),
             ds_last_backup_at =
               (case last_backup_at (ho_time_parse h) (dm_state (ng_daemon ng)) of Inr t \<Rightarrow> t | Inl _ \<Rightarrow> None),
             ds_pending_outbox = unat (outbox_count (dm_state (ng_daemon ng))),
             ds_autostart_enabled = ab_autostart ab\<rparr>"

definition custom_game_from :: "custom_game_spec \<Rightarrow> custom_game" where
  "custom_game_from spec =
     \<lparr>cg_title = cgs_title spec, cg_install_path = cgs_install_path spec, cg_save_root = cgs_save_root spec,
      cg_include = cgs_include spec, cg_exclude = cgs_exclude spec\<rparr>"

fun handle_request :: "'n host \<Rightarrow> ambient \<Rightarrow> gui_request \<Rightarrow> 'n engine \<Rightarrow> ('n engine \<times> daemon_msg) option" where
  "handle_request h ab ListGames ng = Some (ng, list_games ng)"
| "handle_request h ab ListRoots ng = Some (ng, Roots (list_roots (dm_state (ng_daemon ng))))"
| "handle_request h ab (AddRoot spec) ng = Some (engine_add_root h ab spec ng)"
| "handle_request h ab (RemoveRoot i) ng =
     (let d = ng_daemon ng in
      Some (fst (refresh_games h ab True (ng\<lparr>ng_daemon := d\<lparr>dm_state := remove_root (dm_state d) i\<rparr>\<rparr>)), Ok))"
| "handle_request h ab (BackupNow g) ng = Some (backup_now h ab g ng)"
| "handle_request h ab (ListVersions g) ng =
     (let d = ng_daemon ng in
      case list_versions_call (e_http (ho_env h)) (dm_client d) (dm_net d) g of
        ((c, n), r) \<Rightarrow>
          Some (ng\<lparr>ng_daemon := d\<lparr>dm_client := c, dm_net := n\<rparr>\<rparr>, case r of Inr vs \<Rightarrow> Versions vs | Inl e \<Rightarrow> err e))"
| "handle_request h ab (RestoreReq g version) ng = restore h ab g version ng"
| "handle_request h ab (ResolveConflict g choice) ng = Some (engine_resolve_conflict h g choice ng)"
| "handle_request h ab GetStatus ng = Some (ng, status h ab ng)"
| "handle_request h ab GetConfig ng =
     Some (ng, ConfigMsg (case synced_config_of (ho_config_parse h) (dm_state (ng_daemon ng)) of
                            Inr (Some cfg) \<Rightarrow> cfg | _ \<Rightarrow> synced_config_default))"
| "handle_request h ab (UpdateConfig cfg) ng = Some (update_config h ab cfg ng)"
| "handle_request h ab (EnterLearnMode g) ng = Some (ng\<lparr>ng_learn_mode := Some g\<rparr>, Ok)"
| "handle_request h ab (PairDevice server_url code device_name) ng = Some (engine_pair h server_url code device_name ng)"
| "handle_request h ab (SetAutostart enabled) ng =
     Some (ng, case ab_set_autostart ab enabled of Inr _ \<Rightarrow> Ok | Inl e \<Rightarrow> err e)"
| "handle_request h ab (AddCustomGame spec) ng =
     (let d = ng_daemon ng in
      case add_custom_game (dm_state d) (custom_game_from spec) of
        (s, Inl e) \<Rightarrow> Some (ng\<lparr>ng_daemon := d\<lparr>dm_state := s\<rparr>\<rparr>, err e)
      | (s, Inr _) \<Rightarrow> Some (fst (refresh_games h ab True (ng\<lparr>ng_daemon := d\<lparr>dm_state := s\<rparr>\<rparr>)), Ok))"
| "handle_request h ab (RemoveCustomGame title) ng =
     (let d = ng_daemon ng; norm = normalize_title title in
      Some (fst (refresh_games h ab True (ng\<lparr>ng_daemon := d\<lparr>dm_state := remove_custom_game (dm_state d) norm\<rparr>\<rparr>)), Ok))"
| "handle_request h ab (GetLogs max_lines) ng = Some (ng, Logs (ab_logs ab max_lines))"
| "handle_request h ab Shutdown ng = Some (ng, Ok)"

section \<open>Detection events\<close>

fun on_event :: "detection_event \<Rightarrow> 'n engine \<Rightarrow> 'n engine \<times> uuid option" where
  "on_event (GameStarted g pid at) ng =
     (let d = ng_daemon ng in
      (emit CatalogUpdated
         (ng\<lparr>ng_daemon := d\<lparr>dm_state := play_start (dm_state d) g at\<rparr>, ng_running := insert g (ng_running ng)\<rparr>), None))"
| "on_event (GameStopped g at) ng =
     (let d = ng_daemon ng in
      (emit CatalogUpdated
         (ng\<lparr>ng_daemon := d\<lparr>dm_state := play_stop (dm_state d) g at\<rparr>, ng_running := ng_running ng - {g}\<rparr>), Some g))"
| "on_event (ManualBackupRequested g) ng = (ng, Some g)"
| "on_event (SaveDirChanged g) ng = (ng, None)"
| "on_event (BackupCompleted g) ng = (ng, None)"
| "on_event (BackupConflict g) ng = (ng, None)"
| "on_event (SaveAvailable g) ng = (ng, None)"
| "on_event CatalogUpdated ng = (ng, None)"

definition trigger_backup :: "'n host \<Rightarrow> ambient \<Rightarrow> uuid \<Rightarrow> 'n engine \<Rightarrow> 'n engine" where
  "trigger_backup h ab g ng =
     (case map_of (ng_games ng) g of
        None \<Rightarrow> ng
      | Some entry \<Rightarrow>
          (case run_backup_for h ab entry ng of
             (ng1, Inr (Uploaded v)) \<Rightarrow> emit (BackupCompleted g) ng1
           | (ng1, Inr (BackupConflicted head incoming)) \<Rightarrow>
               emit (BackupConflict g) (fst (record_conflict g (map_option v_id head) (v_id incoming) ng1))
           | (ng1, Inr Queued) \<Rightarrow> ng1
           | (ng1, Inr NoChange) \<Rightarrow> ng1
           | (ng1, Inl e) \<Rightarrow> ng1))"

section \<open>Pushes of the server and periodic work\<close>

definition autopull_for :: "'n engine \<Rightarrow> uuid \<Rightarrow> autopull_policy" where
  "autopull_for ng g =
     (case Option.bind (map_of (ng_games ng) g)
             (\<lambda>e. Option.bind (map_of (dc_games (ng_config ng)) (gm_title (ge_game e))) go_autopull) of
        Some p \<Rightarrow> p
      | None \<Rightarrow> dc_autopull (ng_config ng))"

definition on_version_available :: "'n host \<Rightarrow> ambient \<Rightarrow> uuid \<Rightarrow> uuid \<Rightarrow> 'n engine \<Rightarrow> 'n engine option" where
  "on_version_available h ab g version ng =
     (if autopull_for ng g = Auto \<and> g \<notin> ng_running ng
      then map_option fst (restore h ab g version ng)
      else Some (emit (SaveAvailable g) ng))"

definition record_ws_conflict :: "uuid \<Rightarrow> uuid list \<Rightarrow> 'n engine \<Rightarrow> 'n engine" where
  "record_ws_conflict g tips ng =
     emit (BackupConflict g)
       (case tips of
          theirs # mine # _ \<Rightarrow> ng\<lparr>ng_conflicts := (ng_conflicts ng)(g \<mapsto> \<lparr>ct_mine = mine, ct_theirs = theirs\<rparr>)\<rparr>
        | _ \<Rightarrow> ng)"

definition flush_outbox :: "'n host \<Rightarrow> ambient \<Rightarrow> 'n engine \<Rightarrow> 'n engine" where
  "flush_outbox h ab ng = ng\<lparr>ng_daemon := retry_outbox (ho_env h) (ab_now ab) (ng_daemon ng)\<rparr>"

text \<open>The identifiers of the roots are drawn one after the other; a failing insert ends the loop.\<close>

fun add_default_roots :: "(string \<times> uuid) list \<Rightarrow> local_state \<Rightarrow> local_state \<times> (string + unit)" where
  "add_default_roots [] s = (s, Inr ())"
| "add_default_roots ((p, i) # ps) s =
     (case add_root s i SteamRoot p of
        (s', Inl e) \<Rightarrow> (s', Inl e)
      | (s', Inr _) \<Rightarrow> add_default_roots ps s')"

definition ensure_default_roots :: "(string \<times> uuid) list \<Rightarrow> 'n engine \<Rightarrow> 'n engine \<times> (string + unit)" where
  "ensure_default_roots defaults ng =
     (let d = ng_daemon ng in
      if list_roots (dm_state d) \<noteq> [] then (ng, Inr ())
      else (let (s, r) = add_default_roots defaults (dm_state d) in (ng\<lparr>ng_daemon := d\<lparr>dm_state := s\<rparr>\<rparr>, r)))"

definition pull_config :: "'n host \<Rightarrow> ambient \<Rightarrow> 'n engine \<Rightarrow> 'n engine \<times> (string + unit)" where
  "pull_config h ab ng =
     (let d = ng_daemon ng in
      if \<not> is_authenticated (dm_client d) then (ng, Inr ())
      else
        (case get_config_call (e_http (ho_env h)) (dm_client d) (dm_net d) of
           ((c, n), Inl e) \<Rightarrow> (ng\<lparr>ng_daemon := d\<lparr>dm_client := c, dm_net := n\<rparr>\<rparr>, Inl e)
         | ((c, n), Inr cfg) \<Rightarrow>
             refresh_games h ab True
               (ng\<lparr>ng_daemon := d\<lparr>dm_client := c, dm_net := n,
                   dm_state := set_synced_config (ho_config_print h) (dm_state d) cfg\<rparr>\<rparr>)))"

section \<open>What the operations leave alone\<close>

text \<open>Saves and play statistics are untouched.\<close>

definition kept :: "'n daemon \<Rightarrow> 'n daemon \<Rightarrow> bool" where
  "kept d d' = (dm_fs d' = dm_fs d \<and> ls_play (dm_state d') = ls_play (dm_state d))"

lemma kept_refl [simp]: "kept d d"
  by (simp add: kept_def)

lemma kept_trans: "kept d d1 \<Longrightarrow> kept d1 d2 \<Longrightarrow> kept d d2"
  by (simp add: kept_def)

lemma kept_client [simp]:
  "kept d (d'\<lparr>dm_client := c\<rparr>) = kept d d'" "kept d (d'\<lparr>dm_net := n\<rparr>) = kept d d'"
  "kept d (d'\<lparr>dm_cache := x\<rparr>) = kept d d'"
  "kept (d\<lparr>dm_client := c\<rparr>) d' = kept d d'" "kept (d\<lparr>dm_net := n\<rparr>) d' = kept d d'"
  "kept (d\<lparr>dm_cache := x\<rparr>) d' = kept d d'"
  by (simp_all add: kept_def)

lemma kept_state [simp]: "kept d (d\<lparr>dm_state := s\<rparr>) \<longleftrightarrow> ls_play s = ls_play (dm_state d)"
  by (simp add: kept_def)

lemma ls_play_frame [simp]:
  "ls_play (put_snapshot s g fs t lh) = ls_play s"
  "ls_play (set_local_head s g i) = ls_play s"
  "ls_play (set_meta s k v) = ls_play s"
  "ls_play (set_last_backup_at pr s t) = ls_play s"
  "ls_play (set_synced_config sp s cfg) = ls_play s"
  "ls_play (bump_diff_counter s k kind prior) = ls_play s"
  "ls_play (enqueue_outbox s i b t) = ls_play s"
  "ls_play (bump_outbox_attempt s i t) = ls_play s"
  "ls_play (remove_outbox s i) = ls_play s"
  "ls_play (replace_exe_index s rows) = ls_play s"
  "ls_play (remove_root s i) = ls_play s"
  "ls_play (remove_custom_game s norm) = ls_play s"
  by (simp_all add: put_snapshot_def set_local_head_def set_meta_def set_last_backup_at_def set_synced_config_def
      bump_diff_counter_def enqueue_outbox_def bump_outbox_attempt_def remove_outbox_def replace_exe_index_def
      remove_root_def remove_custom_game_def Let_def split: option.split)

lemma ls_play_add:
  "add_root s i kind p = (s', r) \<Longrightarrow> ls_play s' = ls_play s"
  "add_custom_game s cg = (s', r') \<Longrightarrow> ls_play s' = ls_play s"
  by (auto simp: add_root_def add_custom_game_def Let_def split: if_splits)

lemma with_state_kept:
  "with_state d q x = (d', r) \<Longrightarrow> (\<And>s. q = Inr s \<Longrightarrow> ls_play s = ls_play (dm_state d)) \<Longrightarrow> kept d d'"
  by (auto simp: with_state_def split: sum.splits)

lemma queue_backup_play: "queue_backup e s oid now g cv hash fs t p = Inr s' \<Longrightarrow> ls_play s' = ls_play s"
  by (auto simp: queue_backup_def enqueue_def split: sum.splits)

lemma deliver_kept:
  assumes "deliver e hc oid now g cv new prior d = (d', r)"
  shows "kept d d'"
proof (cases "hc \<and> is_authenticated (dm_client d)")
  case False
  with assms have "with_state d (queue_backup e (dm_state d) oid now g cv (cv_blob_hash cv) (sn_files new)
      (sn_taken_at new) (cv_parent cv)) Queued = (d', r)"
    unfolding deliver_def Let_def by (simp only: if_False)
  then show ?thesis by (rule with_state_kept) (rule queue_backup_play)
next
  case True
  obtain c n u where up: "upload_version e (dm_client d) (dm_net d) g cv (dm_cache d (cv_blob_hash cv)) = ((c, n), u)"
    by (metis surj_pair)
  note run = assms [unfolded deliver_def Let_def if_P [OF True] up prod.case]
  show ?thesis
  proof (cases u)
    case (Inl err)
    with run have "with_state (d\<lparr>dm_client := c, dm_net := n\<rparr>) (queue_backup e (dm_state d) oid now g cv
        (cv_blob_hash cv) (sn_files new) (sn_taken_at new) (cv_parent cv)) Queued = (d', r)" by simp
    then have "kept (d\<lparr>dm_client := c, dm_net := n\<rparr>) d'"
      by (rule with_state_kept) (simp add: queue_backup_play)
    then show ?thesis by simp
  next
    case (Inr out)
    with run show ?thesis by (cases out) (auto simp: kept_def)
  qed
qed

lemma run_backup_kept: "run_backup e hc device full_every job oid now d = (d', r) \<Longrightarrow> kept d d'"
  by (drule run_backup_cases) (auto dest: deliver_kept)

lemma retry_item_kept: "kept d (retry_item e now item d)"
proof (cases "e_payload_parse e (oi_payload item)")
  case (Inl err)
  then show ?thesis by (simp add: retry_item_def)
next
  case (Inr p)
  obtain c n u where up: "upload_version e (dm_client d) (dm_net d) (op_game_id p) (op_create_version p)
      (dm_cache d (op_blob_hex p)) = ((c, n), u)" by (metis surj_pair)
  show ?thesis
  proof (cases u)
    case (Inl err)
    with Inr up show ?thesis by (simp add: retry_item_def kept_def)
  next
    case out: (Inr out)
    with Inr up show ?thesis by (cases out) (simp_all add: retry_item_def Let_def kept_def)
  qed
qed

lemma retry_outbox_kept: "kept d (retry_outbox e now d)"
proof -
  have "kept d (fold (retry_item e now) items d')" if "kept d d'" for items d'
    using that by (induction items arbitrary: d') (auto intro: kept_trans [OF _ retry_item_kept])
  then show ?thesis by (simp add: retry_outbox_def)
qed

lemma game_id_kept: "game_id_for h mint a t authed d = (d', i) \<Longrightarrow> kept d d'"
  by (auto simp: game_id_for_def local_game_id_def Let_def kept_def split: if_splits prod.splits sum.splits option.splits)

lemma ca_daemon_put [simp]: "ca_daemon (put_game i e cat) = ca_daemon cat"
  by (simp add: put_game_def)

lemma add_steps_kept:
  "kept (ca_daemon cat) (ca_daemon (add_steam_game h mint cfg mf libs ovs authed lib sg cat))"
  "kept (ca_daemon cat) (ca_daemon (add_drive_game h mint cfg mf libs ovs authed folder cat))"
  "kept (ca_daemon cat) (ca_daemon (add_custom_entry h mint authed cg cat))"
  by (auto simp: add_steam_game_def add_drive_game_def add_custom_entry_def Let_def
      split: prod.split option.split dest: game_id_kept)

lemma build_catalog_kept:
  assumes "build_catalog h mint cfg mf enrich d = Inr cat"
  shows "kept d (ca_daemon cat)"
  by (rule build_catalog_induct [OF assms, where P = "\<lambda>c. kept d (ca_daemon c)"])
     (auto intro: kept_trans add_steps_kept)

lemma apply_restore_play:
  "apply_restore req m chain merged d = (d', r) \<Longrightarrow> ls_play (dm_state d') = ls_play (dm_state d)"
  by (auto simp: apply_restore_def Let_def split: sum.splits if_splits)

lemma run_restore_play:
  assumes "run_restore e device req running scratch m oid now d = Some (d', r)"
  shows "ls_play (dm_state d') = ls_play (dm_state d)"
proof (cases "running \<or> rq_patterns req = [] \<and> rq_registry_keys req = []")
  case True
  with assms show ?thesis by (auto simp: run_restore_def split: if_splits)
next
  case False
  let ?job = "\<lparr>bj_game_id = rq_game_id req, bj_patterns = rq_patterns req, bj_anchor = rq_anchor req,
                 bj_registry_keys = rq_registry_keys req, bj_excludes = []\<rparr>"
  obtain d1 br where b: "run_backup e True device (-1) ?job oid now d = (d1, br)" by (metis surj_pair)
  have p1: "ls_play (dm_state d1) = ls_play (dm_state d)" using run_backup_kept [OF b] by (simp add: kept_def)
  obtain c n lr where l: "list_versions_call (e_http e) (dm_client d1) (dm_net d1) (rq_game_id req) = ((c, n), lr)"
    by (metis surj_pair)
  from False have nr: "\<not> running" "\<not> (rq_patterns req = [] \<and> rq_registry_keys req = [])" by auto
  have f: "ls_play (dm_state d3) = ls_play (dm_state d1)"
    if "fetch_chain e m scratch chain [] (d1\<lparr>dm_client := c, dm_net := n\<rparr>) = (d3, fr)" for chain d3 fr
    using fetch_chain_safe [OF that] by simp
  note run = assms [unfolded run_restore_def Let_def if_not_P [OF nr(1)] if_not_P [OF nr(2)] b prod.case l]
  from run p1 show ?thesis
    by (auto split: sum.splits option.splits prod.splits dest!: f apply_restore_play)
qed

text \<open>Neither the play statistics nor the set of running games, the configuration or the scratch
  directory change.\<close>

definition plays_kept :: "'n engine \<Rightarrow> 'n engine \<Rightarrow> bool" where
  "plays_kept ng ng' =
     (ls_play (dm_state (ng_daemon ng')) = ls_play (dm_state (ng_daemon ng)) \<and> ng_running ng' = ng_running ng \<and>
      ng_config ng' = ng_config ng \<and> ng_scratch ng' = ng_scratch ng)"

text \<open>Moreover the saves and the pending conflicts are untouched.\<close>

definition quiet :: "'n engine \<Rightarrow> 'n engine \<Rightarrow> bool" where
  "quiet ng ng' =
     (plays_kept ng ng' \<and> dm_fs (ng_daemon ng') = dm_fs (ng_daemon ng) \<and> ng_conflicts ng' = ng_conflicts ng)"

lemma quiet_daemon: "kept (ng_daemon ng) d \<Longrightarrow> quiet ng (ng\<lparr>ng_daemon := d\<rparr>)"
  by (simp add: quiet_def plays_kept_def kept_def)

lemma quiet_trans: "quiet ng ng1 \<Longrightarrow> quiet ng1 ng2 \<Longrightarrow> quiet ng ng2"
  by (simp add: quiet_def plays_kept_def)

lemma quiet_simps [simp]:
  "quiet ng ng" "quiet ng (emit ev ng') = quiet ng ng'" "quiet ng (ng'\<lparr>ng_manifest := mf\<rparr>) = quiet ng ng'"
  "quiet ng (ng'\<lparr>ng_learn_mode := l\<rparr>) = quiet ng ng'" "quiet ng (ng'\<lparr>ng_server_connected := b\<rparr>) = quiet ng ng'"
  by (simp_all add: quiet_def plays_kept_def emit_def)

lemma refresh_games_quiet: "quiet ng (fst (refresh_games h ab enrich ng))"
  by (auto simp: refresh_games_def Let_def quiet_def plays_kept_def emit_def kept_def
      split: sum.split dest: build_catalog_kept)

lemma refresh_after: "kept (ng_daemon ng) d \<Longrightarrow> quiet ng (fst (refresh_games h ab enrich (ng\<lparr>ng_daemon := d\<rparr>)))"
  by (rule quiet_trans [OF quiet_daemon refresh_games_quiet])

lemma push_config_kept: "kept d (push_config h cfg d)"
  by (auto simp: push_config_def Let_def kept_def split: prod.split sum.split)

lemma engine_add_root_quiet: "engine_add_root h ab spec ng = (ng', m) \<Longrightarrow> quiet ng ng'"
  by (auto simp: engine_add_root_def Let_def split: prod.splits sum.splits
      intro!: quiet_daemon refresh_after dest: ls_play_add)

lemma engine_pair_quiet: "engine_pair h url code name ng = (ng', m) \<Longrightarrow> quiet ng ng'"
  by (auto simp: engine_pair_def Let_def quiet_def plays_kept_def split: prod.splits sum.splits)

lemma run_backup_for_quiet: "run_backup_for h ab entry ng = (ng', r) \<Longrightarrow> quiet ng ng'"
  by (auto simp: run_backup_for_def split: prod.splits intro!: quiet_daemon dest: run_backup_kept)

lemma restore_facts:
  assumes "restore h ab g v ng = Some (ng', m)"
  shows "plays_kept ng ng' \<and> ng_conflicts ng' = ng_conflicts ng \<and> ng_games ng' = ng_games ng \<and>
    ng_exe_index ng' = ng_exe_index ng"
  using assms
  by (auto simp: restore_def plays_kept_def split: option.splits dest: run_restore_play)

end
