(* ===== verification/Watcher.thy ===== *)
theory Watcher
  imports Exe_Index
begin

text \<open>
  The process watcher (\<open>savr-daemon/src/detection/mod.rs\<close>). One turn of the poll loop is a step on
  the games seen running and the stops that are settling; the process table, and the instants at
  which the turn reads the clock, are its input. The events of a turn are its output. The
  abstraction is one small machine per game (\<open>Idle\<close>, \<open>Running\<close>, \<open>Settling\<close>): the loop, which
  works on all games at once, runs exactly these machines side by side.
\<close>

section \<open>Definitions\<close>

record watch_tuning =
  wt_active_interval :: int
  wt_idle_interval :: int
  wt_settle :: int

definition next_interval :: "watch_tuning \<Rightarrow> bool \<Rightarrow> int" where
  "next_interval t busy = (if busy then wt_active_interval t else wt_idle_interval t)"

text \<open>A process of the table: its id and its executable, when the system tells it.\<close>

type_synonym process = "nat \<times> path option"

fun scan_loop ::
  "(string \<Rightarrow> string) \<Rightarrow> exe_index \<Rightarrow> process list \<Rightarrow> string list \<Rightarrow> (uuid \<times> nat) list \<Rightarrow> (uuid \<times> nat) list" where
  "scan_loop fc idx [] seen out = out"
| "scan_loop fc idx ((pid, None) # ps) seen out = scan_loop fc idx ps seen out"
| "scan_loop fc idx ((pid, Some exe) # ps) seen out =
     (if path_str exe \<in> set seen then scan_loop fc idx ps seen out
      else
        scan_loop fc idx ps (path_str exe # seen)
          (case match_exe fc idx exe of
             None \<Rightarrow> out
           | Some (g, conf) \<Rightarrow> if map_of out g = None then out @ [(g, pid)] else out))"

definition scan_running_games :: "(string \<Rightarrow> string) \<Rightarrow> exe_index \<Rightarrow> process list \<Rightarrow> (uuid \<times> nat) list" where
  "scan_running_games fc idx ps = scan_loop fc idx ps [] []"

record watcher =
  wa_running :: "(uuid \<times> nat) list"
  wa_pending_stop :: "(uuid \<times> time) list"

definition watcher_new :: watcher where
  "watcher_new = \<lparr>wa_running = [], wa_pending_stop = []\<rparr>"

text \<open>What a turn reads: the scan, the wall clock of its events, the instant at which a settle
  timer is armed and the later one at which timers are compared.\<close>

record tick =
  tk_running :: "(uuid \<times> nat) list"
  tk_at :: time
  tk_armed :: time
  tk_now :: time

definition is_running :: "(uuid \<times> nat) list \<Rightarrow> uuid \<Rightarrow> bool" where
  "is_running rs g = (map_of rs g \<noteq> None)"

definition started :: "watcher \<Rightarrow> tick \<Rightarrow> detection_event list" where
  "started w tk =
     map (\<lambda>(g, pid). GameStarted g pid (tk_at tk))
       (filter (\<lambda>(g, pid). \<not> is_running (wa_running w) g) (tk_running tk))"

definition cancel_stops :: "(uuid \<times> nat) list \<Rightarrow> (uuid \<times> time) list \<Rightarrow> (uuid \<times> time) list" where
  "cancel_stops rs ps = fold (\<lambda>(g, pid). AList.delete g) rs ps"

definition arm_stop :: "watch_tuning \<Rightarrow> tick \<Rightarrow> uuid \<times> nat \<Rightarrow> (uuid \<times> time) list \<Rightarrow> (uuid \<times> time) list" where
  "arm_stop t tk r ps =
     (if is_running (tk_running tk) (fst r) \<or> map_of ps (fst r) \<noteq> None then ps
      else ps @ [(fst r, tk_armed tk + wt_settle t)])"

definition is_fired :: "tick \<Rightarrow> uuid \<times> time \<Rightarrow> bool" where
  "is_fired tk p = (\<not> is_running (tk_running tk) (fst p) \<and> snd p \<le> tk_now tk)"

definition watch_step :: "watch_tuning \<Rightarrow> watcher \<Rightarrow> tick \<Rightarrow> watcher \<times> detection_event list" where
  "watch_step t w tk =
     (let starts = started w tk;
          ps1 = cancel_stops (tk_running tk) (wa_pending_stop w);
          ps2 = fold (arm_stop t tk) (wa_running w) ps1;
          fired = map fst (filter (is_fired tk) ps2);
          ps3 = fold AList.delete fired ps2
      in (\<lparr>wa_running = tk_running tk, wa_pending_stop = ps3\<rparr>,
          starts @ map (\<lambda>g. GameStopped g (tk_at tk)) fired))"

definition busy :: "watcher \<Rightarrow> bool" where
  "busy w = (wa_running w \<noteq> [] \<or> wa_pending_stop w \<noteq> [])"

fun run_watcher :: "watch_tuning \<Rightarrow> watcher \<Rightarrow> tick list \<Rightarrow> watcher \<times> detection_event list" where
  "run_watcher t w [] = (w, [])"
| "run_watcher t w (tk # tks) =
     (let (w1, es) = watch_step t w tk; (w2, es') = run_watcher t w1 tks in (w2, es @ es'))"

section \<open>One machine per game\<close>

datatype play_status = Idle | Running | Settling time

definition about :: "uuid \<Rightarrow> detection_event \<Rightarrow> bool" where
  "about g e = (case e of GameStarted g' pid at \<Rightarrow> g' = g | GameStopped g' at \<Rightarrow> g' = g | _ \<Rightarrow> False)"

definition status_of :: "watcher \<Rightarrow> uuid \<Rightarrow> play_status" where
  "status_of w g =
     (if is_running (wa_running w) g then Running
      else case map_of (wa_pending_stop w) g of Some d \<Rightarrow> Settling d | None \<Rightarrow> Idle)"

definition settle_step :: "uuid \<Rightarrow> time \<Rightarrow> tick \<Rightarrow> play_status \<times> detection_event list" where
  "settle_step g d tk = (if d \<le> tk_now tk then (Idle, [GameStopped g (tk_at tk)]) else (Settling d, []))"

definition game_step :: "watch_tuning \<Rightarrow> uuid \<Rightarrow> play_status \<Rightarrow> tick \<Rightarrow> play_status \<times> detection_event list" where
  "game_step t g st tk =
     (case map_of (tk_running tk) g of
        Some pid \<Rightarrow> (Running, if st = Running then [] else [GameStarted g pid (tk_at tk)])
      | None \<Rightarrow>
          (case st of
             Idle \<Rightarrow> (Idle, [])
           | Running \<Rightarrow> settle_step g (tk_armed tk + wt_settle t) tk
           | Settling d \<Rightarrow> settle_step g d tk))"

definition watcher_ok :: "watcher \<Rightarrow> bool" where
  "watcher_ok w =
     (distinct (map fst (wa_running w)) \<and> distinct (map fst (wa_pending_stop w)) \<and>
      fst ` set (wa_running w) \<inter> fst ` set (wa_pending_stop w) = {})"

lemma is_running_iff: "is_running rs g \<longleftrightarrow> g \<in> fst ` set rs"
  by (simp add: is_running_def map_of_eq_None_iff)

lemma map_of_cancel: "map_of (cancel_stops rs ps) g = (if is_running rs g then None else map_of ps g)"
  unfolding cancel_stops_def is_running_iff
  by (induction rs arbitrary: ps) (auto simp: delete_conv')

lemma map_of_arm:
  "map_of (fold (arm_stop t tk) rs ps) g =
     (case map_of ps g of
        Some d \<Rightarrow> Some d
      | None \<Rightarrow> if is_running rs g \<and> \<not> is_running (tk_running tk) g then Some (tk_armed tk + wt_settle t) else None)"
  unfolding is_running_iff
  by (induction rs arbitrary: ps)
     (auto simp: arm_stop_def is_running_iff map_add_def split: option.splits)

lemma arm_distinct: "distinct (map fst ps) \<Longrightarrow> distinct (map fst (fold (arm_stop t tk) rs ps))"
  by (induction rs arbitrary: ps) (auto simp: arm_stop_def map_of_eq_None_iff)

lemma cancel_distinct: "distinct (map fst ps) \<Longrightarrow> distinct (map fst (cancel_stops rs ps))"
  unfolding cancel_stops_def by (induction rs arbitrary: ps) (auto simp: distinct_delete)

lemma delete_all_distinct: "distinct (map fst ps) \<Longrightarrow> distinct (map fst (fold AList.delete ks ps))"
  by (induction ks arbitrary: ps) (auto simp: distinct_delete)

lemma map_of_delete_all: "map_of (fold AList.delete ks ps) g = (if g \<in> set ks then None else map_of ps g)"
  by (induction ks arbitrary: ps) (auto simp: delete_conv')

text \<open>The stops that are settling when the timers are compared.\<close>

definition armed :: "watch_tuning \<Rightarrow> watcher \<Rightarrow> tick \<Rightarrow> (uuid \<times> time) list" where
  "armed t w tk = fold (arm_stop t tk) (wa_running w) (cancel_stops (tk_running tk) (wa_pending_stop w))"

definition fired :: "watch_tuning \<Rightarrow> watcher \<Rightarrow> tick \<Rightarrow> uuid list" where
  "fired t w tk = map fst (filter (is_fired tk) (armed t w tk))"

lemma watch_step_eq:
  "watch_step t w tk =
     (\<lparr>wa_running = tk_running tk, wa_pending_stop = fold AList.delete (fired t w tk) (armed t w tk)\<rparr>,
      started w tk @ map (\<lambda>g. GameStopped g (tk_at tk)) (fired t w tk))"
  by (simp add: watch_step_def armed_def fired_def Let_def)

lemma map_of_armed:
  "map_of (armed t w tk) g =
     (if is_running (tk_running tk) g then None
      else case map_of (wa_pending_stop w) g of
             Some d \<Rightarrow> Some d
           | None \<Rightarrow> if is_running (wa_running w) g then Some (tk_armed tk + wt_settle t) else None)"
  by (simp add: armed_def map_of_arm map_of_cancel split: option.split)

lemma armed_distinct: "watcher_ok w \<Longrightarrow> distinct (map fst (armed t w tk))"
  by (simp add: armed_def watcher_ok_def arm_distinct cancel_distinct)

lemma in_fired:
  assumes "watcher_ok w"
  shows "g \<in> set (fired t w tk) \<longleftrightarrow> (\<exists>d. map_of (armed t w tk) g = Some d \<and> d \<le> tk_now tk)"
proof -
  have "map_of (armed t w tk) g = Some d \<longleftrightarrow> (g, d) \<in> set (armed t w tk)" for d
    using armed_distinct [OF assms] by simp
  moreover have "\<not> is_running (tk_running tk) g" if "map_of (armed t w tk) g = Some d" for d
    using that by (auto simp: map_of_armed split: if_splits)
  ultimately show ?thesis by (force simp: fired_def is_fired_def)
qed

lemma fired_distinct: "watcher_ok w \<Longrightarrow> distinct (fired t w tk)"
  unfolding fired_def using armed_distinct [of w t tk] by (simp add: distinct_map_filter)

lemma filter_stops:
  "distinct gs \<Longrightarrow> filter (about g) (map (\<lambda>g. GameStopped g at) gs) = (if g \<in> set gs then [GameStopped g at] else [])"
  by (induction gs) (auto simp: about_def)

lemma filter_starts:
  assumes "distinct (map fst (tk_running tk))"
  shows "filter (about g) (started w tk) =
     (case map_of (tk_running tk) g of
        None \<Rightarrow> []
      | Some pid \<Rightarrow> if is_running (wa_running w) g then [] else [GameStarted g pid (tk_at tk)])"
proof -
  have "filter (about g) (map (\<lambda>(g, pid). GameStarted g pid at) (filter (\<lambda>(g, pid). \<not> P g) rs)) =
      (case map_of rs g of None \<Rightarrow> [] | Some pid \<Rightarrow> if P g then [] else [GameStarted g pid at])"
    if "distinct (map fst rs)" for rs at P
    using that by (induction rs) (auto simp: about_def rev_image_eqI split: option.splits dest!: map_of_SomeD)
  with assms show ?thesis by (simp add: started_def)
qed

lemma watch_step_ok:
  assumes "watcher_ok w" and "distinct (map fst (tk_running tk))"
  shows "watcher_ok (fst (watch_step t w tk))"
proof -
  have "map_of (armed t w tk) g = None" if "g \<in> fst ` set (tk_running tk)" for g
    using that by (simp add: map_of_armed is_running_iff)
  then have "fst ` set (tk_running tk) \<inter> fst ` set (armed t w tk) = {}" by (auto simp: map_of_eq_None_iff)
  moreover have "fst ` set (fold AList.delete ks ps) \<subseteq> fst ` set ps" for ks and ps :: "(uuid \<times> time) list"
    using map_of_delete_all [of ks ps] by (metis map_of_eq_None_iff subsetI)
  ultimately have "fst ` set (tk_running tk) \<inter> fst ` set (fold AList.delete (fired t w tk) (armed t w tk)) = {}"
    by blast
  with assms(2) armed_distinct [OF assms(1)] show ?thesis
    by (simp add: watch_step_eq watcher_ok_def delete_all_distinct)
qed

lemma watcher_ok_apart: "watcher_ok w \<Longrightarrow> map_of (wa_running w) g = None \<or> map_of (wa_pending_stop w) g = None"
  by (auto simp: watcher_ok_def map_of_eq_None_iff)

lemma watch_step_refines:
  assumes "watcher_ok w" and "distinct (map fst (tk_running tk))"
  shows "(status_of (fst (watch_step t w tk)) g, filter (about g) (snd (watch_step t w tk))) =
     game_step t g (status_of w g) tk"
  using in_fired [OF assms(1), of g t tk] fired_distinct [OF assms(1), of t tk] watcher_ok_apart [OF assms(1), of g]
  by (cases "map_of (tk_running tk) g")
     (auto simp: watch_step_eq filter_starts [OF assms(2)] filter_stops status_of_def game_step_def settle_step_def
       map_of_delete_all map_of_armed is_running_def split: option.splits if_splits)

section \<open>Runs\<close>

lemma scan_loop_distinct: "distinct (map fst out) \<Longrightarrow> distinct (map fst (scan_loop fc idx ps seen out))"
  by (induction fc idx ps seen out rule: scan_loop.induct) (auto simp: map_of_eq_None_iff split: option.splits)

lemma scan_distinct: "distinct (map fst (scan_running_games fc idx ps))"
  by (simp add: scan_running_games_def scan_loop_distinct)

definition scanned :: "tick \<Rightarrow> bool" where
  "scanned tk = (\<exists>fc idx ps. tk_running tk = scan_running_games fc idx ps)"

lemma scanned_distinct: "scanned tk \<Longrightarrow> distinct (map fst (tk_running tk))"
  by (auto simp: scanned_def scan_distinct)

fun game_run :: "watch_tuning \<Rightarrow> uuid \<Rightarrow> play_status \<Rightarrow> tick list \<Rightarrow> play_status \<times> detection_event list" where
  "game_run t g st [] = (st, [])"
| "game_run t g st (tk # tks) =
     (let (st1, es) = game_step t g st tk; (st2, es') = game_run t g st1 tks in (st2, es @ es'))"

lemma run_refines:
  assumes "watcher_ok w" and "\<forall>tk \<in> set tks. scanned tk"
  shows "watcher_ok (fst (run_watcher t w tks)) \<and>
    (status_of (fst (run_watcher t w tks)) g, filter (about g) (snd (run_watcher t w tks))) =
     game_run t g (status_of w g) tks"
  using assms
proof (induction tks arbitrary: w)
  case (Cons tk tks)
  then have d: "distinct (map fst (tk_running tk))" by (simp add: scanned_distinct)
  let ?w = "fst (watch_step t w tk)"
  from Cons.prems(1) d have ok: "watcher_ok ?w" by (rule watch_step_ok)
  from watch_step_refines [OF Cons.prems(1) d, of t g]
  have st: "game_step t g (status_of w g) tk = (status_of ?w g, filter (about g) (snd (watch_step t w tk)))" by simp
  from Cons.IH [OF ok] Cons.prems(2)
  have run: "watcher_ok (fst (run_watcher t ?w tks))"
    "game_run t g (status_of ?w g) tks = (status_of (fst (run_watcher t ?w tks)) g, filter (about g) (snd (run_watcher t ?w tks)))"
    by simp_all
  show ?case by (simp add: st run split_beta)
qed simp

lemma watcher_new_ok [simp]: "watcher_ok watcher_new" "status_of watcher_new g = Idle"
  by (simp_all add: watcher_ok_def watcher_new_def status_of_def is_running_def)

text \<open>C14: the poll loop is one small machine per game. Over any sequence of turns, whatever the
  process table shows, what the loop knows of a game and the events it sends about it are those of
  the machine of that game alone: started when it appears, settling when it is gone, stopped when
  it is still gone after the settle time. Games do not influence each other.\<close>

theorem watcher_refines:
  assumes "\<forall>tk \<in> set tks. scanned tk"
  shows "(status_of (fst (run_watcher t watcher_new tks)) g, filter (about g) (snd (run_watcher t watcher_new tks))) =
     game_run t g Idle tks"
  using run_refines [OF watcher_new_ok(1) assms, of t g] by simp

section \<open>Stops are debounced\<close>

text \<open>A game that was seen in a turn and in none of the turns after it.\<close>

definition gone_since :: "uuid \<Rightarrow> tick \<Rightarrow> tick list \<Rightarrow> tick list \<Rightarrow> bool" where
  "gone_since g gone mid tks =
     (\<exists>pre seen. tks = pre @ seen # gone # mid \<and> is_running (tk_running seen) g \<and>
        (\<forall>x \<in> set (gone # mid). \<not> is_running (tk_running x) g))"

definition game_status :: "watch_tuning \<Rightarrow> uuid \<Rightarrow> tick list \<Rightarrow> play_status" where
  "game_status t g tks = fst (game_run t g Idle tks)"

lemma game_run_append:
  "game_run t g st (xs @ ys) =
     (let (st1, es) = game_run t g st xs; (st2, es') = game_run t g st1 ys in (st2, es @ es'))"
  by (induction xs arbitrary: st) (simp_all add: split_beta Let_def)

lemma game_status_snoc: "game_status t g (tks @ [tk]) = fst (game_step t g (game_status t g tks) tk)"
  by (simp add: game_status_def game_run_append split_beta Let_def)

lemma game_status_Running:
  "game_status t g tks = Running \<longleftrightarrow> tks \<noteq> [] \<and> is_running (tk_running (last tks)) g"
proof (cases tks rule: rev_cases)
  case Nil
  then show ?thesis by (simp add: game_status_def)
next
  case (snoc ys tk)
  then show ?thesis
    by (auto simp: game_status_snoc game_step_def settle_step_def is_running_def split: option.splits play_status.splits)
qed

lemma gone_since_snoc:
  "gone_since g gone mid (tks @ [tk]) \<longleftrightarrow>
     \<not> is_running (tk_running tk) g \<and>
     (mid = [] \<and> gone = tk \<and> tks \<noteq> [] \<and> is_running (tk_running (last tks)) g \<or>
      (\<exists>mid'. mid = mid' @ [tk] \<and> gone_since g gone mid' tks))"
proof (cases mid rule: rev_cases)
  case Nil
  have "tks = pre @ [seen] \<longleftrightarrow> tks \<noteq> [] \<and> pre = butlast tks \<and> seen = last tks" for pre seen
    by (metis append_butlast_last_id butlast_snoc last_snoc snoc_eq_iff_butlast)
  with Nil show ?thesis by (auto simp: gone_since_def)
next
  case (snoc mid' x)
  then show ?thesis by (auto simp: gone_since_def)
qed

lemma ex_gone_since_snoc:
  "(\<exists>gone mid. gone_since g gone mid (tks @ [tk]) \<and> Q gone mid) \<longleftrightarrow>
     \<not> is_running (tk_running tk) g \<and>
     (tks \<noteq> [] \<and> is_running (tk_running (last tks)) g \<and> Q tk [] \<or>
      (\<exists>gone mid. gone_since g gone mid tks \<and> Q gone (mid @ [tk])))"
  unfolding gone_since_snoc by blast

lemma game_status_Settling:
  "game_status t g tks = Settling d \<longleftrightarrow>
     (\<exists>gone mid. gone_since g gone mid tks \<and> d = tk_armed gone + wt_settle t \<and> (\<forall>x \<in> set (gone # mid). tk_now x < d))"
proof (induction tks rule: rev_induct)
  case Nil
  then show ?case by (simp add: game_status_def gone_since_def)
next
  case (snoc tk tks)
  let ?st = "game_status t g tks"
  show ?case
  proof (cases "is_running (tk_running tk) g")
    case True
    then show ?thesis by (auto simp: game_status_snoc gone_since_snoc game_step_def is_running_def)
  next
    case False
    then have absent: "map_of (tk_running tk) g = None" by (simp add: is_running_def)
    have lhs: "game_status t g (tks @ [tk]) = Settling d \<longleftrightarrow>
        (?st = Running \<and> d = tk_armed tk + wt_settle t \<or> ?st = Settling d) \<and> tk_now tk < d"
      by (auto simp: game_status_snoc game_step_def absent settle_step_def split: play_status.splits)
    show ?thesis
      unfolding lhs snoc.IH game_status_Running ex_gone_since_snoc using False by auto
  qed
qed

text \<open>C15: a game is reported stopped exactly when it has been gone for the settle time. A turn
  sends the stop of a game if and only if the game was seen in an earlier turn, in none since, and
  this is the first of these turns whose clock has reached the settle time after the moment the
  absence was noticed; a process that flickers sends none.\<close>

theorem stop_debounced:
  assumes "\<forall>x \<in> set (tks @ [tk]). scanned x"
  shows "GameStopped g at \<in> set (snd (watch_step t (fst (run_watcher t watcher_new tks)) tk)) \<longleftrightarrow>
     at = tk_at tk \<and>
     (\<exists>gone mid. gone_since g gone mid (tks @ [tk]) \<and> tk_armed gone + wt_settle t \<le> tk_now tk \<and>
        (\<forall>x \<in> set (butlast (gone # mid)). tk_now x < tk_armed gone + wt_settle t))"
proof -
  let ?w = "fst (run_watcher t watcher_new tks)"
  from assms have ok: "watcher_ok ?w" and d: "distinct (map fst (tk_running tk))"
    and st: "status_of ?w g = game_status t g tks"
    using run_refines [of watcher_new tks t g] by (simp_all add: game_status_def scanned_distinct prod_eq_iff)
  have "GameStopped g at \<in> set (snd (watch_step t ?w tk)) \<longleftrightarrow>
      GameStopped g at \<in> set (filter (about g) (snd (watch_step t ?w tk)))"
    by (simp add: about_def)
  also have "\<dots> \<longleftrightarrow> GameStopped g at \<in> set (snd (game_step t g (game_status t g tks) tk))"
    using watch_step_refines [OF ok d, of t g] st by (metis snd_conv)
  also have "\<dots> \<longleftrightarrow> at = tk_at tk \<and> \<not> is_running (tk_running tk) g \<and>
      (\<exists>d. (game_status t g tks = Running \<and> d = tk_armed tk + wt_settle t \<or> game_status t g tks = Settling d) \<and> d \<le> tk_now tk)"
    by (auto simp: game_step_def settle_step_def is_running_def split: option.splits play_status.splits)
  also have "\<dots> \<longleftrightarrow> at = tk_at tk \<and>
     (\<exists>gone mid. gone_since g gone mid (tks @ [tk]) \<and> tk_armed gone + wt_settle t \<le> tk_now tk \<and>
        (\<forall>x \<in> set (butlast (gone # mid)). tk_now x < tk_armed gone + wt_settle t))"
    unfolding game_status_Running game_status_Settling ex_gone_since_snoc by (auto simp: butlast_append)
  finally show ?thesis .
qed

section \<open>Concrete inputs\<close>

definition ex_tuning :: watch_tuning where
  "ex_tuning = \<lparr>wt_active_interval = 3000000000, wt_idle_interval = 12000000000, wt_settle = 5000000000\<rparr>"

text \<open>A turn at a number of seconds, with or without the process of game 1.\<close>

definition ex_tick :: "int \<Rightarrow> bool \<Rightarrow> tick" where
  "ex_tick secs there =
     (let ps = (if there then [(7, Some [RootDir, Normal ''a'', Normal ''game''])] else []); at = secs * 1000000000
      in \<lparr>tk_running = scan_running_games id (index_of id ex_ins) ps, tk_at = at, tk_armed = at, tk_now = at\<rparr>)"

lemma ex_tick_scanned: "scanned (ex_tick secs there)"
  by (auto simp: scanned_def ex_tick_def Let_def)

definition ex_ticks :: "tick list" where
  "ex_ticks = [ex_tick 0 True, ex_tick 3 True, ex_tick 6 False, ex_tick 9 False]"

theorem watcher_refines_witness:
  "filter (about 1) (snd (run_watcher ex_tuning watcher_new ex_ticks)) = snd (game_run ex_tuning 1 Idle ex_ticks) \<and>
   snd (game_run ex_tuning 1 Idle (ex_ticks @ [ex_tick 12 False])) = [GameStarted 1 7 0, GameStopped 1 12000000000]"
proof
  have "\<forall>tk \<in> set ex_ticks. scanned tk" by (simp add: ex_ticks_def ex_tick_scanned)
  from watcher_refines [OF this, of ex_tuning 1]
  show "filter (about 1) (snd (run_watcher ex_tuning watcher_new ex_ticks)) = snd (game_run ex_tuning 1 Idle ex_ticks)"
    by (metis snd_conv)
  show "snd (game_run ex_tuning 1 Idle (ex_ticks @ [ex_tick 12 False])) = [GameStarted 1 7 0, GameStopped 1 12000000000]"
    by code_simp
qed

theorem stop_debounced_witness:
  "\<exists>gone mid. gone_since 1 gone mid (ex_ticks @ [ex_tick 12 False]) \<and> tk_armed gone + 5000000000 \<le> 12000000000"
proof -
  have all: "\<forall>x \<in> set (ex_ticks @ [ex_tick 12 False]). scanned x" by (simp add: ex_ticks_def ex_tick_scanned)
  have "GameStopped 1 12000000000 \<in> set (snd (watch_step ex_tuning (fst (run_watcher ex_tuning watcher_new ex_ticks)) (ex_tick 12 False)))"
    by code_simp
  with stop_debounced [OF all, of 1 12000000000 ex_tuning] show ?thesis
    by (auto simp: ex_tuning_def ex_tick_def Let_def)
qed

end
