(* ===== verification/Daemon.thy ===== *)
theory Daemon
  imports Engine Watcher
begin

text \<open>
  The running daemon: its WebSocket client (\<open>savr-daemon/src/ws.rs\<close>), its start
  (\<open>savr-daemon/src/main.rs\<close>), and the steps its tasks take on the shared engine: a request of
  the app, a detection event, a backup that an event has spawned, a push of the server, a retry of
  the outbox, a refresh of the manifest. A step is one operation of the engine; operations of
  different tasks interleave in any order.
\<close>

section \<open>The WebSocket client\<close>

definition ws_url :: "string \<Rightarrow> string" where
  "ws_url server_url =
     (let base = trim_end_matches (CHR ''/'') server_url;
          swapped = (case strip_prefix base ''https://'' of
                       Some rest \<Rightarrow> ''wss://'' @ rest
                     | None \<Rightarrow> (case strip_prefix base ''http://'' of
                                 Some rest \<Rightarrow> ''ws://'' @ rest
                               | None \<Rightarrow> base))
      in swapped @ ''/ws'')"

fun handle :: "'n host \<Rightarrow> ambient \<Rightarrow> server_msg \<Rightarrow> 'n engine \<Rightarrow> 'n engine option" where
  "handle h ab (VersionAvailable g v seq) ng = on_version_available h ab g v ng"
| "handle h ab (ConflictMsg g tips) ng = Some (record_ws_conflict g tips ng)"
| "handle h ab (ConfigUpdated tag) ng = Some (fst (pull_config h ab ng))"
| "handle h ab (DeviceAdded i) ng = Some ng"
| "handle h ab Pong ng = Some ng"

text \<open>What the select loop of a connection wakes up for, and what it sends.\<close>

datatype ws_message = TextFrame string | PingFrame "byte list" | CloseFrame | OtherFrame

datatype ws_input = ShutdownSet | HeartbeatTick | Frame ws_message | FrameError string | StreamEnd

datatype ws_sent = SendMsg client_msg | SendPong "byte list" | SendClose

text \<open>The inputs of one connection, each with what the system supplies then; sending does not fail
  here. The result is \<open>None\<close> while the connection is still open.\<close>

fun ws_loop ::
  "'n host \<Rightarrow> (string \<Rightarrow> server_msg option) \<Rightarrow> (ambient \<times> ws_input) list \<Rightarrow> ws_sent list \<Rightarrow> 'n engine \<Rightarrow>
   ('n engine \<times> ws_sent list \<times> (string + unit) option) option" where
  "ws_loop h decode [] sent ng = Some (ng, sent, None)"
| "ws_loop h decode ((ab, ShutdownSet) # ins) sent ng = Some (ng, sent @ [SendClose], Some (Inr ()))"
| "ws_loop h decode ((ab, HeartbeatTick) # ins) sent ng = ws_loop h decode ins (sent @ [SendMsg Ping]) ng"
| "ws_loop h decode ((ab, StreamEnd) # ins) sent ng = Some (ng, sent, Some (Inr ()))"
| "ws_loop h decode ((ab, FrameError e) # ins) sent ng = Some (ng, sent, Some (Inl e))"
| "ws_loop h decode ((ab, Frame (TextFrame t)) # ins) sent ng =
     (case decode t of
        None \<Rightarrow> ws_loop h decode ins sent ng
      | Some msg \<Rightarrow> Option.bind (handle h ab msg ng) (ws_loop h decode ins sent))"
| "ws_loop h decode ((ab, Frame (PingFrame p)) # ins) sent ng = ws_loop h decode ins (sent @ [SendPong p]) ng"
| "ws_loop h decode ((ab, Frame CloseFrame) # ins) sent ng = Some (ng, sent, Some (Inr ()))"
| "ws_loop h decode ((ab, Frame OtherFrame) # ins) sent ng = ws_loop h decode ins sent ng"

text \<open>\<open>connect\<close> is the result of opening the socket with this URL and this bearer token.\<close>

definition connect_and_run ::
  "'n host \<Rightarrow> (string \<Rightarrow> server_msg option) \<Rightarrow> (string \<Rightarrow> string \<Rightarrow> string + unit) \<Rightarrow> (ambient \<times> ws_input) list \<Rightarrow>
   'n engine \<Rightarrow> ('n engine \<times> ws_sent list \<times> (string + unit) option) option" where
  "connect_and_run h decode connect ins ng =
     (case cl_access (dm_client (ng_daemon ng)) of
        None \<Rightarrow> Some (ng, [], Some (Inl ''no access token yet; not paired''))
      | Some token \<Rightarrow>
          (case ng_device_id ng of
             None \<Rightarrow> Some (ng, [], Some (Inl ''no device id yet; not paired''))
           | Some device \<Rightarrow>
               (case connect (ws_url (dc_server_url (ng_config ng))) (''Bearer '' @ token) of
                  Inl e \<Rightarrow> Some (ng, [], Some (Inl e))
                | Inr _ \<Rightarrow>
                    ws_loop h decode ins [SendMsg (Hello device Map.empty), SendMsg (Subscribe [''*''])]
                      (ng\<lparr>ng_server_connected := True\<rparr>))))"

text \<open>The attempt counter after a connection ended, and the pause before the next one (in
  seconds).\<close>

definition saturating_add1 :: "32 word \<Rightarrow> 32 word" where
  "saturating_add1 n = (if n = -1 then -1 else n + 1)"

definition next_attempt :: "string + unit \<Rightarrow> 32 word \<Rightarrow> 32 word" where
  "next_attempt r attempt = (case r of Inr _ \<Rightarrow> 0 | Inl _ \<Rightarrow> saturating_add1 attempt)"

fun ws_delays :: "32 word \<Rightarrow> (string + unit) list \<Rightarrow> nat list" where
  "ws_delays attempt [] = []"
| "ws_delays attempt (r # rs) =
     (let a = next_attempt r attempt in backoff_delay a # ws_delays a rs)"

section \<open>Start\<close>

definition paired_url :: "(string \<Rightarrow> string option) \<Rightarrow> local_state \<Rightarrow> daemon_config \<Rightarrow> daemon_config" where
  "paired_url var s cfg =
     (if var ''SAVR_SERVER_URL'' = None
      then (case get_meta s ''server_url'' of Some url \<Rightarrow> cfg\<lparr>dc_server_url := url\<rparr> | None \<Rightarrow> cfg)
      else cfg)"

text \<open>The first catalog, from what is on disk, then the manifest: fetched, or the cached one.\<close>

definition first_catalog ::
  "'n host \<Rightarrow> ambient \<Rightarrow> (string \<times> uuid) list \<Rightarrow> string + manifest \<Rightarrow> string + manifest option \<Rightarrow> 'n engine \<Rightarrow>
   string + 'n engine" where
  "first_catalog h ab defaults fetched cached ng =
     (let ng1 = fst (refresh_games h ab False (fst (ensure_default_roots defaults ng)))
      in case fetched of
           Inr mf \<Rightarrow> Inr (fst (refresh_games h ab True (set_manifest mf ng1)))
         | Inl _ \<Rightarrow>
             bind_res cached (\<lambda>c. case c of
               Some mf \<Rightarrow> Inr (fst (refresh_games h ab True (set_manifest mf ng1)))
             | None \<Rightarrow> Inr ng1))"

definition start ::
  "'n host \<Rightarrow> ambient \<Rightarrow> (string \<Rightarrow> string option) \<Rightarrow> daemon_config \<Rightarrow> local_state \<Rightarrow> string + credentials option \<Rightarrow>
   path \<Rightarrow> (blake3_hash \<rightharpoonup> byte list) \<Rightarrow> node \<Rightarrow> 'n \<Rightarrow> (string \<times> uuid) list \<Rightarrow> string + manifest \<Rightarrow>
   string + manifest option \<Rightarrow> string + 'n engine" where
  "start h ab var cfg s loaded scratch cache fs net defaults fetched cached =
     (let s1 = close_orphaned_sessions s
      in bind_res (engine_new h (paired_url var s1 cfg) s1 loaded scratch cache fs net)
           (first_catalog h ab defaults fetched cached))"

text \<open>The daily refresh: \<open>Inr (mf, not_modified)\<close>.\<close>

definition manifest_tick :: "'n host \<Rightarrow> ambient \<Rightarrow> string + manifest \<times> bool \<Rightarrow> 'n engine \<Rightarrow> 'n engine" where
  "manifest_tick h ab outcome ng =
     (case outcome of
        Inr (mf, not_modified) \<Rightarrow>
          if not_modified then ng else fst (refresh_games h ab True (set_manifest mf ng))
      | Inl _ \<Rightarrow> ng)"

section \<open>The steps of the daemon\<close>

text \<open>The engine and the backups that events have spawned and that have not run yet. The label says
  which task took the step.\<close>

record 'n runtime =
  pc_engine :: "'n engine"
  pc_spawned :: "uuid list"

datatype label =
    Answered gui_request daemon_msg
  | Detected detection_event
  | BackedUp uuid
  | Pushed server_msg
  | OutboxTick
  | ManifestTick
  | Link bool

inductive step :: "'n host \<Rightarrow> 'n runtime \<Rightarrow> label \<Rightarrow> 'n runtime \<Rightarrow> bool" for h :: "'n host" where
  answer: "handle_request h ab req (pc_engine p) = Some (ng, reply) \<Longrightarrow>
    step h p (Answered req reply) (p\<lparr>pc_engine := ng\<rparr>)"
| event: "on_event ev (pc_engine p) = (ng, todo) \<Longrightarrow>
    step h p (Detected ev)
      (p\<lparr>pc_engine := ng, pc_spawned := pc_spawned p @ (case todo of None \<Rightarrow> [] | Some g \<Rightarrow> [g])\<rparr>)"
| backup: "g \<in> set (pc_spawned p) \<Longrightarrow>
    step h p (BackedUp g) (p\<lparr>pc_engine := trigger_backup h ab g (pc_engine p), pc_spawned := remove1 g (pc_spawned p)\<rparr>)"
| push: "handle h ab msg (pc_engine p) = Some ng \<Longrightarrow> step h p (Pushed msg) (p\<lparr>pc_engine := ng\<rparr>)"
| outbox: "step h p OutboxTick (p\<lparr>pc_engine := flush_outbox h ab (pc_engine p)\<rparr>)"
| manifest: "step h p ManifestTick (p\<lparr>pc_engine := manifest_tick h ab outcome (pc_engine p)\<rparr>)"
| link: "step h p (Link up) (p\<lparr>pc_engine := (pc_engine p)\<lparr>ng_server_connected := up\<rparr>\<rparr>)"

inductive_cases stepE: "step h p l p'"

inductive reachable :: "'n host \<Rightarrow> 'n runtime \<Rightarrow> bool" for h :: "'n host" where
  started: "start h ab var cfg s loaded scratch cache fs net defaults fetched cached = Inr ng \<Longrightarrow>
    reachable h \<lparr>pc_engine = ng, pc_spawned = []\<rparr>"
| steps: "reachable h p \<Longrightarrow> step h p l p' \<Longrightarrow> reachable h p'"

section \<open>Frames\<close>

lemma quiet_plays: "quiet ng ng' \<Longrightarrow> plays_kept ng ng'"
  by (simp add: quiet_def)

lemma plays_kept_simps [simp]:
  "plays_kept ng ng" "plays_kept ng (emit ev ng') = plays_kept ng ng'"
  "plays_kept ng (ng'\<lparr>ng_conflicts := cs\<rparr>) = plays_kept ng ng'"
  "plays_kept ng (ng'\<lparr>ng_server_connected := b\<rparr>) = plays_kept ng ng'"
  by (simp_all add: plays_kept_def emit_def)

text \<open>Requests that neither restore, back up nor resolve are quiet.\<close>

fun plain_request :: "gui_request \<Rightarrow> bool" where
  "plain_request (BackupNow g) = False"
| "plain_request (RestoreReq g v) = False"
| "plain_request (ResolveConflict g c) = False"
| "plain_request _ = True"

lemma plain_request_quiet:
  "handle_request h ab req ng = Some (ng', m) \<Longrightarrow> plain_request req \<Longrightarrow> quiet ng ng'"
  by (cases req)
     (auto simp: Let_def update_config_def split: prod.splits intro!: quiet_daemon refresh_after push_config_kept
       dest: engine_add_root_quiet engine_pair_quiet ls_play_add split: sum.splits)

lemma backup_now_frame:
  assumes "backup_now h ab g ng = (ng', m)"
  shows "plays_kept ng ng' \<and> dm_fs (ng_daemon ng') = dm_fs (ng_daemon ng) \<and>
    (ng_conflicts ng' = ng_conflicts ng \<or> (\<exists>tips. ng_conflicts ng' = (ng_conflicts ng)(g \<mapsto> tips)))"
proof (cases "map_of (ng_games ng) g")
  case None
  with assms show ?thesis by (simp add: backup_now_def)
next
  case (Some entry)
  obtain ng1 r where r: "run_backup_for h ab entry ng = (ng1, r)" by (metis surj_pair)
  from assms Some r have "ng' = ng1 \<or> (\<exists>tips. ng' = ng1\<lparr>ng_conflicts := (ng_conflicts ng1)(g \<mapsto> tips)\<rparr>)"
    by (auto simp: backup_now_def record_conflict_def Let_def split: sum.splits backup_outcome.splits)
  with run_backup_for_quiet [OF r] show ?thesis by (auto simp: quiet_def)
qed

lemma trigger_backup_frame:
  "plays_kept ng (trigger_backup h ab g ng) \<and> dm_fs (ng_daemon (trigger_backup h ab g ng)) = dm_fs (ng_daemon ng) \<and>
    (ng_conflicts (trigger_backup h ab g ng) = ng_conflicts ng \<or>
     (\<exists>tips. ng_conflicts (trigger_backup h ab g ng) = (ng_conflicts ng)(g \<mapsto> tips)))"
proof (cases "map_of (ng_games ng) g")
  case None
  then show ?thesis by (simp add: trigger_backup_def)
next
  case (Some entry)
  obtain ng1 r where r: "run_backup_for h ab entry ng = (ng1, r)" by (metis surj_pair)
  have q: "plays_kept ng ng1" "dm_fs (ng_daemon ng1) = dm_fs (ng_daemon ng)" "ng_conflicts ng1 = ng_conflicts ng"
    using run_backup_for_quiet [OF r] by (simp_all add: quiet_def)
  have em: "ng_daemon (emit ev n) = ng_daemon n" "ng_conflicts (emit ev n) = ng_conflicts n" for ev n
    by (simp_all add: emit_def)
  show ?thesis
  proof (cases r)
    case (Inl e)
    with Some r q show ?thesis by (simp add: trigger_backup_def)
  next
    case (Inr out)
    with Some r q show ?thesis
      by (cases out) (auto simp: trigger_backup_def record_conflict_def Let_def em)
  qed
qed

lemma engine_resolve_conflict_frame:
  assumes "engine_resolve_conflict h g choice ng = (ng', m)"
  shows "plays_kept ng ng' \<and> dm_fs (ng_daemon ng') = dm_fs (ng_daemon ng) \<and>
    (ng_conflicts ng' = ng_conflicts ng \<or> m = Ok \<and> ng_conflicts ng' = (ng_conflicts ng)(g := None))"
  using assms
  by (auto simp: engine_resolve_conflict_def Let_def plays_kept_def split: option.splits prod.splits sum.splits resolve_choice.splits)

lemma record_ws_message:
  "plays_kept ng (record_ws_conflict g tips ng) \<and>
   dm_fs (ng_daemon (record_ws_conflict g tips ng)) = dm_fs (ng_daemon ng) \<and>
   (ng_conflicts (record_ws_conflict g tips ng) = ng_conflicts ng \<or>
    (\<exists>t. ng_conflicts (record_ws_conflict g tips ng) = (ng_conflicts ng)(g \<mapsto> t)))"
  by (auto simp: record_ws_conflict_def emit_def plays_kept_def split: list.split)

lemma pull_config_quiet: "quiet ng (fst (pull_config h ab ng))"
proof (cases "is_authenticated (dm_client (ng_daemon ng))")
  case False
  then show ?thesis by (simp add: pull_config_def)
next
  case True
  obtain c n r where g: "get_config_call (e_http (ho_env h)) (dm_client (ng_daemon ng)) (dm_net (ng_daemon ng)) = ((c, n), r)"
    by (metis surj_pair)
  show ?thesis
  proof (cases r)
    case (Inl e)
    with True g show ?thesis by (simp add: pull_config_def Let_def quiet_daemon)
  next
    case (Inr cfg)
    with True g show ?thesis by (simp add: pull_config_def Let_def) (intro refresh_after, simp add: kept_def)
  qed
qed

lemma flush_outbox_quiet: "quiet ng (flush_outbox h ab ng)"
  by (simp add: flush_outbox_def quiet_daemon retry_outbox_kept)

lemma manifest_tick_quiet: "quiet ng (manifest_tick h ab outcome ng)"
proof -
  have "quiet ng (fst (refresh_games h ab True (set_manifest mf ng)))" for mf
    by (rule quiet_trans [OF _ refresh_games_quiet]) (simp add: set_manifest_def)
  then show ?thesis by (auto simp: manifest_tick_def split: sum.split)
qed

lemma handle_frame:
  assumes "handle h ab msg ng = Some ng'"
  shows "plays_kept ng ng' \<and> (\<forall>g. ng_conflicts ng g \<noteq> None \<longrightarrow> ng_conflicts ng' g \<noteq> None)"
proof (cases msg)
  case (VersionAvailable g v seq)
  with assms restore_facts [of h ab g v ng] show ?thesis
    by (auto simp: on_version_available_def emit_def plays_kept_def split: if_splits)
next
  case (ConflictMsg g tips)
  with assms record_ws_message [of ng g tips] show ?thesis by auto
next
  case (ConfigUpdated tag)
  with assms pull_config_quiet [of ng h ab] show ?thesis by (auto simp: quiet_def)
qed (use assms in auto)

lemma request_frame:
  assumes "handle_request h ab req ng = Some (ng', m)"
  shows "plays_kept ng ng' \<and>
    (\<forall>g. ng_conflicts ng g \<noteq> None \<longrightarrow> ng_conflicts ng' g \<noteq> None \<or> (\<exists>c. req = ResolveConflict g c \<and> m = Ok))"
proof (cases "plain_request req")
  case True
  with plain_request_quiet [OF assms] show ?thesis by (auto simp: quiet_def)
next
  case False
  then consider (b) g where "req = BackupNow g" | (r) g v where "req = RestoreReq g v"
    | (c) g choice where "req = ResolveConflict g choice"
    by (cases req) auto
  then show ?thesis
  proof cases
    case b
    with assms backup_now_frame [of h ab g ng ng' m] show ?thesis by auto
  next
    case r
    with assms restore_facts [of h ab g v ng ng' m] show ?thesis by simp
  next
    case c
    with assms engine_resolve_conflict_frame [of h g choice ng ng' m] show ?thesis by auto
  qed
qed

section \<open>Conflicts stay pending\<close>


section \<open>Play statistics\<close>

definition played :: "'n engine \<Rightarrow> bool" where
  "played ng = (\<forall>g \<in> ng_running ng. \<exists>r. ls_play (dm_state (ng_daemon ng)) g = Some r \<and> pl_last_played r \<noteq> None)"

lemma plays_kept_played: "plays_kept ng ng' \<Longrightarrow> played ng \<Longrightarrow> played ng'"
  by (simp add: plays_kept_def played_def)

lemma on_event_played: "played ng \<Longrightarrow> played (fst (on_event ev ng))"
  by (cases ev)
     (auto simp: played_def Let_def emit_def play_start_def play_stop_def split: option.splits)

lemma ensure_default_running: "ng_running (fst (ensure_default_roots defaults ng)) = ng_running ng"
  by (simp add: ensure_default_roots_def Let_def split_beta)

lemma refresh_running: "ng_running (fst (refresh_games h ab enrich ng)) = ng_running ng"
  using refresh_games_quiet [of ng h ab enrich] by (simp add: quiet_def plays_kept_def)

lemma start_running:
  assumes "start h ab var cfg s loaded scratch cache fs net defaults fetched cached = Inr ng"
  shows "ng_running ng = {}"
proof -
  from assms obtain ng0 where new: "engine_new h (paired_url var (close_orphaned_sessions s) cfg)
      (close_orphaned_sessions s) loaded scratch cache fs net = Inr ng0"
    and first: "first_catalog h ab defaults fetched cached ng0 = Inr ng"
    by (auto simp: start_def Let_def bind_res_Inr_iff)
  from new have "ng_running ng0 = {}" by (auto simp: engine_new_def Let_def bind_res_Inr_iff)
  with first show ?thesis
    by (auto simp: first_catalog_def Let_def bind_res_Inr_iff refresh_running ensure_default_running set_manifest_def
        split: sum.splits option.splits)
qed

lemma step_played:
  assumes "step h p l p'" "played (pc_engine p)"
  shows "played (pc_engine p')"
  using assms
proof (cases rule: step.cases)
  case (answer ab req ng reply)
  with request_frame [OF answer(3)] assms(2) show ?thesis by (auto intro: plays_kept_played)
next
  case (event ev ng todo)
  with on_event_played [OF assms(2), of ev] show ?thesis by simp
next
  case (backup g' ab)
  with assms(2) trigger_backup_frame [of "pc_engine p" h ab g'] show ?thesis by (auto intro: plays_kept_played)
next
  case (push ab msg ng)
  with handle_frame [OF push(3)] assms(2) show ?thesis by (auto intro: plays_kept_played)
next
  case (outbox ab)
  with assms(2) quiet_plays [OF flush_outbox_quiet, of "pc_engine p" h ab] show ?thesis by (auto intro: plays_kept_played)
next
  case (manifest ab outcome)
  with assms(2) quiet_plays [OF manifest_tick_quiet, of "pc_engine p" h ab outcome] show ?thesis
    by (auto intro: plays_kept_played)
next
  case (link up)
  with assms(2) show ?thesis by (simp add: played_def)
qed

lemma reachable_played: "reachable h p \<Longrightarrow> played (pc_engine p)"
proof (induction rule: reachable.induct)
  case (started ab var cfg s loaded scratch cache fs net defaults fetched cached ng)
  then show ?case by (simp add: played_def start_running)
next
  case (steps p l p')
  then show ?case by (simp add: step_played)
qed


section \<open>The catalog in use\<close>

definition catalog_at :: "'n engine \<Rightarrow> bool" where
  "catalog_at ng = catalog_ok (ng_config ng)
     \<lparr>ca_daemon = ng_daemon ng, ca_games = ng_games ng, ca_index = ng_exe_index ng, ca_seen = []\<rparr>"

lemma catalog_at_same [simp]:
  "catalog_at (ng\<lparr>ng_daemon := d\<rparr>) = catalog_at ng" "catalog_at (ng\<lparr>ng_conflicts := cs\<rparr>) = catalog_at ng"
  "catalog_at (ng\<lparr>ng_events := evs\<rparr>) = catalog_at ng" "catalog_at (ng\<lparr>ng_running := rs\<rparr>) = catalog_at ng"
  "catalog_at (ng\<lparr>ng_manifest := mf\<rparr>) = catalog_at ng" "catalog_at (ng\<lparr>ng_learn_mode := l\<rparr>) = catalog_at ng"
  "catalog_at (ng\<lparr>ng_server_connected := b\<rparr>) = catalog_at ng" "catalog_at (ng\<lparr>ng_secret := sc\<rparr>) = catalog_at ng"
  "catalog_at (ng\<lparr>ng_device_id := i\<rparr>) = catalog_at ng"
  by (simp_all add: catalog_at_def catalog_ok_def)

lemma catalog_at_emit [simp]: "catalog_at (emit ev ng) = catalog_at ng"
  by (simp add: emit_def)

lemma refresh_catalog_at: "catalog_at ng \<Longrightarrow> catalog_at (fst (refresh_games h ab enrich ng))"
proof (cases "build_catalog h (ab_mint ab) (ng_config ng) (ng_manifest ng) enrich (ng_daemon ng)")
  case (Inl e)
  then show "catalog_at ng \<Longrightarrow> ?thesis" by (simp add: refresh_games_def)
next
  case (Inr cat)
  from catalog_consistent [OF Inr] have "catalog_ok (ng_config ng) cat" ..
  then have "catalog_at (ng\<lparr>ng_games := ca_games cat, ng_exe_index := ca_index cat\<rparr>)"
    by (simp add: catalog_at_def catalog_ok_def)
  then show "catalog_at ng \<Longrightarrow> ?thesis" by (simp add: refresh_games_def Inr Let_def catalog_at_def catalog_ok_def emit_def)
qed

lemma run_backup_for_catalog: "run_backup_for h ab entry ng = (ng', r) \<Longrightarrow> catalog_at ng' = catalog_at ng"
  by (auto simp: run_backup_for_def split: prod.splits)

lemma record_conflict_catalog: "catalog_at (fst (record_conflict g t m ng)) = catalog_at ng"
  by (simp add: record_conflict_def Let_def)

lemma backup_now_catalog: "backup_now h ab g ng = (ng', m) \<Longrightarrow> catalog_at ng' = catalog_at ng"
proof (cases "map_of (ng_games ng) g")
  case (Some entry)
  obtain ng1 r where r: "run_backup_for h ab entry ng = (ng1, r)" by (metis surj_pair)
  with Some run_backup_for_catalog [OF r] show "backup_now h ab g ng = (ng', m) \<Longrightarrow> ?thesis"
    by (auto simp: backup_now_def record_conflict_def Let_def split: sum.splits backup_outcome.splits)
qed (simp add: backup_now_def)

lemma trigger_backup_catalog: "catalog_at (trigger_backup h ab g ng) = catalog_at ng"
proof (cases "map_of (ng_games ng) g")
  case (Some entry)
  obtain ng1 r where r: "run_backup_for h ab entry ng = (ng1, r)" by (metis surj_pair)
  with Some run_backup_for_catalog [OF r] show ?thesis
    by (auto simp: trigger_backup_def record_conflict_catalog split: sum.splits backup_outcome.splits)
qed (simp add: trigger_backup_def)

lemma restore_catalog: "restore h ab g v ng = Some (ng', m) \<Longrightarrow> catalog_at ng' = catalog_at ng"
  by (auto simp: restore_def split: option.splits)

lemma request_catalog: "handle_request h ab req ng = Some (ng', m) \<Longrightarrow> catalog_at ng \<Longrightarrow> catalog_at ng'"
  by (cases req)
     (auto simp: Let_def engine_add_root_def update_config_def engine_resolve_conflict_def engine_pair_def refresh_catalog_at
       split: prod.splits sum.splits option.splits resolve_choice.splits dest: backup_now_catalog restore_catalog)

lemma handle_catalog: "handle h ab msg ng = Some ng' \<Longrightarrow> catalog_at ng \<Longrightarrow> catalog_at ng'"
  by (cases msg)
     (auto simp: Let_def on_version_available_def record_ws_conflict_def pull_config_def refresh_catalog_at
       split: if_splits prod.splits sum.splits list.splits dest: restore_catalog)

lemma step_catalog: "step h p l p' \<Longrightarrow> catalog_at (pc_engine p) \<Longrightarrow> catalog_at (pc_engine p')"
proof (induction rule: step.induct)
  case (event ev p ng todo)
  then show ?case by (cases ev) (auto simp: Let_def)
next
  case (manifest p ab outcome)
  then show ?case by (auto simp: manifest_tick_def set_manifest_def refresh_catalog_at split: sum.split)
qed (auto simp: trigger_backup_catalog flush_outbox_def dest: request_catalog handle_catalog)

lemma reachable_catalog: "reachable h p \<Longrightarrow> catalog_at (pc_engine p)"
proof (induction rule: reachable.induct)
  case (started ab var cfg s loaded scratch cache fs net defaults fetched cached ng)
  then obtain ng0 where new: "engine_new h (paired_url var (close_orphaned_sessions s) cfg)
      (close_orphaned_sessions s) loaded scratch cache fs net = Inr ng0"
    and first: "first_catalog h ab defaults fetched cached ng0 = Inr ng"
    by (auto simp: start_def Let_def bind_res_Inr_iff)
  from new have "catalog_at ng0"
    by (auto simp: engine_new_def Let_def bind_res_Inr_iff catalog_at_def catalog_ok_def index_games_def exe_index_new_def)
  then have "catalog_at (fst (ensure_default_roots defaults ng0))"
    by (simp add: ensure_default_roots_def Let_def split_beta)
  with first show ?case
    by (auto simp: first_catalog_def Let_def bind_res_Inr_iff refresh_catalog_at set_manifest_def
        split: sum.splits option.splits)
next
  case (steps p l p')
  then show ?case by (simp add: step_catalog)
qed

lemma scan_loop_known:
  assumes "\<And>exe g c. match_exe fc idx exe = Some (g, c) \<Longrightarrow> g \<in> G"
  shows "fst ` set out \<subseteq> G \<Longrightarrow> fst ` set (scan_loop fc idx ps seen out) \<subseteq> G"
proof (induction ps arbitrary: seen out)
  case (Cons proc ps)
  obtain pid exe where proc: "proc = (pid, exe)" by (cases proc)
  show ?case
  proof (cases exe)
    case None
    with Cons proc show ?thesis by simp
  next
    case (Some e)
    let ?out = "case match_exe fc idx e of None \<Rightarrow> out | Some (g, conf) \<Rightarrow> if map_of out g = None then out @ [(g, pid)] else out"
    have "fst ` set ?out \<subseteq> G" using Cons.prems assms [of e] by (auto split: option.split)
    with Cons proc Some show ?thesis by simp
  qed
qed simp

text \<open>C16: the catalog is consistent at any time, and the watcher knows no other game. In every state the
  daemon can reach there is one entry per identifier, stored under its own identifier; a title
  that the configuration ignores is listed only if its owner registered it by hand; two
  entries share a normalized title only if both come from a Steam library; and whatever processes
  run on the machine, a scan with the index in use attributes them only to games that are
  listed.\<close>

theorem catalog_always_consistent:
  assumes "reachable h p"
  shows "catalog_at (pc_engine p) \<and>
    (\<forall>g pid. (g, pid) \<in> set (scan_running_games (ho_fold h) (ng_exe_index (pc_engine p)) procs) \<longrightarrow>
       map_of (ng_games (pc_engine p)) g \<noteq> None)"
proof -
  let ?ng = "pc_engine p"
  from assms have ok: "catalog_at ?ng" by (rule reachable_catalog)
  then have "index_games (ng_exe_index ?ng) \<subseteq> fst ` set (ng_games ?ng)" by (simp add: catalog_at_def catalog_ok_def)
  then have "g \<in> fst ` set (ng_games ?ng)" if "match_exe (ho_fold h) (ng_exe_index ?ng) exe = Some (g, c)" for exe g c
    using match_exe_games [OF that] by blast
  then have known: "fst ` set (scan_running_games (ho_fold h) (ng_exe_index ?ng) procs) \<subseteq> fst ` set (ng_games ?ng)"
    unfolding scan_running_games_def by (rule scan_loop_known) simp_all
  have "g \<in> fst ` set (ng_games ?ng)"
    if "(g, pid) \<in> set (scan_running_games (ho_fold h) (ng_exe_index ?ng) procs)" for g pid
    using known imageI [OF that, of fst] by auto
  with ok show ?thesis by (simp add: map_of_eq_None_iff)
qed

section \<open>Saves\<close>

text \<open>A restore that changed a file outside the scratch directory was allowed and complete.\<close>

lemma restore_changes:
  assumes "restore h ab g v ng = Some (ng', m)" and "payload_codec (ho_env h)"
    and "\<not> prefix (loc (ng_scratch ng)) q" and "files (dm_fs (ng_daemon ng')) q \<noteq> files (dm_fs (ng_daemon ng)) q"
  shows "g \<notin> ng_running ng \<and> map_of (ng_games ng) g \<noteq> None \<and>
    (\<exists>chain meta. is_chain chain \<and> v_id (last chain) = v \<and> (\<forall>x \<in> set chain. verified (ho_env h) meta x))"
proof (cases "map_of (ng_games ng) g")
  case None
  with assms show ?thesis by (simp add: restore_def)
next
  case (Some entry)
  let ?req = "\<lparr>rq_game_id = g, rq_version_id = v, rq_anchor = rg_anchor (ge_resolved entry),
                rq_patterns = rg_patterns (ge_resolved entry), rq_registry_keys = rg_registry_keys (ge_resolved entry)\<rparr>"
  from assms(1) Some obtain d r where run: "run_restore (ho_env h) (device_or_nil ng) ?req (g \<in> ng_running ng) (ng_scratch ng)
      (ab_meta ab) (ab_fresh ab) (ab_now ab) (ng_daemon ng) = Some (d, r)" and ng': "ng' = ng\<lparr>ng_daemon := d\<rparr>"
    by (auto simp: restore_def)
  from run_restore_cases [OF run assms(2)] assms(3,4) ng' Some show ?thesis by auto
qed

lemma request_changes:
  assumes "handle_request h ab req ng = Some (ng', m)" and "dm_fs (ng_daemon ng') \<noteq> dm_fs (ng_daemon ng)"
  shows "\<exists>g v. req = RestoreReq g v \<and> restore h ab g v ng = Some (ng', m)"
proof (cases "plain_request req")
  case True
  with plain_request_quiet [OF assms(1)] assms(2) show ?thesis by (simp add: quiet_def)
next
  case False
  with assms show ?thesis by (cases req) (auto dest: backup_now_frame engine_resolve_conflict_frame)
qed

lemma handle_changes:
  assumes "handle h ab msg ng = Some ng'" and "dm_fs (ng_daemon ng') \<noteq> dm_fs (ng_daemon ng)"
  shows "\<exists>g v seq m. msg = VersionAvailable g v seq \<and> autopull_for ng g = Auto \<and> restore h ab g v ng = Some (ng', m)"
proof (cases msg)
  case (VersionAvailable g v seq)
  with assms show ?thesis by (auto simp: on_version_available_def emit_def split: if_splits)
next
  case (ConflictMsg g tips)
  with assms record_ws_message [of ng g tips] show ?thesis by simp
next
  case (ConfigUpdated tag)
  with assms pull_config_quiet [of ng h ab] show ?thesis by (auto simp: quiet_def)
qed (use assms in auto)

text \<open>C7: saves change only by a restore that may. If a step of the daemon changes a file outside its
  scratch directory, then the step restored a version, because the user asked for it or because
  the server announced it and the policy for the game is to pull; the game is in the catalog and not
  running; and a whole chain of archives up to that version had been downloaded and verified.\<close>

theorem saves_change_by_restore:
  assumes st: "step h p l p'" and codec: "payload_codec (ho_env h)"
    and out: "\<not> prefix (loc (ng_scratch (pc_engine p))) q"
    and diff: "files (dm_fs (ng_daemon (pc_engine p'))) q \<noteq> files (dm_fs (ng_daemon (pc_engine p))) q"
  shows "\<exists>g v. ((\<exists>reply. l = Answered (RestoreReq g v) reply) \<or>
       (\<exists>seq. l = Pushed (VersionAvailable g v seq) \<and> autopull_for (pc_engine p) g = Auto)) \<and>
     g \<notin> ng_running (pc_engine p) \<and> map_of (ng_games (pc_engine p)) g \<noteq> None \<and>
     (\<exists>chain meta. is_chain chain \<and> v_id (last chain) = v \<and> (\<forall>x \<in> set chain. verified (ho_env h) meta x))"
  using st
proof (cases rule: step.cases)
  case (answer ab req ng reply)
  with diff have "dm_fs (ng_daemon ng) \<noteq> dm_fs (ng_daemon (pc_engine p))" by auto
  from request_changes [OF answer(3) this] obtain g v where "req = RestoreReq g v"
    and r: "restore h ab g v (pc_engine p) = Some (ng, reply)" by blast
  with answer restore_changes [OF r codec out] diff show ?thesis by auto
next
  case (event ev ng todo)
  with diff show ?thesis by (cases ev) (auto simp: Let_def emit_def)
next
  case (backup g' ab)
  with diff trigger_backup_frame [of "pc_engine p" h ab g'] show ?thesis by simp
next
  case (push ab msg ng)
  with diff have "dm_fs (ng_daemon ng) \<noteq> dm_fs (ng_daemon (pc_engine p))" by auto
  from handle_changes [OF push(3) this] obtain g v seq m where "msg = VersionAvailable g v seq"
    "autopull_for (pc_engine p) g = Auto" and r: "restore h ab g v (pc_engine p) = Some (ng, m)" by blast
  with push restore_changes [OF r codec out] diff show ?thesis by auto
next
  case (outbox ab)
  with diff flush_outbox_quiet [of "pc_engine p" h ab] show ?thesis by (simp add: quiet_def)
next
  case (manifest ab outcome)
  with diff manifest_tick_quiet [of "pc_engine p" h ab outcome] show ?thesis by (simp add: quiet_def)
next
  case (link up)
  with diff show ?thesis by simp
qed

section \<open>Spawned backups\<close>

inductive run :: "'n host \<Rightarrow> 'n runtime \<Rightarrow> label list \<Rightarrow> 'n runtime \<Rightarrow> bool" for h :: "'n host" where
  run_nil: "run h p [] p"
| run_step: "step h p l p1 \<Longrightarrow> run h p1 ls p2 \<Longrightarrow> run h p (l # ls) p2"

inductive_cases run_consE: "run h p (l # ls) p'"
inductive_cases run_nilE: "run h p [] p'"

lemma spawned_step:
  "step h p l p' \<Longrightarrow> g \<in> set (pc_spawned p) \<Longrightarrow> l \<noteq> BackedUp g \<Longrightarrow> g \<in> set (pc_spawned p')"
  by (cases rule: step.cases) (auto, metis in_set_remove1)

lemma spawned_run:
  "run h p ls p' \<Longrightarrow> g \<in> set (pc_spawned p) \<Longrightarrow> BackedUp g \<notin> set ls \<Longrightarrow> g \<in> set (pc_spawned p')"
  by (induction rule: run.induct) (auto dest: spawned_step)

text \<open>What a backup of a game in the catalog may leave behind.\<close>

definition backup_result ::
  "'n host \<Rightarrow> ambient \<Rightarrow> uuid \<Rightarrow> game_entry \<Rightarrow> 'n engine \<Rightarrow> 'n engine \<Rightarrow> daemon_error + backup_outcome \<Rightarrow> bool" where
  "backup_result h ab g entry ng ng' r =
     (let e = ho_env h; job = backup_job_of entry; dev = device_or_nil ng; fe = dc_full_every (ng_config ng);
          d = ng_daemon ng; d' = ng_daemon ng' in
      case r of
        Inl _ \<Rightarrow> dm_state d' = dm_state d
      | Inr NoChange \<Rightarrow> d' = d
      | Inr out \<Rightarrow>
          (\<exists>new bytes. packed e dev fe job (ab_now ab) d new bytes \<and>
             delivered e (ab_fresh ab) (bj_game_id job) (planned_create e dev fe d (bj_game_id job) new bytes) d d' r) \<and>
          (\<forall>hd v. out = BackupConflicted hd v \<longrightarrow>
             ng_conflicts ng' g = Some \<lparr>ct_mine = v_id v, ct_theirs = (case hd of None \<Rightarrow> v_id v | Some x \<Rightarrow> v_id x)\<rparr> \<and>
             BackupConflict g \<in> set (ng_events ng')))"

lemma trigger_backup_result:
  assumes "map_of (ng_games ng) g = Some entry" and "payload_codec (ho_env h)"
  shows "\<exists>r. backup_result h ab g entry ng (trigger_backup h ab g ng) r"
proof -
  obtain d r where run: "run_backup (ho_env h) True (device_or_nil ng) (dc_full_every (ng_config ng)) (backup_job_of entry)
      (ab_fresh ab) (ab_now ab) (ng_daemon ng) = (d, r)" by (metis surj_pair)
  then have rb: "run_backup_for h ab entry ng = (ng\<lparr>ng_daemon := d\<rparr>, r)" by (simp add: run_backup_for_def)
  note res = run_backup_result [OF run assms(2), THEN conjunct2]
  have "backup_result h ab g entry ng (trigger_backup h ab g ng) r"
  proof (cases r)
    case (Inl e)
    with res assms(1) rb show ?thesis by (simp add: backup_result_def trigger_backup_def Let_def)
  next
    case (Inr out)
    with res assms(1) rb show ?thesis
      by (cases out) (auto simp: backup_result_def trigger_backup_def record_conflict_def emit_def Let_def split: option.split)
  qed
  then show ?thesis by blast
qed


section \<open>Reconnecting\<close>

lemma ws_delays_append: "ws_delays a (rs @ rs') = ws_delays a rs @ ws_delays (fold next_attempt rs a) rs'"
  by (induction rs arbitrary: a) (simp_all add: Let_def)

lemma unat_saturating: "unat (saturating_add1 a) = min (Suc (unat a)) (2 ^ 32 - 1)"
proof (cases "a = -1")
  case True
  then show ?thesis by (simp add: saturating_add1_def unsigned_minus_1_eq_mask mask_eq_exp_minus_1)
next
  case False
  then have "unat (a + 1) = Suc (unat a)" by (metis Suc_eq_plus1 add.commute add_eq_0_iff unatSuc)
  moreover have "unat (a + 1) \<le> 2 ^ 32 - 1" using unsigned_less [of "a + 1", where 'a = nat] by simp
  ultimately show ?thesis using False by (simp add: saturating_add1_def)
qed

lemma unat_attempts: "unat (fold next_attempt (replicate k (Inl e)) a) = min (unat a + k) (2 ^ 32 - 1)"
proof (induction k arbitrary: a)
  case 0
  have "unat a \<le> 2 ^ 32 - 1" using unsigned_less [of a, where 'a = nat] by simp
  then show ?case by simp
next
  case (Suc k)
  then show ?case by (simp add: next_attempt_def unat_saturating)
qed

text \<open>The pause before a reconnect. After a connection that ended cleanly, and after any number of
  failed attempts since then, the next failure is followed by a pause of two to the power of the
  number of failures, in seconds, but never more than five minutes; the counter does not wrap, so
  a server that stays away for good is still tried every five minutes.\<close>

theorem reconnect_pause:
  "last (ws_delays a (rs @ Inr () # replicate (Suc k) (Inl e))) = (if Suc k < 9 then 2 ^ Suc k else 300)"
proof -
  let ?b = "fold next_attempt (rs @ [Inr ()]) a"
  have b: "?b = 0" by (simp add: next_attempt_def)
  have "rs @ Inr () # replicate (Suc k) (Inl e) = (rs @ [Inr ()]) @ replicate k (Inl e) @ [Inl e]"
    by (simp add: replicate_append_same)
  then have "ws_delays a (rs @ Inr () # replicate (Suc k) (Inl e)) =
      ws_delays a (rs @ [Inr ()]) @ ws_delays 0 (replicate k (Inl e)) @
      ws_delays (fold next_attempt (replicate k (Inl e)) 0) [Inl e]"
    by (simp only: ws_delays_append b)
  then have "last (ws_delays a (rs @ Inr () # replicate (Suc k) (Inl e))) =
      backoff_delay (fold next_attempt (replicate (Suc k) (Inl e)) 0)"
    by (simp add: Let_def replicate_append_same [symmetric] del: replicate_Suc)
  moreover have "unat (fold next_attempt (replicate (Suc k) (Inl e)) 0) = min (Suc k) (2 ^ 32 - 1)"
    by (simp only: unat_attempts unsigned_0 add_0)
  moreover have "(if min n m < 9 then 2 ^ min n m else 300) = (if n < 9 then 2 ^ n else (300 :: nat))"
    if "9 \<le> m" for n m :: nat
    using that by (auto simp: min_def)
  moreover have "9 \<le> (2 ^ 32 - 1 :: nat)" by simp
  ultimately show ?thesis by (simp only: backoff_delay_value)
qed

section \<open>Concrete inputs\<close>

definition ex_ambient :: ambient where
  "ex_ambient =
     \<lparr>ab_now = 9, ab_mint = ex_mint, ab_fresh = 50, ab_meta = ex_meta, ab_autostart = False,
      ab_set_autostart = (\<lambda>b. Inr ()), ab_logs = (\<lambda>n. []), ab_uptime_s = 1, ab_rss_bytes = 1, ab_version = ''0''\<rparr>"

text \<open>A daemon that has just started, with one hand-registered game, then sees it run.\<close>

definition ex_hand_state :: local_state where
  "ex_hand_state = init\<lparr>ls_custom := [\<lparr>cr_norm_title = ''g'', cr_title = ''G'', cr_install_path = None,
     cr_save_root = ''/s'', cr_include_glob = [], cr_exclude_glob = []\<rparr>]\<rparr>"

definition ex_start :: "string + unit engine" where
  "ex_start =
     start ex_host ex_ambient (\<lambda>v. None) daemon_config_default ex_hand_state (Inr None) ex_scratch Map.empty
       ex_tree () [] (Inl ''offline'') (Inr None)"

definition ex_started :: "unit runtime" where
  "ex_started = \<lparr>pc_engine = projr ex_start, pc_spawned = []\<rparr>"

definition ex_playing :: "unit runtime" where
  "ex_playing = ex_started\<lparr>pc_engine := fst (on_event (GameStarted 10 7 100) (pc_engine ex_started))\<rparr>"

definition ex_listing :: "game list" where
  "ex_listing = (case list_games (pc_engine ex_playing) of Games gs \<Rightarrow> gs | _ \<Rightarrow> [])"

lemma ex_start_ok: "ex_start = Inr (pc_engine ex_started)"
  by (simp add: ex_started_def ex_start_def start_def engine_new_def first_catalog_def Let_def)

lemma ex_started_reachable: "reachable ex_host ex_started"
  using reachable.started [OF ex_start_ok [unfolded ex_start_def]] by (simp add: ex_started_def)

lemma ex_playing_reachable: "reachable ex_host ex_playing"
proof (rule reachable.steps [OF ex_started_reachable])
  show "step ex_host ex_started (Detected (GameStarted 10 7 100)) ex_playing"
    using step.event [where ev = "GameStarted 10 7 100" and p = ex_started and h = ex_host
        and ng = "fst (on_event (GameStarted 10 7 100) (pc_engine ex_started))" and todo = None]
    by (simp add: ex_playing_def ex_started_def Let_def)
qed


theorem catalog_always_consistent_witness:
  "reachable ex_host ex_playing \<and> catalog_at (pc_engine ex_playing)"
  using catalog_always_consistent [OF ex_playing_reachable] ex_playing_reachable by blast


text \<open>A daemon whose server holds the two versions of the restore example.\<close>

definition ex_rhost :: "unit host" where
  "ex_rhost = ex_host\<lparr>ho_env := ex_renv\<rparr>"

definition ex_rentry :: game_entry where
  "ex_rentry =
     \<lparr>ge_game = new_game 7 ''G'' Custom None [],
      ge_resolved = \<lparr>rg_patterns = [''/s''], rg_registry_keys = [], rg_anchor = ex_anchor, rg_excludes = []\<rparr>\<rparr>"

definition ex_rproc :: "unit runtime" where
  "ex_rproc = ex_started\<lparr>pc_engine := (pc_engine ex_started)\<lparr>ng_daemon := ex_rdaemon, ng_games := [(7, ex_rentry)],
     ng_conflicts := [7 \<mapsto> \<lparr>ct_mine = 2, ct_theirs = 1\<rparr>]\<rparr>\<rparr>"


definition ex_restored :: "(unit engine \<times> daemon_msg) option" where
  "ex_restored = handle_request ex_rhost ex_ambient (RestoreReq 7 2) (pc_engine ex_rproc)"

lemma ex_restored_file:
  "map_option (\<lambda>r. map_option fst (files (dm_fs (ng_daemon (fst r))) [''s'', ''a''])) ex_restored = Some (Some [3])"
  by code_simp

theorem saves_change_by_restore_witness:
  "\<exists>chain meta. is_chain chain \<and> v_id (last chain) = 2 \<and> (\<forall>x \<in> set chain. verified ex_renv meta x)"
proof -
  from ex_restored_file obtain ng m where r: "ex_restored = Some (ng, m)"
    and f: "map_option fst (files (dm_fs (ng_daemon ng)) [''s'', ''a'']) = Some [3]" by (cases ex_restored) auto
  have st: "step ex_rhost ex_rproc (Answered (RestoreReq 7 2) m) (ex_rproc\<lparr>pc_engine := ng\<rparr>)"
    using r by (intro step.answer) (simp add: ex_restored_def)
  have codec: "payload_codec (ho_env ex_rhost)"
    using ex_codec by (simp add: payload_codec_def ex_rhost_def ex_renv_def)
  have "map_option fst (files (dm_fs (ng_daemon (pc_engine ex_rproc))) [''s'', ''a'']) = Some [5]" by code_simp
  with f have diff: "files (dm_fs (ng_daemon (pc_engine (ex_rproc\<lparr>pc_engine := ng\<rparr>)))) [''s'', ''a''] \<noteq>
      files (dm_fs (ng_daemon (pc_engine ex_rproc))) [''s'', ''a'']" by auto
  have out: "\<not> prefix (loc (ng_scratch (pc_engine ex_rproc))) [''s'', ''a'']" by code_simp
  from saves_change_by_restore [OF st codec out diff] show ?thesis by (auto simp: ex_rhost_def)
qed

section \<open>Flaps\<close>

text \<open>Turns of a game that is missing from a single scan and then plays on for a minute.\<close>

definition flap_ticks :: "tick list" where
  "flap_ticks = [ex_tick 0 True, ex_tick 60 False, ex_tick 63 True, ex_tick 123 False, ex_tick 130 False]"

definition flap_engine :: "unit engine" where
  "flap_engine =
     \<lparr>ng_config = daemon_config_default, ng_daemon = ex_daemon, ng_secret = None, ng_events = [],
      ng_exe_index = exe_index_new, ng_manifest = [], ng_games = [], ng_conflicts = Map.empty, ng_running = {},
      ng_learn_mode = None, ng_server_connected = False, ng_device_id = None, ng_scratch = []\<rparr>"


end
