(* ===== verification/App.thy ===== *)
theory App
  imports Engine
begin

text \<open>
  Both ends of the local connection: the request loop and the writer of the daemon
  (\<open>serve_connection\<close> in \<open>savr-daemon/src/ipc.rs\<close>), and the commands of the desktop app
  (\<open>savr-app/src-tauri/src/commands.rs\<close>) with its notifications (\<open>ipc_client.rs\<close>). The two
  serialisers are parameters, as in the frame codec.
\<close>

section \<open>The daemon's side of a connection\<close>

text \<open>The request loop over a byte stream: the replies in order and whether a shutdown was asked for.
  \<open>ab k\<close> is what the system supplies to the \<open>k\<close>th request.\<close>

function serve_requests ::
  "'n host \<Rightarrow> (byte list \<Rightarrow> io_error + gui_request) \<Rightarrow> (nat \<Rightarrow> ambient) \<Rightarrow> nat \<Rightarrow> stream \<Rightarrow> 'n engine \<Rightarrow>
   ('n engine \<times> daemon_msg list \<times> bool) option" where
  "serve_requests h from_slice ab k sock ng =
     (case read_frame from_slice sock of
        (Inl e, _) \<Rightarrow> Some (ng, [], False)
      | (Inr None, _) \<Rightarrow> Some (ng, [], False)
      | (Inr (Some req), sock') \<Rightarrow>
          if req = Shutdown then Some (ng, [Ok], True)
          else
            (case handle_request h (ab k) req ng of
               None \<Rightarrow> None
             | Some (ng', reply) \<Rightarrow>
                 map_option (\<lambda>(ng'', replies, stop). (ng'', reply # replies, stop))
                   (serve_requests h from_slice ab (Suc k) sock' ng')))"
  by pat_completeness auto
termination
  by (relation "measure (\<lambda>(_, _, _, _, sock, _). length (fst sock))")
    (auto dest: read_frame_consumes [OF sym])

declare serve_requests.simps [simp del]

text \<open>The writer task. A reply that does not encode is replaced by an error message.\<close>

fun write_out :: "(daemon_msg \<Rightarrow> io_error + byte list) \<Rightarrow> (io_error \<Rightarrow> string) \<Rightarrow> daemon_msg list \<Rightarrow> byte list" where
  "write_out to_vec display [] = []"
| "write_out to_vec display (msg # msgs) =
     (case encode_frame to_vec msg of
        Inr frame \<Rightarrow> frame @ write_out to_vec display msgs
      | Inl e \<Rightarrow>
          (case encode_frame to_vec (Error (''daemon could not encode reply: '' @ display e)) of
             Inr frame \<Rightarrow> frame @ write_out to_vec display msgs
           | Inl _ \<Rightarrow> []))"

section \<open>The commands of the app\<close>

text \<open>\<open>send\<close> performs one request; \<open>dbg\<close> is the debug text of a message.\<close>

definition expect_ok :: "(daemon_msg \<Rightarrow> string) \<Rightarrow> daemon_msg \<Rightarrow> cmd_error + unit" where
  "expect_ok dbg msg = (case msg of Ok \<Rightarrow> Inr () | other \<Rightarrow> Inl (Protocol (''expected Ok, got '' @ dbg other)))"

definition cmd_list_games ::
  "(gui_request \<Rightarrow> cmd_error + daemon_msg) \<Rightarrow> (daemon_msg \<Rightarrow> string) \<Rightarrow> cmd_error + game list" where
  "cmd_list_games send dbg =
     bind_res (send ListGames) (\<lambda>msg.
       case msg of Games games \<Rightarrow> Inr games | other \<Rightarrow> Inl (Protocol (''expected Games, got '' @ dbg other)))"

definition cmd_list_roots ::
  "(gui_request \<Rightarrow> cmd_error + daemon_msg) \<Rightarrow> (daemon_msg \<Rightarrow> string) \<Rightarrow> cmd_error + root list" where
  "cmd_list_roots send dbg =
     bind_res (send ListRoots) (\<lambda>msg.
       case msg of Roots roots \<Rightarrow> Inr roots | other \<Rightarrow> Inl (Protocol (''expected Roots, got '' @ dbg other)))"

definition cmd_add_root ::
  "(gui_request \<Rightarrow> cmd_error + daemon_msg) \<Rightarrow> (daemon_msg \<Rightarrow> string) \<Rightarrow> root_spec \<Rightarrow> cmd_error + unit" where
  "cmd_add_root send dbg spec = bind_res (send (AddRoot spec)) (expect_ok dbg)"

definition cmd_remove_root ::
  "(gui_request \<Rightarrow> cmd_error + daemon_msg) \<Rightarrow> (daemon_msg \<Rightarrow> string) \<Rightarrow> uuid \<Rightarrow> cmd_error + unit" where
  "cmd_remove_root send dbg i = bind_res (send (RemoveRoot i)) (expect_ok dbg)"

definition cmd_backup_now ::
  "(gui_request \<Rightarrow> cmd_error + daemon_msg) \<Rightarrow> (daemon_msg \<Rightarrow> string) \<Rightarrow> uuid \<Rightarrow> cmd_error + unit" where
  "cmd_backup_now send dbg g =
     bind_res (send (BackupNow g)) (\<lambda>msg.
       case msg of Ok \<Rightarrow> Inr () | ConflictRaised _ _ \<Rightarrow> Inr ()
       | other \<Rightarrow> Inl (Protocol (''expected Ok, got '' @ dbg other)))"

definition cmd_list_versions ::
  "(gui_request \<Rightarrow> cmd_error + daemon_msg) \<Rightarrow> (daemon_msg \<Rightarrow> string) \<Rightarrow> uuid \<Rightarrow> cmd_error + version list" where
  "cmd_list_versions send dbg g =
     bind_res (send (ListVersions g)) (\<lambda>msg.
       case msg of Versions versions \<Rightarrow> Inr versions | other \<Rightarrow> Inl (Protocol (''expected Versions, got '' @ dbg other)))"

definition cmd_restore ::
  "(gui_request \<Rightarrow> cmd_error + daemon_msg) \<Rightarrow> (daemon_msg \<Rightarrow> string) \<Rightarrow> uuid \<Rightarrow> uuid \<Rightarrow> cmd_error + unit" where
  "cmd_restore send dbg g v = bind_res (send (RestoreReq g v)) (expect_ok dbg)"

definition cmd_resolve_conflict ::
  "(gui_request \<Rightarrow> cmd_error + daemon_msg) \<Rightarrow> (daemon_msg \<Rightarrow> string) \<Rightarrow> uuid \<Rightarrow> resolve_choice \<Rightarrow> cmd_error + unit" where
  "cmd_resolve_conflict send dbg g choice = bind_res (send (ResolveConflict g choice)) (expect_ok dbg)"

definition cmd_get_status ::
  "(gui_request \<Rightarrow> cmd_error + daemon_msg) \<Rightarrow> (daemon_msg \<Rightarrow> string) \<Rightarrow> cmd_error + daemon_status" where
  "cmd_get_status send dbg =
     bind_res (send GetStatus) (\<lambda>msg.
       case msg of Status s \<Rightarrow> Inr s | other \<Rightarrow> Inl (Protocol (''expected Status, got '' @ dbg other)))"

definition cmd_set_autostart ::
  "(gui_request \<Rightarrow> cmd_error + daemon_msg) \<Rightarrow> (daemon_msg \<Rightarrow> string) \<Rightarrow> bool \<Rightarrow> cmd_error + unit" where
  "cmd_set_autostart send dbg enabled = bind_res (send (SetAutostart enabled)) (expect_ok dbg)"

definition cmd_get_config ::
  "(gui_request \<Rightarrow> cmd_error + daemon_msg) \<Rightarrow> (daemon_msg \<Rightarrow> string) \<Rightarrow> cmd_error + synced_config" where
  "cmd_get_config send dbg =
     bind_res (send GetConfig) (\<lambda>msg.
       case msg of ConfigMsg config \<Rightarrow> Inr config | other \<Rightarrow> Inl (Protocol (''expected Config, got '' @ dbg other)))"

definition cmd_update_config ::
  "(gui_request \<Rightarrow> cmd_error + daemon_msg) \<Rightarrow> (daemon_msg \<Rightarrow> string) \<Rightarrow> synced_config \<Rightarrow> cmd_error + unit" where
  "cmd_update_config send dbg config = bind_res (send (UpdateConfig config)) (expect_ok dbg)"

definition cmd_enter_learn_mode ::
  "(gui_request \<Rightarrow> cmd_error + daemon_msg) \<Rightarrow> (daemon_msg \<Rightarrow> string) \<Rightarrow> uuid \<Rightarrow> cmd_error + unit" where
  "cmd_enter_learn_mode send dbg g = bind_res (send (EnterLearnMode g)) (expect_ok dbg)"

definition cmd_pair_device ::
  "(gui_request \<Rightarrow> cmd_error + daemon_msg) \<Rightarrow> (daemon_msg \<Rightarrow> string) \<Rightarrow> string \<Rightarrow> string \<Rightarrow> string \<Rightarrow> cmd_error + uuid" where
  "cmd_pair_device send dbg server_url code device_name =
     bind_res (send (PairDevice server_url code device_name)) (\<lambda>msg.
       case msg of Paired i \<Rightarrow> Inr i | other \<Rightarrow> Inl (Protocol (''expected Paired, got '' @ dbg other)))"

definition cmd_add_custom_game ::
  "(gui_request \<Rightarrow> cmd_error + daemon_msg) \<Rightarrow> (daemon_msg \<Rightarrow> string) \<Rightarrow> custom_game_spec \<Rightarrow> cmd_error + unit" where
  "cmd_add_custom_game send dbg spec = bind_res (send (AddCustomGame spec)) (expect_ok dbg)"

definition cmd_remove_custom_game ::
  "(gui_request \<Rightarrow> cmd_error + daemon_msg) \<Rightarrow> (daemon_msg \<Rightarrow> string) \<Rightarrow> string \<Rightarrow> cmd_error + unit" where
  "cmd_remove_custom_game send dbg title = bind_res (send (RemoveCustomGame title)) (expect_ok dbg)"

definition cmd_get_logs ::
  "(gui_request \<Rightarrow> cmd_error + daemon_msg) \<Rightarrow> (daemon_msg \<Rightarrow> string) \<Rightarrow> nat \<Rightarrow> cmd_error + string list" where
  "cmd_get_logs send dbg max_lines =
     bind_res (send (GetLogs max_lines)) (\<lambda>msg.
       case msg of Logs ls \<Rightarrow> Inr ls | other \<Rightarrow> Inl (Protocol (''expected Logs, got '' @ dbg other)))"

section \<open>Notifications\<close>

definition refresh_titles :: "(gui_request \<Rightarrow> cmd_error + daemon_msg) \<Rightarrow> (uuid \<rightharpoonup> string) \<Rightarrow> (uuid \<rightharpoonup> string)" where
  "refresh_titles send titles =
     (case send ListGames of
        Inr (Games games) \<Rightarrow> fold (\<lambda>g t. t(gm_id g \<mapsto> gm_title g)) games Map.empty
      | _ \<Rightarrow> titles)"

definition title_for ::
  "(gui_request \<Rightarrow> cmd_error + daemon_msg) \<Rightarrow> uuid \<Rightarrow> (uuid \<rightharpoonup> string) \<Rightarrow> (uuid \<rightharpoonup> string) \<times> string" where
  "title_for send g titles =
     (let ts = refresh_titles send titles in (ts, case ts g of Some t \<Rightarrow> t | None \<Rightarrow> ''your game''))"

text \<open>The ellipsis and the dash of the texts are UTF-8 sequences.\<close>

abbreviation ellipsis :: string where "ellipsis \<equiv> [CHR 0xE2, CHR 0x80, CHR 0xA6]"
abbreviation em_dash :: string where "em_dash \<equiv> [CHR 0xE2, CHR 0x80, CHR 0x94]"

fun toast_for ::
  "(gui_request \<Rightarrow> cmd_error + daemon_msg) \<Rightarrow> detection_event \<Rightarrow> (uuid \<rightharpoonup> string) \<Rightarrow>
   (uuid \<rightharpoonup> string) \<times> (string \<times> string) option" where
  "toast_for send (GameStarted g pid at) titles =
     (let (ts, t) = title_for send g titles
      in (ts, Some (''Now watching '' @ t, ''Savr backs up your save when you close the game.'')))"
| "toast_for send (GameStopped g at) titles =
     (let (ts, t) = title_for send g titles in (ts, Some (t @ '' closed'', ''Checking for new save data'' @ ellipsis)))"
| "toast_for send (BackupCompleted g) titles =
     (let (ts, t) = title_for send g titles in (ts, Some (t @ '' backed up'', ''Your latest save is safe with Savr.'')))"
| "toast_for send (BackupConflict g) titles =
     (let (ts, t) = title_for send g titles
      in (ts, Some (''Sync conflict'', t @ '' '' @ em_dash @ '' open Savr to choose which save to keep.'')))"
| "toast_for send (SaveAvailable g) titles =
     (let (ts, t) = title_for send g titles
      in (ts, Some (''New save available'', t @ '' '' @ em_dash @ '' open Savr to download it.'')))"
| "toast_for send (ManualBackupRequested g) titles = (titles, None)"
| "toast_for send (SaveDirChanged g) titles = (titles, None)"
| "toast_for send CatalogUpdated titles = (titles, None)"

section \<open>Replies have the type the app expects\<close>

text \<open>What a request may be answered with, apart from an error.\<close>

fun answers :: "gui_request \<Rightarrow> daemon_msg \<Rightarrow> bool" where
  "answers ListGames m = (\<exists>gs. m = Games gs)"
| "answers ListRoots m = (\<exists>rs. m = Roots rs)"
| "answers (BackupNow g) m = (m = Ok \<or> (\<exists>tips. m = ConflictRaised g tips))"
| "answers (ListVersions g) m = (\<exists>vs. m = Versions vs)"
| "answers GetStatus m = (\<exists>s. m = Status s)"
| "answers GetConfig m = (\<exists>c. m = ConfigMsg c)"
| "answers (PairDevice url code name) m = (\<exists>i. m = Paired i)"
| "answers (GetLogs n) m = (\<exists>ls. m = Logs ls)"
| "answers _ m = (m = Ok)"

lemma backup_now_answer: "backup_now h ab g ng = (ng', m) \<Longrightarrow> answers (BackupNow g) m \<or> (\<exists>e. m = Error e)"
proof (cases "map_of (ng_games ng) g")
  case None
  then show "backup_now h ab g ng = (ng', m) \<Longrightarrow> ?thesis" by (auto simp: backup_now_def)
next
  case (Some entry)
  obtain ng1 r where r: "run_backup_for h ab entry ng = (ng1, r)" by (metis surj_pair)
  with Some show "backup_now h ab g ng = (ng', m) \<Longrightarrow> ?thesis"
    by (cases r) (auto simp: backup_now_def err_def record_conflict_def Let_def split: backup_outcome.splits)
qed

lemma restore_answer: "restore h ab g v ng = Some (ng', m) \<Longrightarrow> m = Ok \<or> (\<exists>e. m = Error e)"
proof -
  have "(case r of Inr _ \<Rightarrow> Ok | Inl e \<Rightarrow> err (ho_display h e)) = m \<Longrightarrow> m = Ok \<or> (\<exists>e. m = Error e)" for r :: "daemon_error + unit"
    by (cases r) (auto simp: err_def)
  then show "restore h ab g v ng = Some (ng', m) \<Longrightarrow> ?thesis"
    by (auto simp: restore_def split: option.splits)
qed

lemma engine_pair_answer: "engine_pair h url code name ng = (ng', m) \<Longrightarrow> (\<exists>i. m = Paired i) \<or> (\<exists>e. m = Error e)"
  by (auto simp: engine_pair_def Let_def err_def split: prod.splits sum.splits)

lemma handle_request_answers:
  "handle_request h ab req ng = Some (ng', m) \<Longrightarrow> answers req m \<or> (\<exists>e. m = Error e)"
proof (induction h ab req ng rule: handle_request.induct)
  case (5 h ab g ng)
  then show ?case using backup_now_answer [of h ab g ng ng' m] by simp
next
  case (7 h ab g v ng)
  then show ?case using restore_answer [of h ab g v ng ng' m] by simp
next
  case (13 h ab url code name ng)
  then show ?case using engine_pair_answer [of h url code name ng ng' m] by simp
qed (auto simp: Let_def err_def list_games_def status_def update_config_def engine_add_root_def
    engine_resolve_conflict_def split: prod.splits sum.splits option.splits resolve_choice.splits)

definition daemon_reply :: "'n host \<Rightarrow> ambient \<Rightarrow> 'n engine \<Rightarrow> gui_request \<Rightarrow> cmd_error + daemon_msg" where
  "daemon_reply h ab ng req =
     (case handle_request h ab req ng of
        None \<Rightarrow> Inl (DaemonUnreachable ''no reply'')
      | Some (ng', m) \<Rightarrow> reply_of m)"

definition no_protocol_error :: "cmd_error + 'a \<Rightarrow> bool" where
  "no_protocol_error r = (\<forall>s. r \<noteq> Inl (Protocol s))"

lemma daemon_reply_cases:
  obtains (unreachable) s where "daemon_reply h ab ng req = Inl (DaemonUnreachable s)"
  | (failed) s where "daemon_reply h ab ng req = Inl (Daemon s)"
  | (answered) m where "daemon_reply h ab ng req = Inr m" "answers req m"
proof (cases "handle_request h ab req ng")
  case None
  then show thesis by (intro unreachable) (simp add: daemon_reply_def)
next
  case (Some r)
  then obtain ng' m where r: "handle_request h ab req ng = Some (ng', m)" by (cases r) auto
  show thesis
  proof (cases "\<exists>e. m = Error e")
    case True
    with r show thesis by (auto simp: daemon_reply_def reply_of_def intro: failed)
  next
    case False
    with r handle_request_answers [OF r] show thesis
      by (intro answered [of m]) (auto simp: daemon_reply_def reply_of_def split: daemon_msg.split)
  qed
qed

lemma narrow_typed:
  assumes "\<And>m. answers req m \<Longrightarrow> no_protocol_error (f m)"
  shows "no_protocol_error (bind_res (daemon_reply h ab ng req) f)"
  by (cases rule: daemon_reply_cases [of h ab ng req]) (use assms in \<open>auto simp: no_protocol_error_def\<close>)

text \<open>C28: the app and the daemon agree on the type of every reply. Whatever the state of the daemon and
  whatever the request, the command of the app never meets a message of another type than the one
  it asks for: it returns the payload, or the error that the daemon reports, but no protocol
  error.\<close>

theorem commands_typed:
  "let send = daemon_reply h ab ng in
    no_protocol_error (cmd_list_games send dbg) \<and> no_protocol_error (cmd_list_roots send dbg) \<and>
    no_protocol_error (cmd_add_root send dbg spec) \<and> no_protocol_error (cmd_remove_root send dbg i) \<and>
    no_protocol_error (cmd_backup_now send dbg g) \<and> no_protocol_error (cmd_list_versions send dbg g) \<and>
    no_protocol_error (cmd_restore send dbg g v) \<and> no_protocol_error (cmd_resolve_conflict send dbg g choice) \<and>
    no_protocol_error (cmd_get_status send dbg) \<and> no_protocol_error (cmd_set_autostart send dbg on) \<and>
    no_protocol_error (cmd_get_config send dbg) \<and> no_protocol_error (cmd_update_config send dbg config) \<and>
    no_protocol_error (cmd_enter_learn_mode send dbg g) \<and> no_protocol_error (cmd_pair_device send dbg url code name) \<and>
    no_protocol_error (cmd_add_custom_game send dbg cspec) \<and> no_protocol_error (cmd_remove_custom_game send dbg title) \<and>
    no_protocol_error (cmd_get_logs send dbg max_lines)"
  unfolding Let_def cmd_list_games_def cmd_list_roots_def cmd_add_root_def cmd_remove_root_def cmd_backup_now_def
    cmd_list_versions_def cmd_restore_def cmd_resolve_conflict_def cmd_get_status_def cmd_set_autostart_def
    cmd_get_config_def cmd_update_config_def cmd_enter_learn_mode_def cmd_pair_device_def cmd_add_custom_game_def
    cmd_remove_custom_game_def cmd_get_logs_def
  by (intro conjI narrow_typed) (auto simp: no_protocol_error_def expect_ok_def)

section \<open>One request, end to end\<close>

lemma answers_not_event: "answers req m \<or> (\<exists>e. m = Error e) \<Longrightarrow> \<not> is_event m"
  by (cases req; cases m) auto

lemma serve_one:
  assumes "\<And>b. req_to_vec req = Inr b \<Longrightarrow> req_from_slice b = Inr req"
    and "encode_frame req_to_vec req = Inr frame" and "req \<noteq> Shutdown"
    and "handle_request h (ab k) req ng = Some (ng', m)"
  shows "serve_requests h req_from_slice ab k (frame, Eof) ng = Some (ng', [m], False)"
proof -
  have "read_frame req_from_slice (frame @ [], Eof) = (Inr (Some req), ([], Eof))"
    using assms(1,2) by (rule read_frame_encode)
  moreover have "serve_requests h req_from_slice ab (Suc k) ([], Eof) ng' = Some (ng', [], False)"
    by (subst serve_requests.simps) (simp add: read_frame_Eof)
  ultimately show ?thesis using assms(3,4) by (subst serve_requests.simps) simp
qed

lemma write_out_frames:
  "list_all2 (\<lambda>m fr. encode_frame to_vec m = Inr fr) ms frs \<Longrightarrow> write_out to_vec display (ms @ rest) = concat frs @ write_out to_vec display rest"
  by (induction rule: list_all2_induct) simp_all

lemma shuffles_one: "out \<in> shuffles [m] xs \<Longrightarrow> \<exists>ys zs. out = ys @ m # zs \<and> xs = ys @ zs"
proof (induction xs arbitrary: out)
  case (Cons x xs)
  then consider "out = m # x # xs" | out' where "out = x # out'" "out' \<in> shuffles [m] xs" by auto
  then show ?case
  proof cases
    case 1
    then have "out = [] @ m # (x # xs) \<and> x # xs = [] @ (x # xs)" by simp
    then show ?thesis by blast
  next
    case 2
    with Cons.IH obtain ys zs where "out' = ys @ m # zs" "xs = ys @ zs" by blast
    with 2 have "out = (x # ys) @ m # zs \<and> x # xs = (x # ys) @ zs" by simp
    then show ?thesis by blast
  qed
qed simp

text \<open>C27: a request of the app and the reply of the daemon fit together over the wire. The app frames a
  request and writes it; the daemon reads it, handles it and queues the reply, while the live
  events of the daemon are queued before and after it in any order; its writer frames the queue. Then
  the request loop of the daemon has handled exactly this request, and what the app's client
  returns is exactly the reply of the handler (as an error, if that is what it reports). The two
  serialisers are asked to parse what they print; every message of the queue fits a frame.\<close>

theorem request_end_to_end:
  assumes req_json: "\<And>b. req_to_vec req = Inr b \<Longrightarrow> req_from_slice b = Inr req"
    and json: "\<And>m b. to_vec m = Inr b \<Longrightarrow> from_slice b = Inr m"
    and frame: "encode_frame req_to_vec req = Inr frame" and "req \<noteq> Shutdown"
    and handled: "handle_request h ab req ng = Some (ng', m)"
    and out: "out \<in> shuffles [m] (map Event evs)"
    and fits: "\<forall>x \<in> set out. \<exists>fr. encode_frame to_vec x = Inr fr"
  shows "serve_requests h req_from_slice (\<lambda>k. ab) 0 (frame, Eof) ng = Some (ng', [m], False) \<and>
    request req_to_vec from_slice (Inr (\<lambda>fr. Inr (write_out to_vec display out, Eof))) req = reply_of m"
proof
  show "serve_requests h req_from_slice (\<lambda>k. ab) 0 (frame, Eof) ng = Some (ng', [m], False)"
    using req_json frame assms(4) handled by (rule serve_one)
  from shuffles_one [OF out] obtain ys zs where o: "out = ys @ m # zs" "map Event evs = ys @ zs" by blast
  from o(2) obtain evs1 where ys: "ys = map Event evs1" by (auto simp: append_eq_map_conv map_eq_append_conv)
  from fits o(1) obtain fr where fr: "encode_frame to_vec m = Inr fr" by auto
  have "list_all2 (\<lambda>x fr. encode_frame to_vec x = Inr fr) ys (map (\<lambda>x. projr (encode_frame to_vec x)) ys)"
    using fits o(1) by (auto simp: list_all2_conv_all_nth) (metis nth_mem sum.sel(2) UnI1)
  then obtain frs where frs: "list_all2 (\<lambda>x fr. encode_frame to_vec x = Inr fr) ys frs" by blast
  have w: "write_out to_vec display out = concat frs @ fr @ write_out to_vec display zs"
    using write_out_frames [OF frs] by (simp add: o(1) fr)
  have "\<not> is_event m" using handle_request_answers [OF handled] by (rule answers_not_event)
  moreover have "list_all2 (\<lambda>ev fr. encode_frame to_vec (Event ev) = Inr fr) evs1 frs"
    using frs by (simp add: ys list_all2_map1)
  ultimately have "read_reply from_slice (concat frs @ fr @ write_out to_vec display zs, Eof) = reply_of m"
    using read_reply_events [of to_vec from_slice, OF json] read_reply_final [OF json fr] by simp
  with frame show "request req_to_vec from_slice (Inr (\<lambda>fr. Inr (write_out to_vec display out, Eof))) req = reply_of m"
    by (simp add: request_def w)
qed

section \<open>Concrete inputs\<close>

definition ex_app_engine :: "unit engine" where
  "ex_app_engine = projr (engine_new ex_host daemon_config_default init (Inr None) [] Map.empty ex_tree ())"

definition ex_app_ambient :: ambient where
  "ex_app_ambient =
     \<lparr>ab_now = 9, ab_mint = ex_mint, ab_fresh = 50, ab_meta = ex_meta, ab_autostart = False,
      ab_set_autostart = (\<lambda>b. Inr ()), ab_logs = (\<lambda>n. []), ab_uptime_s = 1, ab_rss_bytes = 1, ab_version = ''0''\<rparr>"

definition ex_req_to_vec :: "gui_request \<Rightarrow> io_error + byte list" where
  "ex_req_to_vec r = (if r = EnterLearnMode 7 then Inr [3] else Inl io_error.JsonError)"

definition ex_req_from_slice :: "byte list \<Rightarrow> io_error + gui_request" where
  "ex_req_from_slice b = (if b = [3] then Inr (EnterLearnMode 7) else Inl io_error.JsonError)"

theorem request_end_to_end_witness:
  "serve_requests ex_host ex_req_from_slice (\<lambda>k. ex_app_ambient) 0 ([1, 0, 0, 0, 3], Eof) ex_app_engine =
     Some (ex_app_engine\<lparr>ng_learn_mode := Some 7\<rparr>, [Ok], False) \<and>
   request ex_req_to_vec ex_from_slice
     (Inr (\<lambda>fr. Inr (write_out ex_to_vec (\<lambda>e. []) [Event CatalogUpdated, Ok, Event CatalogUpdated], Eof))) (EnterLearnMode 7) = reply_of Ok"
proof (rule request_end_to_end)
  show "ex_to_vec m = Inr b \<Longrightarrow> ex_from_slice b = Inr m" for m b
    by (auto simp: ex_to_vec_def ex_from_slice_def split: if_splits)
  show "[Event CatalogUpdated, Ok, Event CatalogUpdated] \<in> shuffles [Ok] (map Event [CatalogUpdated, CatalogUpdated])" by simp
qed (simp_all add: ex_req_to_vec_def ex_req_from_slice_def encode_frame_def ex_to_vec_def u32_try_from_def to_le_bytes_def
    MAX_FRAME_def split: if_splits)

end
