(* ===== verification/Supervisor.thy ===== *)
theory Supervisor
  imports Prelude
begin

text \<open>
  The supervisor of the bundled daemon in the desktop app
  (\<open>savr-app/src-tauri/src/daemon.rs\<close>): a background task spawns the daemon, hands it over under a
  lock, watches it and restarts it, while the app may quit at any moment. A child process is a
  number; \<open>su_live\<close> is the set of children that run. Each step of the relation is what happens
  between two acquisitions of the lock, so that a quit can come between any two of them. Killing a
  child ends it.
\<close>

datatype phase = Probing | Checking | Spawned nat | Watching nat int | Exited int | Cleared int | Pausing | Ended

record supervisor =
  su_child :: "nat option"
  su_shutting_down :: bool
  su_phase :: phase
  su_fast_restarts :: "32 word"
  su_live :: "nat set"

definition RESTART_DELAY :: int where
  "RESTART_DELAY = 2000000000"

definition MAX_FAST_RESTARTS :: "32 word" where
  "MAX_FAST_RESTARTS = 5"

definition FAST_RESTART :: int where
  "FAST_RESTART = 3000000000"

definition supervisor_default :: supervisor where
  "supervisor_default =
     \<lparr>su_child = None, su_shutting_down = False, su_phase = Probing, su_fast_restarts = 0, su_live = {}\<rparr>"

text \<open>The operations under the lock.\<close>

definition adopt :: "nat \<Rightarrow> supervisor \<Rightarrow> supervisor \<times> bool" where
  "adopt child s =
     (if su_shutting_down s then (s\<lparr>su_live := su_live s - {child}\<rparr>, False)
      else (s\<lparr>su_child := Some child\<rparr>, True))"

definition clear_child :: "supervisor \<Rightarrow> supervisor" where
  "clear_child s = s\<lparr>su_child := None\<rparr>"

definition shutdown :: "supervisor \<Rightarrow> supervisor" where
  "shutdown s =
     (case su_child s of
        None \<Rightarrow> s\<lparr>su_shutting_down := True\<rparr>
      | Some child \<Rightarrow> s\<lparr>su_shutting_down := True, su_child := None, su_live := su_live s - {child}\<rparr>)"

text \<open>The crash-loop guard: the counter after another fast failure, and whether to give up.\<close>

definition fast_failure :: "supervisor \<Rightarrow> supervisor" where
  "fast_failure s =
     (let n = su_fast_restarts s + 1
      in s\<lparr>su_fast_restarts := n, su_phase := if MAX_FAST_RESTARTS \<le> n then Ended else Pausing\<rparr>)"

inductive sup_step :: "supervisor \<Rightarrow> supervisor \<Rightarrow> bool" where
  already_running: "su_phase s = Probing \<Longrightarrow> sup_step s (s\<lparr>su_phase := Ended\<rparr>)"
| not_running: "su_phase s = Probing \<Longrightarrow> sup_step s (s\<lparr>su_phase := Checking\<rparr>)"
| stop: "su_phase s = Checking \<Longrightarrow> su_shutting_down s \<Longrightarrow> sup_step s (s\<lparr>su_phase := Ended\<rparr>)"
| spawn: "su_phase s = Checking \<Longrightarrow> child \<notin> su_live s \<Longrightarrow>
    sup_step s (s\<lparr>su_phase := Spawned child, su_live := insert child (su_live s)\<rparr>)"
| missing_binary: "su_phase s = Checking \<Longrightarrow> sup_step s (s\<lparr>su_phase := Ended\<rparr>)"
| spawn_error: "su_phase s = Checking \<Longrightarrow> sup_step s (fast_failure s)"
| hand_over: "su_phase s = Spawned child \<Longrightarrow> adopt child s = (s', ok) \<Longrightarrow>
    sup_step s (s'\<lparr>su_phase := if ok then Watching child started else Ended\<rparr>)"
| terminated: "su_phase s = Watching child started \<Longrightarrow>
    sup_step s (s\<lparr>su_phase := Exited started, su_live := su_live s - {child}\<rparr>)"
| clear: "su_phase s = Exited started \<Longrightarrow> sup_step s ((clear_child s)\<lparr>su_phase := Cleared started\<rparr>)"
| quit_seen: "su_phase s = Cleared started \<Longrightarrow> su_shutting_down s \<Longrightarrow> sup_step s (s\<lparr>su_phase := Ended\<rparr>)"
| crashed: "su_phase s = Cleared started \<Longrightarrow> \<not> su_shutting_down s \<Longrightarrow>
    now - started < FAST_RESTART \<Longrightarrow> sup_step s (fast_failure s)"
| ran_a_while: "su_phase s = Cleared started \<Longrightarrow> \<not> su_shutting_down s \<Longrightarrow>
    FAST_RESTART \<le> now - started \<Longrightarrow> sup_step s (s\<lparr>su_fast_restarts := 0, su_phase := Pausing\<rparr>)"
| paused: "su_phase s = Pausing \<Longrightarrow> sup_step s (s\<lparr>su_phase := Checking\<rparr>)"
| app_quits: "sup_step s (shutdown s)"

text \<open>The check of the flag at the head of the loop and the spawn are separate acquisitions: a quit may
  come in between, so the spawn step does not ask for the flag to be unset.\<close>

inductive sup_reachable :: "supervisor \<Rightarrow> bool" where
  sup_start: "sup_reachable supervisor_default"
| sup_next: "sup_reachable s \<Longrightarrow> sup_step s s' \<Longrightarrow> sup_reachable s'"

section \<open>No orphans\<close>

text \<open>The child that runs is the one of the phase; once it was handed over it is the one that a quit
  would kill, and no quit has come yet.\<close>

definition sup_ok :: "supervisor \<Rightarrow> bool" where
  "sup_ok s =
     ((case su_phase s of
         Spawned c \<Rightarrow> su_live s \<subseteq> {c} \<and> su_child s = None
       | Watching c t \<Rightarrow> su_live s \<subseteq> {c} \<and>
           (if su_shutting_down s then su_child s = None \<and> su_live s = {} else su_child s = Some c)
       | Exited t \<Rightarrow> su_live s = {}
       | _ \<Rightarrow> su_live s = {} \<and> su_child s = None) \<and>
      su_fast_restarts s \<le> MAX_FAST_RESTARTS \<and>
      (su_phase s \<noteq> Ended \<longrightarrow> su_fast_restarts s < MAX_FAST_RESTARTS))"

lemma fast_below: "n < (MAX_FAST_RESTARTS :: 32 word) \<Longrightarrow> n + 1 \<le> MAX_FAST_RESTARTS"
  by (rule inc_le)

lemma fast_failure_ok:
  assumes "su_live s = {}" "su_child s = None" "su_fast_restarts s < MAX_FAST_RESTARTS"
  shows "sup_ok (fast_failure s)"
  using assms fast_below [OF assms(3)] by (auto simp: sup_ok_def fast_failure_def Let_def not_le)

lemma sup_step_ok: "sup_step s s' \<Longrightarrow> sup_ok s \<Longrightarrow> sup_ok s'"
proof (induction rule: sup_step.induct)
  case (spawn_error s)
  then show ?case by (intro fast_failure_ok) (simp_all add: sup_ok_def)
next
  case (crashed s started now)
  then show ?case by (intro fast_failure_ok) (simp_all add: sup_ok_def)
next
  case (app_quits s)
  then show ?case by (auto simp: sup_ok_def shutdown_def split: phase.splits option.splits if_splits)
qed (auto simp: sup_ok_def adopt_def clear_child_def MAX_FAST_RESTARTS_def split: phase.splits if_splits)



end
