(* ===== verification/Daemon_Files.thy ===== *)
theory Daemon_Files
  imports Catalog
begin

text \<open>
  The small files the daemon keeps: the downloaded manifest with its ETag
  (\<open>savr-daemon/src/manifest_sync.rs\<close>), the credential of the device in its file form
  (\<open>FileStore\<close> in \<open>savr-daemon/src/secrets.rs\<close>) and the tail of its own log
  (\<open>savr-daemon/src/logs.rs\<close>). The YAML and JSON libraries and the download are parameters; a
  string is the list of its UTF-8 bytes.
\<close>

section \<open>Texts in files\<close>

definition read_text :: "node \<Rightarrow> path \<Rightarrow> fs_error option + string" where
  "read_text fs p =
     (case read_file fs (loc p) of
        Inl e \<Rightarrow> Inl (Some e)
      | Inr _ \<Rightarrow> (case read_to_string fs p of None \<Rightarrow> Inl None | Some s \<Rightarrow> Inr s))"

definition write_text :: "file_meta \<Rightarrow> path \<Rightarrow> string \<Rightarrow> node \<Rightarrow> fs_error + node" where
  "write_text m p s fs = write_file (to_bytes s) m (loc p) fs"

section \<open>The cached manifest\<close>

definition manifest_path :: "path \<Rightarrow> path" where
  "manifest_path dir = path_join dir [Normal ''manifest.yaml'']"

definition etag_path :: "path \<Rightarrow> path" where
  "etag_path dir = path_join dir [Normal ''manifest.etag'']"

definition load_cached :: "(string \<Rightarrow> string + manifest) \<Rightarrow> node \<Rightarrow> path \<Rightarrow> string + manifest option" where
  "load_cached yaml fs dir =
     (case read_text fs (manifest_path dir) of
        Inr txt \<Rightarrow> bind_res (yaml txt) (\<lambda>m. Inr (Some m))
      | Inl (Some NotFound) \<Rightarrow> Inr None
      | Inl _ \<Rightarrow> Inl ''I/O error'')"

text \<open>What the download returns: the status, the ETag and the text of the body.\<close>

record manifest_response =
  mr_status :: nat
  mr_etag :: "string option"
  mr_text :: "string + string"

record refresh_outcome =
  rf_manifest :: manifest
  rf_not_modified :: bool
  rf_entry_count :: nat

definition outcome_of :: "bool \<Rightarrow> manifest \<Rightarrow> refresh_outcome" where
  "outcome_of not_modified m =
     \<lparr>rf_manifest = m, rf_not_modified = not_modified, rf_entry_count = length m\<rparr>"

text \<open>\<open>get etag\<close> is the download with this \<open>If-None-Match\<close>; \<open>meta\<close> is the metadata of new files.\<close>

definition store_manifest ::
  "(string \<Rightarrow> string + manifest) \<Rightarrow> file_meta \<Rightarrow> path \<Rightarrow> manifest_response \<Rightarrow> node \<Rightarrow> node \<times> (string + refresh_outcome)" where
  "store_manifest yaml meta dir resp fs =
     (if 400 \<le> mr_status resp \<and> mr_status resp < 600 then (fs, Inl ''HTTP status error'')
      else
        (case bind_res (mr_text resp) (\<lambda>body. bind_res (yaml body) (\<lambda>m. Inr (body, m))) of
           Inl e \<Rightarrow> (fs, Inl e)
         | Inr (body, m) \<Rightarrow>
             (case write_text meta (manifest_path dir) body fs of
                Inl e \<Rightarrow> (fs, Inl ''I/O error'')
              | Inr fs1 \<Rightarrow>
                  (case mr_etag resp of
                     None \<Rightarrow> (fs1, Inr (outcome_of False m))
                   | Some etag \<Rightarrow>
                       (case write_text meta (etag_path dir) etag fs1 of
                          Inl e \<Rightarrow> (fs1, Inl ''I/O error'')
                        | Inr fs2 \<Rightarrow> (fs2, Inr (outcome_of False m)))))))"

definition refresh_manifest ::
  "(string \<Rightarrow> string + manifest) \<Rightarrow> (string option \<Rightarrow> string + manifest_response) \<Rightarrow> file_meta \<Rightarrow> path \<Rightarrow> node \<Rightarrow>
   node \<times> (string + refresh_outcome)" where
  "refresh_manifest yaml get meta dir fs =
     (case create_dir_all (loc dir) fs of
        Inl e \<Rightarrow> (fs, Inl ''I/O error'')
      | Inr fs0 \<Rightarrow>
          (let stored_etag = read_to_string fs0 (etag_path dir) in
           case get (map_option trim_unicode stored_etag) of
             Inl e \<Rightarrow>
               (fs0, bind_res (load_cached yaml fs0 dir) (\<lambda>c. case c of Some m \<Rightarrow> Inr (outcome_of True m) | None \<Rightarrow> Inl e))
           | Inr resp \<Rightarrow>
               if mr_status resp = 304 then
                 (fs0, bind_res (load_cached yaml fs0 dir) (\<lambda>c.
                    case c of
                      Some m \<Rightarrow> Inr (outcome_of True m)
                    | None \<Rightarrow> Inl ''server said 304 but no cached manifest exists''))
               else store_manifest yaml meta dir resp fs0))"

section \<open>The credential file\<close>

definition load_credentials :: "(string \<Rightarrow> string + credentials) \<Rightarrow> path \<Rightarrow> node \<Rightarrow> string + credentials option" where
  "load_credentials parse_json p fs =
     (case read_text fs p of
        Inr txt \<Rightarrow> bind_res (parse_json txt) (\<lambda>c. Inr (Some c))
      | Inl (Some NotFound) \<Rightarrow> Inr None
      | Inl _ \<Rightarrow> Inl ''I/O error'')"

definition restrict_perms :: "path \<Rightarrow> node \<Rightarrow> fs_error + node" where
  "restrict_perms p fs =
     (case lookup fs (loc p) of
        Some (File bs m) \<Rightarrow> write_file bs (m\<lparr>fm_mode := 384\<rparr>) (loc p) fs
      | Some _ \<Rightarrow> Inl Unsupported
      | None \<Rightarrow> Inl NotFound)"

definition store_credentials ::
  "(credentials \<Rightarrow> string + string) \<Rightarrow> file_meta \<Rightarrow> path \<Rightarrow> credentials \<Rightarrow> node \<Rightarrow> node \<times> (string + unit)" where
  "store_credentials print_json meta p creds fs =
     (case (case path_parent p of Some parent \<Rightarrow> create_dir_all (loc parent) fs | None \<Rightarrow> Inr fs) of
        Inl e \<Rightarrow> (fs, Inl ''I/O error'')
      | Inr fs1 \<Rightarrow>
          (case print_json creds of
             Inl e \<Rightarrow> (fs1, Inl e)
           | Inr txt \<Rightarrow>
               (case write_text meta p txt fs1 of
                  Inl e \<Rightarrow> (fs1, Inl ''I/O error'')
                | Inr fs2 \<Rightarrow>
                    (case restrict_perms p fs2 of
                       Inl e \<Rightarrow> (fs2, Inl ''I/O error'')
                     | Inr fs3 \<Rightarrow> (fs3, Inr ())))))"

definition clear_credentials :: "path \<Rightarrow> node \<Rightarrow> node \<times> (string + unit)" where
  "clear_credentials p fs =
     (case remove_file (loc p) fs of
        Inr fs1 \<Rightarrow> (fs1, Inr ())
      | Inl NotFound \<Rightarrow> (fs, Inr ())
      | Inl e \<Rightarrow> (fs, Inl ''I/O error''))"

section \<open>The log\<close>

definition newest_log_file :: "node \<Rightarrow> path \<Rightarrow> path option" where
  "newest_log_file fs dir =
     (case read_dir fs dir of
        None \<Rightarrow> None
      | Some es \<Rightarrow>
          fold (\<lambda>e newest.
              if starts_with (fst e) ''daemon.log'' \<and>
                 (case newest of None \<Rightarrow> True | Some cur \<Rightarrow> slash_join cur < slash_join (path_join dir [Normal (fst e)]))
              then Some (path_join dir [Normal (fst e)]) else newest) es None)"

definition tail_from :: "node \<Rightarrow> path \<Rightarrow> nat \<Rightarrow> string list" where
  "tail_from fs dir max_lines =
     (case newest_log_file fs dir of
        None \<Rightarrow> [''(no daemon log file yet under '' @ path_str dir @ '')'']
      | Some p \<Rightarrow>
          (case read_to_string fs p of
             None \<Rightarrow> [''(could not read '' @ path_str p @ '': I/O error)'']
           | Some contents \<Rightarrow> (let ls = lines contents in drop (length ls - max max_lines 1) ls)))"

section \<open>Reading back what was written\<close>

lemma chars_to_bytes [simp]: "map (\<lambda>b. char_of (unat b)) (to_bytes s) = s"
proof -
  have "char_of (unat (of_nat (of_char c) :: byte)) = c" for c :: char
  proof -
    have "(of_char c :: nat) < 256" by simp
    then show ?thesis by (simp add: unat_of_nat)
  qed
  then show ?thesis by (induction s) (simp_all add: to_bytes_def)
qed

lemma read_text_written:
  assumes "write_text m p s fs = Inr fs'"
  shows "utf8_valid s \<Longrightarrow> read_text fs' p = Inr s"
    and "loc q \<noteq> loc p \<Longrightarrow> files fs' (loc q) = files fs (loc q)"
proof -
  have f: "files fs' = (files fs)(loc p \<mapsto> (to_bytes s, m))"
    using assms unfolding write_text_def by (rule write_file_files)
  then have "read_file fs' (loc p) = Inr (to_bytes s)" by (simp add: read_file_Inr_iff)
  then show "utf8_valid s \<Longrightarrow> read_text fs' p = Inr s"
    by (simp add: read_text_def read_to_string_def Let_def)
  from f show "loc q \<noteq> loc p \<Longrightarrow> files fs' (loc q) = files fs (loc q)" by simp
qed

lemma read_text_Inr_iff:
  "read_text fs p = Inr s \<longleftrightarrow>
     (\<exists>bs m. files fs (loc p) = Some (bs, m) \<and> map (\<lambda>b. char_of (unat b)) bs = s \<and> utf8_valid s)"
proof (cases "read_file fs (loc p)")
  case (Inl e)
  moreover from this have "files fs (loc p) \<noteq> Some (bs, m)" for bs m
    using read_file_Inr_iff [of fs "loc p" bs] by auto
  ultimately show ?thesis by (simp add: read_text_def)
next
  case (Inr bs)
  moreover from this obtain m where "files fs (loc p) = Some (bs, m)" by (auto simp: read_file_Inr_iff)
  ultimately show ?thesis by (auto simp: read_text_def read_to_string_def Let_def)
qed

lemma paths_differ: "loc (etag_path dir) \<noteq> loc (manifest_path dir)"
  by (simp add: etag_path_def manifest_path_def path_join_def is_absolute_def loc_def loc_from_append)

lemma load_cached_Some_iff:
  "load_cached yaml fs dir = Inr (Some m) \<longleftrightarrow> (\<exists>s. read_text fs (manifest_path dir) = Inr s \<and> yaml s = Inr m)"
  by (auto simp: load_cached_def bind_res_Inr_iff split: sum.splits option.splits fs_error.splits)

lemma load_cached_files:
  assumes "files fs' (loc (manifest_path dir)) = files fs (loc (manifest_path dir))"
  shows "load_cached yaml fs' dir = Inr (Some m) \<longleftrightarrow> load_cached yaml fs dir = Inr (Some m)"
  by (simp add: load_cached_Some_iff read_text_Inr_iff assms)

lemma store_manifest_cases:
  assumes "store_manifest yaml meta dir resp fs = (fs', r)"
    and "\<And>body. mr_text resp = Inr body \<Longrightarrow> utf8_valid body"
  shows "(fs' = fs \<and> (\<exists>e. r = Inl e)) \<or>
    (\<exists>m. load_cached yaml fs' dir = Inr (Some m) \<and> (r = Inr (outcome_of False m) \<or> (\<exists>e. r = Inl e)))"
proof (cases "400 \<le> mr_status resp \<and> mr_status resp < 600")
  case True
  with assms(1) show ?thesis by (auto simp: store_manifest_def)
next
  case ok: False
  show ?thesis
  proof (cases "bind_res (mr_text resp) (\<lambda>body. bind_res (yaml body) (\<lambda>m. Inr (body, m)))")
    case (Inl e)
    with ok assms(1) show ?thesis by (auto simp: store_manifest_def)
  next
    case (Inr bm)
    then obtain body m where bm: "bm = (body, m)" and y: "mr_text resp = Inr body" "yaml body = Inr m"
      by (auto simp: bind_res_Inr_iff)
    note run = assms(1) [unfolded store_manifest_def if_not_P [OF ok] Inr bm sum.case prod.case]
    show ?thesis
    proof (cases "write_text meta (manifest_path dir) body fs")
      case (Inl e)
      with run show ?thesis by auto
    next
      case (Inr fs1)
      have c1: "load_cached yaml fs1 dir = Inr (Some m)"
        using read_text_written(1) [OF Inr assms(2) [OF y(1)]] y(2) by (simp add: load_cached_Some_iff)
      have "load_cached yaml fs2 dir = Inr (Some m)" if "write_text meta (etag_path dir) etag fs1 = Inr fs2" for etag fs2
        using load_cached_files [OF read_text_written(2) [OF that, of "manifest_path dir"]] paths_differ [of dir] c1 by metis
      with c1 run Inr show ?thesis by (auto split: option.splits sum.splits)
    qed
  qed
qed

text \<open>C36: the manifest in use is the one in the cache. Whenever a refresh succeeds (a fresh download, an
  unchanged one, or no network at all), the manifest it hands to the daemon is the one that the
  cache file now holds, so an offline start continues with the same catalog; and a refresh
  never replaces a cached manifest that parses by one that does not.\<close>

theorem manifest_cache_sound:
  assumes run: "refresh_manifest yaml get meta dir fs = (fs', r)"
    and utf8: "\<And>e resp body. get e = Inr resp \<Longrightarrow> mr_text resp = Inr body \<Longrightarrow> utf8_valid body"
  shows "(\<forall>out. r = Inr out \<longrightarrow> load_cached yaml fs' dir = Inr (Some (rf_manifest out))) \<and>
    (\<forall>m. load_cached yaml fs dir = Inr (Some m) \<longrightarrow> (\<exists>m'. load_cached yaml fs' dir = Inr (Some m')))"
proof (cases "create_dir_all (loc dir) fs")
  case (Inl e)
  with run show ?thesis by (auto simp: refresh_manifest_def)
next
  case (Inr fs0)
  have same: "load_cached yaml fs0 dir = Inr (Some m) \<longleftrightarrow> load_cached yaml fs dir = Inr (Some m)" for m
    by (rule load_cached_files) (simp add: create_dir_all_files [OF Inr])
  let ?etag = "map_option trim_unicode (read_to_string fs0 (etag_path dir))"
  show ?thesis
  proof (cases "\<exists>resp. get ?etag = Inr resp \<and> mr_status resp \<noteq> 304")
    case True
    then obtain resp where g: "get ?etag = Inr resp" and "mr_status resp \<noteq> 304" by blast
    with run Inr have "store_manifest yaml meta dir resp fs0 = (fs', r)" by (simp add: refresh_manifest_def Let_def)
    from store_manifest_cases [OF this utf8 [OF g]] same show ?thesis by (auto simp: outcome_of_def)
  next
    case False
    with run Inr have "fs' = fs0" and "\<forall>out. r = Inr out \<longrightarrow> (\<exists>m. load_cached yaml fs0 dir = Inr (Some m) \<and> out = outcome_of True m)"
      by (auto simp: refresh_manifest_def Let_def bind_res_Inr_iff split: sum.splits if_splits option.splits)
    with same show ?thesis by (auto simp: outcome_of_def)
  qed
qed

text \<open>Storing a credential and reading it back; the file is readable by its owner only.\<close>

theorem credentials_roundtrip:
  assumes stored: "store_credentials print_json meta p creds fs = (fs', Inr ())"
    and json: "\<And>c s. print_json c = Inr s \<Longrightarrow> utf8_valid s \<and> parse_json s = Inr c"
  shows "load_credentials parse_json p fs' = Inr (Some creds) \<and>
    (\<exists>bs m. files fs' (loc p) = Some (bs, m) \<and> fm_mode m = 384)"
proof -
  from stored obtain fs1 fs2 body where t: "print_json creds = Inr body" "write_text meta p body fs1 = Inr fs2"
    "restrict_perms p fs2 = Inr fs'"
    by (auto simp: store_credentials_def split: sum.splits option.splits)
  have f2: "files fs2 (loc p) = Some (to_bytes body, meta)"
    using t(2) unfolding write_text_def by (auto dest: write_file_files)
  with t(3) have "write_file (to_bytes body) (meta\<lparr>fm_mode := 384\<rparr>) (loc p) fs2 = Inr fs'"
    by (simp add: restrict_perms_def files_Some_iff)
  then have f: "files fs' (loc p) = Some (to_bytes body, meta\<lparr>fm_mode := 384\<rparr>)" by (auto dest: write_file_files)
  with json [OF t(1)] have "read_text fs' p = Inr body" by (simp add: read_text_Inr_iff)
  with f json [OF t(1)] show ?thesis by (simp add: load_credentials_def)
qed

section \<open>Concrete inputs\<close>

definition ex_yaml :: "string \<Rightarrow> string + manifest" where
  "ex_yaml s = (if s = ''ok'' then Inr [] else Inl ''yaml'')"

definition ex_get :: "string option \<Rightarrow> string + manifest_response" where
  "ex_get etag = Inr \<lparr>mr_status = 200, mr_etag = Some ''e1'', mr_text = Inr ''ok''\<rparr>"

theorem manifest_cache_sound_witness:
  "load_cached ex_yaml (fst (refresh_manifest ex_yaml ex_get ex_meta [RootDir, Normal ''m''] (Dir []))) [RootDir, Normal ''m''] =
     Inr (Some [])"
proof -
  let ?run = "refresh_manifest ex_yaml ex_get ex_meta [RootDir, Normal ''m''] (Dir [])"
  have ok: "snd ?run = Inr (outcome_of False [])" by code_simp
  have u: "utf8_valid ''ok''" by code_simp
  have "utf8_valid body" if "ex_get e = Inr resp" "mr_text resp = Inr body" for e resp body
    using that u by (auto simp: ex_get_def)
  from manifest_cache_sound [OF prod.collapse [symmetric, of ?run] this] ok show ?thesis
    by (simp add: outcome_of_def)
qed

end
