(* ===== verification/Spec2Isabelle.thy ===== *)
theory Spec2Isabelle
  imports Sync Daemon App Supervisor Daemon_Files
begin

text \<open>
  Savr keeps the save files of games in step between the machines of one owner. The development
  models the Rust sources under \<open>src/crates\<close> and proves what makes them correct.

  \<^bold>\<open>The program.\<close> A daemon runs on every machine (\<open>savr-daemon\<close>). It finds the installed games,
  watches the process table, and when a game has stopped it takes a snapshot of the saves, compares
  it with the last one, packs the difference into an archive and uploads it. A server
  (\<open>savr-server\<close>) keeps a history of versions per game with one head, the blobs the versions
  refer to, the devices of an account and a shared configuration, and pushes news to the connected
  devices. A desktop app (\<open>savr-app\<close>) starts the daemon, asks it over a local socket and shows
  its events. \<open>savr-core\<close> holds what they share: the wire types, the frame codec, snapshots,
  archives and the path templates of the manifest. Uploads that cannot be delivered wait in an
  outbox. Two devices that upload on the same head produce a conflict, which the user resolves.

  \<^bold>\<open>Shared theories.\<close>
  \<^item> \<open>Prelude\<close>: basic types, the propagation of errors, string operations of the Rust standard
    library, and the interfaces \<open>keyed_store\<close> (a table with a key, interpreted on the key/value
    table and the snapshots of \<open>Local_State\<close> and on the presence map of \<open>Server_Hub\<close>),
    \<open>invariant_system\<close> and \<open>monotone_system\<close> (interpreted on the server, on its requests, on its
    histories and on the play statistics).
  \<^item> \<open>Core_Types\<close> (\<open>types.rs\<close>, \<open>protocol.rs\<close>), \<open>Decimal\<close> (numbers in text), \<open>Fs\<close> (paths and a
    file system as a tree; the interface \<open>file_system\<close>, interpreted on the tree), \<open>Ipc\<close>
    (\<open>savr-core/src/ipc.rs\<close> and the app's one-request client; the interface \<open>framing\<close>, interpreted
    on the codec).

  \<^bold>\<open>The server.\<close>
  \<^item> \<open>Server_Error\<close> (\<open>error.rs\<close>), \<open>Server_Db\<close> (the schema, games, versions, conflict resolution in
    \<open>db.rs\<close>), \<open>Server_Blobs\<close> (\<open>blobs.rs\<close>), \<open>Server_Gc\<close> (retention, \<open>run_gc\<close> and \<open>prune_game\<close>),
    \<open>Server_Config\<close> (the shared configuration), \<open>Server_Auth\<close> (\<open>auth.rs\<close>, devices and pairing),
    \<open>Server_Hub\<close> (\<open>hub.rs\<close>), \<open>Server_Api\<close> (the handlers of \<open>api.rs\<close>), \<open>Server_Ws\<close> (\<open>ws.rs\<close>),
    \<open>Server_System\<close> (the dispatch of \<open>build_app\<close> and the background collection).
  \<^item> Shown: after any sequence of requests and collections the database satisfies its constraints,
    reference counts are exact and blobs are stored under their hash; of two uploads on one head
    exactly the first wins and nothing is lost; the retention loops compute the declarative rule and
    never collect a head or an open conflict; accounts do not see or change each other; a pairing
    code pairs once and guesses are limited; a refused request changes nothing; interleaved updates
    of the configuration cannot overwrite each other. \<open>Server_History\<close> states what the history
    promises to clients.

  \<^bold>\<open>Saves: from the disk to the server and back.\<close>
  \<^item> \<open>Snapshot\<close> (\<open>snapshot.rs\<close>), \<open>Archive\<close> (\<open>archive.rs\<close>), \<open>Local_State\<close> (\<open>state.rs\<close>,
    \<open>naming.rs\<close>), \<open>Client\<close> (\<open>client.rs\<close>), \<open>Backup\<close> (\<open>backup.rs\<close>), \<open>Restore\<close> (\<open>restore.rs\<close>),
    \<open>Sync\<close> (the daemon's restore over the histories of the server).
  \<^item> Shown: a snapshot holds exactly the reached files and a difference applied to the old state
    gives the new one; packing and unpacking is a round trip and an archive writes only below its
    destination; a backup touches no save and its change is on the server or in the outbox before
    the base advances; every due upload of a retry pass is settled or postponed within bounds; a
    restore checks the hash of every archive of the chain before it changes a file, and merging the
    chain yields the files of the target version. In every history the server can reach, the walk
    along the parents returns; a collection may cut a chain that a restore needs.

  \<^bold>\<open>Games: detection and catalog.\<close>
  \<^item> \<open>Steam\<close> (\<open>detection/steam.rs\<close>), \<open>Exe_Index\<close> (\<open>detection/exe_index.rs\<close>), \<open>Watcher\<close>
    (\<open>detection/mod.rs\<close>), \<open>Paths\<close> (\<open>manifest.rs\<close>, \<open>paths.rs\<close>, \<open>scan.rs\<close>; the function \<open>resolve\<close> of
    \<open>manifest.rs\<close> is called \<open>resolve_placeholders\<close>, as the server has a handler of that name), \<open>Catalog\<close>
    (\<open>config.rs\<close> and \<open>refresh_games\<close>).
  \<^item> Shown: the KeyValues reader reads back what was written and the discovery is exact; a process is
    attributed to a game by its path or by an unambiguous base name; the poll loop refines one
    state machine per game and reports a stop once, after the settle time; filling placeholders one
    by one equals filling them at once; identifiers of games are stable.

  \<^bold>\<open>The running daemon and the app.\<close>
  \<^item> \<open>Engine\<close> (\<open>engine.rs\<close>: every request of the app, detection events, pushes), \<open>Daemon\<close>
    (the client in \<open>ws.rs\<close>, the start in \<open>main.rs\<close>, the step relation of the tasks and its reachable
    states), \<open>Daemon_Files\<close> (\<open>manifest_sync.rs\<close>, the file store of \<open>secrets.rs\<close>, \<open>logs.rs\<close>), \<open>App\<close>
    (\<open>savr-daemon/src/ipc.rs\<close>, \<open>commands.rs\<close> and the notifications of \<open>ipc_client.rs\<close>),
    \<open>Supervisor\<close> (\<open>savr-app/src-tauri/src/daemon.rs\<close>).
  \<^item> Shown: in every reachable state the catalog has one entry per identifier and title and the
    watcher names listed games only; a step changes saves only by a permitted restore of a game that
    does not run; a pending conflict goes away only by its resolution; after a detected stop the
    backup stays pending until it runs; a request of the app is handled once and its client gets the
    handler's reply, with events in between; no command meets a reply of another type; at most one
    child of the supervisor runs and none outlives a quit.

  \<^bold>\<open>State, errors and steps.\<close> A struct is a record, an enum a datatype; a fallible function returns
  a sum with the error on the left, together with the state after it. A transaction that fails
  leaves the database as it was. A handler of the server is one step, except where a theorem is
  about an interleaving (the configuration update, the redemption of pairing codes, the socket of a
  device, the hand-over of the child), where it is split at the points at which others can run. A
  step of the daemon is one operation of the engine.

  \<^bold>\<open>Termination and bounds.\<close> All loops are total functions, with one exception: the walk of a restore
  along the parents of a history that the server supplies has no bound in the code, so \<open>chain_loop\<close>
  is a partial function whose \<open>None\<close> is not returning, and so are the results of what calls it, up
  to \<open>handle_request\<close>. That the walk returns is proved for all reachable histories. Loops over a
  byte stream recurse on what is left of it; no fuel is used. Lengths of frames, counters of
  attempts and decimal numbers are kept at their width where they can overflow; identifiers are
  128-bit words, times are integers of nanoseconds.

  \<^bold>\<open>Parameters.\<close> Third-party code is an argument of the definitions that use it: JSON, YAML and TOML,
  tar and zstd, BLAKE3, Argon2 and the JWT library, the HTTP transport, globs, random sources and
  fresh identifiers, clocks, the process table, environment variables and the paths of the
  platform. What a theorem needs of them is a named hypothesis, and its witness supplies a concrete
  instance.

  \<^bold>\<open>Not modelled.\<close> The tray icon and the login item (\<open>tray.rs\<close>, \<open>autostart.rs\<close>), the windows and
  the interface of the app (\<open>lib.rs\<close>, Svelte), the launchers' environment, logging, signals and
  listening sockets, the health probes, the keychain, the well-known directories of the platforms
  (\<open>Roots::current\<close>, \<open>default_steam_roots\<close>, \<open>default_ipc_endpoint\<close>), the Windows registry and the
  Windows test for executables: these are calls of the operating system or of libraries with no
  logic of the program's own. Failures of the disk and of the local SQLite file are not modelled.
\<close>

end
